(* ===== verification/Prelude.thy ===== *)
theory Prelude
  imports Main "HOL-Library.AList" "HOL-Library.Sublist"
begin

text \<open>
  The shared vocabulary of the development.  JavaScript's string and array methods are pure,
  so they are plain HOL functions here, named after the methods; strings are lists of
  characters, and every method the modelled sources call is defined once in this theory with
  the lemmas the component theories rely on.  Three collections carry the automation:
  \<open>js_defs\<close> unfolds the string and array methods, \<open>dom_simps\<close> rewrites reads of the
  document after writes, and \<open>model_defs\<close> unfolds the small operations of a component.
\<close>

named_theorems js_defs
named_theorems dom_simps
named_theorems model_defs

type_synonym elem = nat

section \<open>Statements\<close>

text \<open>
  The result of statements that may throw is the state they leave and the error, if one was
  thrown; the next statement of a body runs unless that is the case.
\<close>

fun and_then :: "'s \<times> 'e option \<Rightarrow> ('s \<Rightarrow> 's \<times> 'e option) \<Rightarrow> 's \<times> 'e option" where
  "and_then (s, Some err) f = (s, Some err)"
| "and_then (s, None) f = f s"

section \<open>Components driven by events\<close>

text \<open>
  Every component is driven by calls, events of the page, timers and ends of transitions, and \<open>foldl step\<close>
  is a run of it.  The contract of such a machine: its invariant is kept by each step that is allowed
  where it happens.  An invariant then holds along every allowed run.
\<close>

fun allowed_run :: "('s \<Rightarrow> 'e \<Rightarrow> bool) \<Rightarrow> ('s \<Rightarrow> 'e \<Rightarrow> 's) \<Rightarrow> 's \<Rightarrow> 'e list \<Rightarrow> bool" where
  "allowed_run ok step s [] = True"
| "allowed_run ok step s (ev # evs) = (ok s ev \<and> allowed_run ok step (step s ev) evs)"

lemma allowed_run_always: "(\<And>s ev. ev \<in> set evs \<Longrightarrow> ok s ev) \<Longrightarrow> allowed_run ok step s evs"
  by (induction evs arbitrary: s) auto

locale event_machine =
  fixes step :: "'s \<Rightarrow> 'e \<Rightarrow> 's" and ok :: "'s \<Rightarrow> 'e \<Rightarrow> bool" and inv :: "'s \<Rightarrow> bool"
  assumes step_keeps: "inv s \<Longrightarrow> ok s ev \<Longrightarrow> inv (step s ev)"
begin

lemma run_keeps: "inv s \<Longrightarrow> allowed_run ok step s evs \<Longrightarrow> inv (foldl step s evs)"
  by (induction evs arbitrary: s) (simp_all add: step_keeps)

lemma prefix_keeps: "inv s \<Longrightarrow> allowed_run ok step s (evs @ more) \<Longrightarrow> inv (foldl step s evs)"
  by (induction evs arbitrary: s) (simp_all add: step_keeps)

end

section \<open>Arrays\<close>

text \<open>\<open>Array.prototype.indexOf\<close>: the first index, or -1.\<close>

fun index_from :: "int \<Rightarrow> 'a list \<Rightarrow> 'a \<Rightarrow> int" where
  "index_from i [] y = -1"
| "index_from i (x # xs) y = (if x = y then i else index_from (i + 1) xs y)"

definition indexOf :: "'a list \<Rightarrow> 'a \<Rightarrow> int" where
  "indexOf xs y = index_from 0 xs y"

text \<open>Array indexing: an index outside the array reads \<open>undefined\<close>.\<close>

definition at_index :: "'a list \<Rightarrow> int \<Rightarrow> 'a option" where
  "at_index xs i = (if 0 \<le> i \<and> i < int (length xs) then Some (xs ! nat i) else None)"

lemma index_from_absent: "y \<notin> set xs \<Longrightarrow> index_from i xs y = -1"
  by (induction xs arbitrary: i) auto

lemma index_from_present: "y \<in> set xs \<Longrightarrow> i \<le> index_from i xs y \<and> index_from i xs y < i + int (length xs)
    \<and> xs ! nat (index_from i xs y - i) = y"
proof (induction xs arbitrary: i)
  case Nil
  then show ?case by simp
next
  case (Cons x xs)
  show ?case
  proof (cases "x = y")
    case True
    then show ?thesis by simp
  next
    case False
    with Cons.prems have y: "y \<in> set xs" by simp
    note ih = Cons.IH [OF y, of "i + 1"]
    then have "nat (index_from (i + 1) xs y - i) = Suc (nat (index_from (i + 1) xs y - (i + 1)))"
      by auto
    with ih False show ?thesis by auto
  qed
qed

lemma indexOf_absent [simp]: "y \<notin> set xs \<Longrightarrow> indexOf xs y = -1"
  by (simp add: indexOf_def index_from_absent)

lemma indexOf_present:
  assumes "y \<in> set xs"
  shows "0 \<le> indexOf xs y" "indexOf xs y < int (length xs)" "xs ! nat (indexOf xs y) = y"
  using index_from_present [OF assms, of 0] by (auto simp: indexOf_def)

lemma indexOf_nonneg_iff: "0 \<le> indexOf xs y \<longleftrightarrow> y \<in> set xs"
  by (cases "y \<in> set xs") (auto simp: indexOf_present)

lemma indexOf_minus_one_iff: "indexOf xs y = -1 \<longleftrightarrow> y \<notin> set xs"
  using indexOf_present(1) [of y xs] by (cases "y \<in> set xs") auto

lemma indexOf_nth: "distinct xs \<Longrightarrow> i < length xs \<Longrightarrow> indexOf xs (xs ! i) = int i"
proof -
  assume d: "distinct xs" and i: "i < length xs"
  then have m: "xs ! i \<in> set xs" by simp
  have "nat (indexOf xs (xs ! i)) < length xs" using indexOf_present [OF m] by linarith
  then have "nat (indexOf xs (xs ! i)) = i"
    using d i indexOf_present(3) [OF m] by (simp add: nth_eq_iff_index_eq)
  with indexOf_present(1) [OF m] show ?thesis by simp
qed

lemma at_index_Some_mem: "at_index xs i = Some x \<Longrightarrow> x \<in> set xs"
  by (auto simp: at_index_def split: if_splits)

lemma at_index_nat [simp]: "n < length xs \<Longrightarrow> at_index xs (int n) = Some (xs ! n)"
  by (simp add: at_index_def)

section \<open>Strings\<close>

definition startsWith :: "string \<Rightarrow> string \<Rightarrow> bool" where
  "startsWith s p = (take (length p) s = p)"

text \<open>\<open>String.prototype.includes\<close>.\<close>

fun str_includes :: "string \<Rightarrow> string \<Rightarrow> bool" where
  "str_includes [] p = (p = [])"
| "str_includes (c # s) p = (startsWith (c # s) p \<or> str_includes s p)"

text \<open>\<open>String.prototype.split\<close> with a one-character separator.\<close>

fun split_on :: "char \<Rightarrow> string \<Rightarrow> string list" where
  "split_on d [] = [[]]"
| "split_on d (c # s) =
     (if c = d then [] # split_on d s
      else (case split_on d s of [] \<Rightarrow> [[c]] | w # ws \<Rightarrow> (c # w) # ws))"

text \<open>\<open>Array.prototype.join\<close>.\<close>

fun join_with :: "string \<Rightarrow> string list \<Rightarrow> string" where
  "join_with d [] = []"
| "join_with d [w] = w"
| "join_with d (w # ws) = w @ d @ join_with d ws"

definition is_space :: "char \<Rightarrow> bool" where
  "is_space c = (c = CHR '' '' \<or> (9 \<le> (of_char c :: nat) \<and> (of_char c :: nat) \<le> 13))"

text \<open>\<open>String.prototype.trim\<close>.\<close>

definition str_trim :: "string \<Rightarrow> string" where
  "str_trim s = rev (dropWhile is_space (rev (dropWhile is_space s)))"

text \<open>The base-10 rendering of an integer, as template literals print it.\<close>

fun digits :: "nat \<Rightarrow> string" where
  "digits n = (if n < 10 then [char_of (48 + n)] else digits (n div 10) @ [char_of (48 + n mod 10)])"

declare digits.simps [simp del]

definition to_lower_char :: "char \<Rightarrow> char" where
  "to_lower_char c = (let n = of_char c :: nat in if 65 \<le> n \<and> n \<le> 90 then char_of (n + 32) else c)"

definition to_upper_char :: "char \<Rightarrow> char" where
  "to_upper_char c = (let n = of_char c :: nat in if 97 \<le> n \<and> n \<le> 122 then char_of (n - 32) else c)"

definition is_upper :: "char \<Rightarrow> bool" where
  "is_upper c = (let n = of_char c :: nat in 65 \<le> n \<and> n \<le> 90)"

lemma startsWith_append [simp]: "startsWith (p @ s) p"
  by (simp add: startsWith_def)

lemma startsWith_prefix: "startsWith s p \<longleftrightarrow> prefix p s"
  by (metis append_eq_conv_conj append_take_drop_id prefix_def startsWith_def)

lemma str_includes_sublist: "str_includes s p \<longleftrightarrow> sublist p s"
  by (induction s) (auto simp: startsWith_prefix sublist_Cons_right)

lemma split_on_nonempty [simp]: "split_on d s \<noteq> []"
  by (induction s) (auto split: list.splits)

lemma join_split [simp]: "join_with [d] (split_on d s) = s"
proof (induction s)
  case Nil
  then show ?case by simp
next
  case (Cons c s)
  obtain w ws where s: "split_on d s = w # ws"
    by (cases "split_on d s") auto
  with Cons.IH show ?case by (cases ws) auto
qed

lemma split_on_absent: "d \<notin> set s \<Longrightarrow> split_on d s = [s]"
  by (induction s) auto

lemma split_on_append_sep: "d \<notin> set a \<Longrightarrow> split_on d (a @ d # b) = a # split_on d b"
  by (induction a) auto

lemma digits_nonempty [simp]: "digits n \<noteq> []"
  by (subst digits.simps) simp

end
