(* ===== verification/Dom.thy ===== *)
theory Dom
  imports Prelude
begin

text \<open>
  The browser document the scripts run in.  A page is a tree of element identities in document
  order, a table of the mutable parts of each element (class list, attributes, inline style,
  text), the focused element and the log of dispatched events.  Reads and writes are the DOM
  methods the sources call, named after them.  Selectors are a datatype: every selector that
  occurs as a constant in the sources is a value of it, and selectors that come from markup go
  through the parser of the host, a parameter of the model.

  Listeners outside the modelled code are represented by their one effect on the modelled code:
  whether they call \<open>preventDefault\<close> (field \<open>cancels\<close> of the host).
\<close>

section \<open>Elements and the tree\<close>

record node =
  tagName :: string
  classList :: "string list"
  attributes :: "(string \<times> string) list"
  style :: "string \<Rightarrow> string"
  textContent :: string

datatype etree = Elem (eid: elem) (kids: "etree list")

record page =
  tree :: etree
  nodes :: "elem \<Rightarrow> node"
  focused :: "elem option"
  ev_log :: "(elem \<times> string) list"

text \<open>Document order.\<close>

fun preorder :: "etree \<Rightarrow> elem list" where
  "preorder (Elem e ks) = e # concat (map preorder ks)"

text \<open>The element and its ancestors, innermost first; empty when the element is not in the tree.\<close>

fun chain :: "elem \<Rightarrow> etree \<Rightarrow> elem list" where
  "chain e (Elem x ks) =
     (if x = e then [x]
      else (case filter (\<lambda>c. c \<noteq> []) (map (chain e) ks) of [] \<Rightarrow> [] | c # _ \<Rightarrow> c @ [x]))"

fun subtree :: "elem \<Rightarrow> etree \<Rightarrow> etree option" where
  "subtree e (Elem x ks) =
     (if x = e then Some (Elem x ks)
      else (case filter (\<lambda>t. t \<noteq> None) (map (subtree e) ks) of [] \<Rightarrow> None | t # _ \<Rightarrow> t))"

text \<open>Removing an element takes its whole subtree out of the document.\<close>

fun tree_remove :: "elem \<Rightarrow> etree \<Rightarrow> etree" where
  "tree_remove e (Elem x ks) = Elem x (map (tree_remove e) (filter (\<lambda>k. eid k \<noteq> e) ks))"

fun tree_append :: "elem \<Rightarrow> etree \<Rightarrow> etree \<Rightarrow> etree" where
  "tree_append e t (Elem x ks) =
     (if x = e then Elem x (ks @ [t]) else Elem x (map (tree_append e t) ks))"

text \<open>Rewriting the child list of one element.\<close>

fun upd_kids :: "elem \<Rightarrow> (etree list \<Rightarrow> etree list) \<Rightarrow> etree \<Rightarrow> etree" where
  "upd_kids e f (Elem x ks) = (if x = e then Elem x (f ks) else Elem x (map (upd_kids e f) ks))"

abbreviation in_page :: "page \<Rightarrow> elem \<Rightarrow> bool" where
  "in_page p e \<equiv> e \<in> set (preorder (tree p))"

definition wf_page :: "page \<Rightarrow> bool" where
  "wf_page p = distinct (preorder (tree p))"

definition contains :: "page \<Rightarrow> elem \<Rightarrow> elem \<Rightarrow> bool" where
  "contains p a b = (a = b \<or> a \<in> set (chain b (tree p)))"

definition parentNode :: "page \<Rightarrow> elem \<Rightarrow> elem option" where
  "parentNode p e = (case chain e (tree p) of _ # x # _ \<Rightarrow> Some x | _ \<Rightarrow> None)"

definition children :: "page \<Rightarrow> elem \<Rightarrow> elem list" where
  "children p e = (case subtree e (tree p) of None \<Rightarrow> [] | Some t \<Rightarrow> map eid (kids t))"

definition descendants :: "page \<Rightarrow> elem \<Rightarrow> elem list" where
  "descendants p e = (case subtree e (tree p) of None \<Rightarrow> [] | Some t \<Rightarrow> tl (preorder t))"

definition remove_el :: "elem \<Rightarrow> page \<Rightarrow> page" where
  "remove_el e p = p\<lparr>tree := tree_remove e (tree p)\<rparr>"

text \<open>\<open>parent.removeChild(c)\<close>.\<close>

definition removeChild :: "elem \<Rightarrow> elem \<Rightarrow> page \<Rightarrow> page" where
  "removeChild q c p = p\<lparr>tree := upd_kids q (filter (\<lambda>k. eid k \<noteq> c)) (tree p)\<rparr>"

definition append_el :: "elem \<Rightarrow> elem \<Rightarrow> page \<Rightarrow> page" where
  "append_el parent e p = p\<lparr>tree := tree_append parent (Elem e []) (tree p)\<rparr>"

definition focus_el :: "elem \<Rightarrow> page \<Rightarrow> page" where
  "focus_el e p = p\<lparr>focused := Some e\<rparr>"

definition blur_el :: "elem \<Rightarrow> page \<Rightarrow> page" where
  "blur_el e p = (if focused p = Some e then p\<lparr>focused := None\<rparr> else p)"

section \<open>Reading and writing one element\<close>

definition upd_node :: "elem \<Rightarrow> (node \<Rightarrow> node) \<Rightarrow> page \<Rightarrow> page" where
  "upd_node e f p = p\<lparr>nodes := (nodes p)(e := f (nodes p e))\<rparr>"

definition has_class :: "page \<Rightarrow> elem \<Rightarrow> string \<Rightarrow> bool" where
  "has_class p e c = (c \<in> set (classList (nodes p e)))"

definition add_class :: "elem \<Rightarrow> string \<Rightarrow> page \<Rightarrow> page" where
  "add_class e c =
     upd_node e (\<lambda>n. n\<lparr>classList := (if c \<in> set (classList n) then classList n else classList n @ [c])\<rparr>)"

definition remove_class :: "elem \<Rightarrow> string \<Rightarrow> page \<Rightarrow> page" where
  "remove_class e c = upd_node e (\<lambda>n. n\<lparr>classList := filter (\<lambda>x. x \<noteq> c) (classList n)\<rparr>)"

text \<open>\<open>classList.toggle(c)\<close> and \<open>classList.toggle(c, force)\<close>.\<close>

definition force_class :: "elem \<Rightarrow> string \<Rightarrow> bool \<Rightarrow> page \<Rightarrow> page" where
  "force_class e c b = (if b then add_class e c else remove_class e c)"

definition toggle_class :: "elem \<Rightarrow> string \<Rightarrow> page \<Rightarrow> bool \<times> page" where
  "toggle_class e c p = (let b = \<not> has_class p e c in (b, force_class e c b p))"

definition getAttribute :: "page \<Rightarrow> elem \<Rightarrow> string \<Rightarrow> string option" where
  "getAttribute p e a = map_of (attributes (nodes p e)) a"

definition setAttribute :: "elem \<Rightarrow> string \<Rightarrow> string \<Rightarrow> page \<Rightarrow> page" where
  "setAttribute e a v = upd_node e (\<lambda>n. n\<lparr>attributes := AList.update a v (attributes n)\<rparr>)"

definition removeAttribute :: "elem \<Rightarrow> string \<Rightarrow> page \<Rightarrow> page" where
  "removeAttribute e a = upd_node e (\<lambda>n. n\<lparr>attributes := AList.delete a (attributes n)\<rparr>)"

text \<open>Inline style: an unset property reads as the empty string, and writing it unsets.\<close>

definition getStyle :: "page \<Rightarrow> elem \<Rightarrow> string \<Rightarrow> string" where
  "getStyle p e k = style (nodes p e) k"

definition setStyle :: "elem \<Rightarrow> string \<Rightarrow> string \<Rightarrow> page \<Rightarrow> page" where
  "setStyle e k v = upd_node e (\<lambda>n. n\<lparr>style := (style n)(k := v)\<rparr>)"

text \<open>The text an attribute gets when a boolean is assigned to it.\<close>

definition bool_str :: "bool \<Rightarrow> string" where
  "bool_str b = (if b then ''true'' else ''false'')"

section \<open>Selectors\<close>

datatype simple_sel =
    SelAny
  | SelTag string
  | SelClass string
  | SelId string
  | SelHasAttr string
  | SelAttr string string
  | SelScope
  | SelDisabled
  | SelNot simple_sel

text \<open>
  A compound selector is a conjunction; a complex selector lists its compounds from the subject
  outwards, joined by the descendant combinator; a selector is a comma list of them.
\<close>

type_synonym compound_sel = "simple_sel list"
type_synonym complex_sel = "compound_sel list"
type_synonym selector = "complex_sel list"

fun match_simple :: "page \<Rightarrow> elem \<Rightarrow> elem \<Rightarrow> simple_sel \<Rightarrow> bool" where
  "match_simple p scope e SelAny = True"
| "match_simple p scope e (SelTag t) = (map to_lower_char (tagName (nodes p e)) = t)"
| "match_simple p scope e (SelClass c) = has_class p e c"
| "match_simple p scope e (SelId i) = (getAttribute p e ''id'' = Some i)"
| "match_simple p scope e (SelHasAttr a) = (getAttribute p e a \<noteq> None)"
| "match_simple p scope e (SelAttr a v) = (getAttribute p e a = Some v)"
| "match_simple p scope e SelScope = (e = scope)"
| "match_simple p scope e SelDisabled = (getAttribute p e ''disabled'' \<noteq> None)"
| "match_simple p scope e (SelNot s) = (\<not> match_simple p scope e s)"

fun match_path :: "page \<Rightarrow> elem \<Rightarrow> complex_sel \<Rightarrow> elem list \<Rightarrow> bool" where
  "match_path p scope [] path = True"
| "match_path p scope (c # cs) [] = False"
| "match_path p scope (c # cs) (e # up) =
     (if list_all (match_simple p scope e) c \<and> match_path p scope cs up then True
      else match_path p scope (c # cs) up)"

text \<open>The subject compound must match the element itself, the others some ancestors in order.\<close>

fun match_complex :: "page \<Rightarrow> elem \<Rightarrow> complex_sel \<Rightarrow> elem list \<Rightarrow> bool" where
  "match_complex p scope (c # cs) (e # up) =
     (list_all (match_simple p scope e) c \<and> match_path p scope cs up)"
| "match_complex p scope _ _ = False"

definition matches_in :: "page \<Rightarrow> elem \<Rightarrow> selector \<Rightarrow> elem \<Rightarrow> bool" where
  "matches_in p scope sel e = list_ex (\<lambda>c. match_complex p scope c (chain e (tree p))) sel"

definition matches :: "page \<Rightarrow> selector \<Rightarrow> elem \<Rightarrow> bool" where
  "matches p sel e = matches_in p e sel e"

definition querySelectorAll :: "page \<Rightarrow> elem \<Rightarrow> selector \<Rightarrow> elem list" where
  "querySelectorAll p rt sel = filter (matches_in p rt sel) (descendants p rt)"

definition first_of :: "'a list \<Rightarrow> 'a option" where
  "first_of xs = (case xs of [] \<Rightarrow> None | x # _ \<Rightarrow> Some x)"

definition querySelector :: "page \<Rightarrow> elem \<Rightarrow> selector \<Rightarrow> elem option" where
  "querySelector p rt sel = first_of (querySelectorAll p rt sel)"

definition closest :: "page \<Rightarrow> selector \<Rightarrow> elem \<Rightarrow> elem option" where
  "closest p sel e = first_of (filter (matches p sel) (chain e (tree p)))"

section \<open>The host\<close>

text \<open>
  What the scripts read of the browser and of the page's other scripts.  \<open>disabled_prop\<close> is the
  \<open>disabled\<close> property where an element has one, \<open>interface_name\<close> the name of its DOM interface
  in lower case.  \<open>jquery\<close> is the
  answer of jQuery's own event (propagation stopped, immediate propagation stopped, default
  prevented) when jQuery is on the page.
\<close>

record host =
  cancels :: "elem \<Rightarrow> string \<Rightarrow> bool"
  parse_sel :: "string \<Rightarrow> selector option"
  css_escape :: "string \<Rightarrow> string"
  rtl :: bool
  hidden_doc :: bool
  touch :: bool
  client_rects :: "elem \<Rightarrow> nat"
  visibility :: "elem \<Rightarrow> string"
  disabled_prop :: "elem \<Rightarrow> bool option"
  interface_name :: "elem \<Rightarrow> string"
  jquery :: "(elem \<Rightarrow> string \<Rightarrow> bool \<times> bool \<times> bool) option"

section \<open>Reads after writes\<close>

lemma nodes_upd_node [dom_simps]:
  "nodes (upd_node e f p) x = (if x = e then f (nodes p e) else nodes p x)"
  by (simp add: upd_node_def)

lemma upd_node_frame [dom_simps]:
  "tree (upd_node e f p) = tree p" "focused (upd_node e f p) = focused p"
  "ev_log (upd_node e f p) = ev_log p"
  by (simp_all add: upd_node_def)

lemma tree_writes [dom_simps]:
  "tree (add_class e c p) = tree p" "tree (remove_class e c p) = tree p"
  "tree (force_class e c b p) = tree p" "tree (setAttribute e a v p) = tree p"
  "tree (removeAttribute e a p) = tree p" "tree (setStyle e k v p) = tree p"
  "tree (focus_el e p) = tree p"
  by (simp_all add: add_class_def remove_class_def force_class_def setAttribute_def
      removeAttribute_def setStyle_def focus_el_def upd_node_frame)

lemma log_writes [dom_simps]:
  "ev_log (add_class e c p) = ev_log p" "ev_log (remove_class e c p) = ev_log p"
  "ev_log (force_class e c b p) = ev_log p" "ev_log (setAttribute e a v p) = ev_log p"
  "ev_log (removeAttribute e a p) = ev_log p" "ev_log (setStyle e k v p) = ev_log p"
  "ev_log (focus_el e p) = ev_log p" "ev_log (remove_el e p) = ev_log p"
  by (simp_all add: add_class_def remove_class_def force_class_def setAttribute_def
      removeAttribute_def setStyle_def focus_el_def remove_el_def upd_node_frame)

lemma has_class_writes [dom_simps]:
  "has_class (add_class e c p) x d = (x = e \<and> d = c \<or> has_class p x d)"
  "has_class (remove_class e c p) x d = (\<not> (x = e \<and> d = c) \<and> has_class p x d)"
  "has_class (force_class e c b p) x d = (if x = e \<and> d = c then b else has_class p x d)"
  "has_class (setAttribute e a v p) x d = has_class p x d"
  "has_class (removeAttribute e a p) x d = has_class p x d"
  "has_class (setStyle e k v p) x d = has_class p x d"
  "has_class (focus_el e p) x d = has_class p x d"
  "has_class (remove_el e p) x d = has_class p x d"
  "has_class (append_el y e p) x d = has_class p x d"
  by (auto simp: has_class_def add_class_def remove_class_def force_class_def setAttribute_def
      removeAttribute_def setStyle_def focus_el_def remove_el_def append_el_def nodes_upd_node)

lemma getAttribute_writes [dom_simps]:
  "getAttribute (setAttribute e a v p) x b = (if x = e \<and> b = a then Some v else getAttribute p x b)"
  "getAttribute (removeAttribute e a p) x b = (if x = e \<and> b = a then None else getAttribute p x b)"
  "getAttribute (add_class e c p) x b = getAttribute p x b"
  "getAttribute (remove_class e c p) x b = getAttribute p x b"
  "getAttribute (force_class e c t p) x b = getAttribute p x b"
  "getAttribute (setStyle e k w p) x b = getAttribute p x b"
  "getAttribute (focus_el e p) x b = getAttribute p x b"
  "getAttribute (remove_el e p) x b = getAttribute p x b"
  by (auto simp: getAttribute_def add_class_def remove_class_def force_class_def setAttribute_def
      removeAttribute_def setStyle_def focus_el_def remove_el_def nodes_upd_node update_conv' delete_conv'
      restrict_map_def)

lemma getStyle_writes [dom_simps]:
  "getStyle (setStyle e k v p) x l = (if x = e \<and> l = k then v else getStyle p x l)"
  "getStyle (add_class e c p) x l = getStyle p x l"
  "getStyle (remove_class e c p) x l = getStyle p x l"
  "getStyle (force_class e c b p) x l = getStyle p x l"
  "getStyle (setAttribute e a w p) x l = getStyle p x l"
  "getStyle (removeAttribute e a p) x l = getStyle p x l"
  "getStyle (focus_el e p) x l = getStyle p x l"
  by (auto simp: getStyle_def add_class_def remove_class_def force_class_def setAttribute_def
      removeAttribute_def setStyle_def focus_el_def nodes_upd_node)

lemma tag_writes [dom_simps]:
  "tagName (nodes (add_class e c p) x) = tagName (nodes p x)" "tagName (nodes (remove_class e c p) x) = tagName (nodes p x)"
  "tagName (nodes (setAttribute e a w p) x) = tagName (nodes p x)" "tagName (nodes (removeAttribute e a p) x) = tagName (nodes p x)"
  "tagName (nodes (setStyle e k w p) x) = tagName (nodes p x)" "tagName (nodes (focus_el e p) x) = tagName (nodes p x)"
  by (simp_all add: add_class_def remove_class_def setAttribute_def removeAttribute_def setStyle_def focus_el_def upd_node_def)

lemma focused_writes [dom_simps]:
  "focused (add_class e c p) = focused p" "focused (remove_class e c p) = focused p" "focused (setAttribute e a w p) = focused p"
  "focused (removeAttribute e a p) = focused p" "focused (setStyle e k w p) = focused p" "focused (focus_el e p) = Some e"
  by (simp_all add: add_class_def remove_class_def setAttribute_def removeAttribute_def setStyle_def focus_el_def upd_node_def)

lemma blur_writes [dom_simps]:
  "has_class (blur_el e p) x c = has_class p x c" "getAttribute (blur_el e p) x a = getAttribute p x a" "tree (blur_el e p) = tree p"
  "getStyle (blur_el e p) x k = getStyle p x k" "tagName (nodes (blur_el e p) x) = tagName (nodes p x)"
  by (simp_all add: blur_el_def has_class_def getAttribute_def getStyle_def)

text \<open>Logging an event changes nothing a selector reads.\<close>

lemma log_frame [dom_simps]:
  "tree (p\<lparr>ev_log := l\<rparr>) = tree p" "has_class (p\<lparr>ev_log := l\<rparr>) x c = has_class p x c"
  "getAttribute (p\<lparr>ev_log := l\<rparr>) x a = getAttribute p x a"
  "getStyle (p\<lparr>ev_log := l\<rparr>) x k = getStyle p x k"
  "chain x (tree (p\<lparr>ev_log := l\<rparr>)) = chain x (tree p)"
  by (simp_all add: has_class_def getAttribute_def getStyle_def)

section \<open>Tree facts\<close>

lemma chain_head: "chain e t \<noteq> [] \<Longrightarrow> hd (chain e t) = e"
proof (induction e t rule: chain.induct)
  case (1 e x ks)
  show ?case
  proof (cases "x = e")
    case True
    then show ?thesis by simp
  next
    case False
    with "1.prems" obtain c cs where f: "filter (\<lambda>c. c \<noteq> []) (map (chain e) ks) = c # cs"
      by (cases "filter (\<lambda>c. c \<noteq> []) (map (chain e) ks)") auto
    have c: "c \<in> set (map (chain e) ks)" "c \<noteq> []"
      using arg_cong [OF f, of set] by auto
    then obtain k where "k \<in> set ks" "c = chain e k" by auto
    with "1.IH" [OF False] c(2) have "hd c = e" by simp
    with False f c(2) show ?thesis by simp
  qed
qed

lemma preorder_remove_subset: "set (preorder (tree_remove e t)) \<subseteq> set (preorder t)"
  by (induction e t rule: tree_remove.induct) fastforce

lemma in_descendants_page:
  "subtree e t = Some u \<Longrightarrow> set (preorder u) \<subseteq> set (preorder t)"
proof (induction e t arbitrary: u rule: subtree.induct)
  case (1 e x ks)
  show ?case
  proof (cases "x = e")
    case True
    with "1.prems" show ?thesis by auto
  next
    case False
    with "1.prems" obtain ts where f: "filter (\<lambda>t. t \<noteq> None) (map (subtree e) ks) = Some u # ts"
      by (cases "filter (\<lambda>t. t \<noteq> None) (map (subtree e) ks)") auto
    have "Some u \<in> set (filter (\<lambda>t. t \<noteq> None) (map (subtree e) ks))"
      unfolding f by simp
    then obtain k where k: "k \<in> set ks" "subtree e k = Some u" by auto
    with "1.IH" [OF False] have "set (preorder u) \<subseteq> set (preorder k)" by simp
    with k(1) show ?thesis by auto
  qed
qed

lemma querySelectorAll_in_page: "x \<in> set (querySelectorAll p rt sel) \<Longrightarrow> in_page p x"
proof -
  assume "x \<in> set (querySelectorAll p rt sel)"
  then have "x \<in> set (descendants p rt)" by (simp add: querySelectorAll_def)
  then obtain u where u: "subtree rt (tree p) = Some u" and x: "x \<in> set (tl (preorder u))"
    by (cases "subtree rt (tree p)") (auto simp: descendants_def)
  have "x \<in> set (preorder u)" using x by (cases "preorder u") auto
  with in_descendants_page [OF u] show ?thesis by auto
qed

lemma querySelectorAll_matches: "x \<in> set (querySelectorAll p rt sel) \<Longrightarrow> matches_in p rt sel x"
  by (simp add: querySelectorAll_def)

lemma querySelector_Some:
  "querySelector p rt sel = Some x \<Longrightarrow> x \<in> set (querySelectorAll p rt sel)"
  by (auto simp: querySelector_def first_of_def split: list.splits)

subsection \<open>Looking an element up after its tree changed\<close>

text \<open>The first tree of a list that holds the element decides a lookup in the list.\<close>

definition first_hit :: "('a \<Rightarrow> 'b option) \<Rightarrow> 'a list \<Rightarrow> 'b option" where
  "first_hit f xs = (case filter (\<lambda>t. t \<noteq> None) (map f xs) of [] \<Rightarrow> None | t # _ \<Rightarrow> t)"

lemma first_hit_simps [simp]:
  "first_hit f [] = None"
  "first_hit f (x # xs) = (case f x of None \<Rightarrow> first_hit f xs | Some y \<Rightarrow> Some y)"
  by (auto simp: first_hit_def split: option.splits)

lemma subtree_Elem: "subtree e (Elem x ks) = (if x = e then Some (Elem x ks) else first_hit (subtree e) ks)"
  by (simp add: first_hit_def)

fun first_chain :: "elem \<Rightarrow> etree list \<Rightarrow> elem list" where
  "first_chain e [] = []"
| "first_chain e (k # ks) = (if chain e k = [] then first_chain e ks else chain e k)"

lemma chain_Elem:
  "chain e (Elem x ks) = (if x = e then [x] else (let c = first_chain e ks in if c = [] then [] else c @ [x]))"
proof -
  have "(case filter (\<lambda>c. c \<noteq> []) (map (chain e) ks) of [] \<Rightarrow> [] | c # _ \<Rightarrow> c @ [x])
      = (let c = first_chain e ks in if c = [] then [] else c @ [x])"
    by (induction ks) auto
  then show ?thesis by simp
qed

declare subtree.simps [simp del] subtree_Elem [simp]
declare chain.simps [simp del] chain_Elem [simp]

lemma subtree_eid: "subtree e t = Some u \<Longrightarrow> eid u = e"
proof (induction t arbitrary: u)
  case (Elem x ks)
  have "first_hit (subtree e) ks = Some u \<Longrightarrow> eid u = e" if "set ks' \<subseteq> set ks" "first_hit (subtree e) ks' = Some u" for ks' u
    using that by (induction ks') (auto dest: Elem.IH split: option.splits)
  then have "first_hit (subtree e) ks = Some u \<Longrightarrow> eid u = e" by blast
  with Elem.prems show ?case by (auto split: if_splits)
qed

lemma subtree_upd_kids:
  "subtree e (upd_kids e f t) = map_option (\<lambda>u. Elem e (f (kids u))) (subtree e t)"
proof (induction t)
  case (Elem x ks)
  have "first_hit (subtree e) (map (upd_kids e f) ks') = map_option (\<lambda>u. Elem e (f (kids u))) (first_hit (subtree e) ks')"
    if "set ks' \<subseteq> set ks" for ks'
    using that by (induction ks') (auto simp: Elem.IH split: option.splits)
  then show ?case by simp
qed

lemma chain_upd_kids: "chain e (upd_kids e f t) = chain e t"
proof (induction t)
  case (Elem x ks)
  have "first_chain e (map (upd_kids e f) ks') = first_chain e ks'" if "set ks' \<subseteq> set ks" for ks'
    using that by (induction ks') (auto simp: Elem.IH)
  then show ?case by (simp add: Let_def)
qed

lemma preorder_upd_kids:
  assumes "\<And>ks. set (f ks) \<subseteq> set ks"
  shows "set (preorder (upd_kids e f t)) \<subseteq> set (preorder t)"
proof (induction t)
  case (Elem x ks)
  show ?case
  proof (cases "x = e")
    case True
    then show ?thesis using assms [of ks] by auto
  next
    case False
    then show ?thesis using Elem.IH by auto
  qed
qed

lemma children_removeChild: "children (removeChild q c p) q = filter (\<lambda>x. x \<noteq> c) (children p q)"
  by (cases "subtree q (tree p)")
    (simp_all add: children_def removeChild_def subtree_upd_kids filter_map comp_def)

lemma chain_Nil_iff: "chain e t = [] \<longleftrightarrow> subtree e t = None"
proof (induction t)
  case (Elem x ks)
  have "first_chain e ks' = [] \<longleftrightarrow> first_hit (subtree e) ks' = None" if "set ks' \<subseteq> set ks" for ks'
    using that by (induction ks') (auto simp: Elem.IH split: option.splits)
  then show ?case by (simp add: Let_def)
qed

lemma chain_root: "chain e t \<noteq> [] \<Longrightarrow> eid t \<in> set (chain e t)"
  by (cases t) (auto simp: Let_def split: if_splits)

lemma subtree_None_tree_remove: "subtree e t = None \<Longrightarrow> subtree e (tree_remove r t) = None"
proof (induction t)
  case (Elem x ks)
  have "first_hit (subtree e) ks' = None \<Longrightarrow>
      first_hit (subtree e) (map (tree_remove r) (filter (\<lambda>k. eid k \<noteq> r) ks')) = None"
    if "set ks' \<subseteq> set ks" for ks'
    using that by (induction ks') (auto simp: Elem.IH split: option.splits)
  with Elem.prems show ?case by (auto split: if_splits)
qed

lemma subtree_tree_remove:
  "r \<notin> set (chain e t) \<Longrightarrow> subtree e (tree_remove r t) = map_option (tree_remove r) (subtree e t)"
proof (induction t)
  case (Elem x ks)
  have "first_hit (subtree e) (map (tree_remove r) (filter (\<lambda>k. eid k \<noteq> r) ks'))
      = map_option (tree_remove r) (first_hit (subtree e) ks')"
    if "set ks' \<subseteq> set ks" "r \<notin> set (first_chain e ks')" for ks'
    using that
  proof (induction ks')
    case Nil
    then show ?case by simp
  next
    case (Cons k ks')
    show ?case
    proof (cases "chain e k = []")
      case True
      with Cons show ?thesis by (simp add: chain_Nil_iff subtree_None_tree_remove)
    next
      case False
      with Cons.prems have "r \<notin> set (chain e k)" "k \<in> set ks" by auto
      moreover from this False have "eid k \<noteq> r" using chain_root by blast
      ultimately show ?thesis using False Elem.IH by (auto simp: chain_Nil_iff split: option.splits)
    qed
  qed
  with Elem.prems show ?case by (auto simp: Let_def split: if_splits)
qed

lemma children_remove_el:
  "r \<notin> set (chain e (tree p)) \<Longrightarrow> children (remove_el r p) e = filter (\<lambda>x. x \<noteq> r) (children p e)"
proof (cases "subtree e (tree p)")
  case None
  then show ?thesis by (simp add: children_def remove_el_def subtree_None_tree_remove)
next
  case (Some u)
  assume "r \<notin> set (chain e (tree p))"
  with Some have "subtree e (tree (remove_el r p)) = Some (tree_remove r u)"
    by (simp add: remove_el_def subtree_tree_remove)
  moreover have "map eid (kids (tree_remove r u)) = filter (\<lambda>x. x \<noteq> r) (map eid (kids u))"
  proof (cases u)
    case (Elem x ks)
    have "eid (tree_remove r k) = eid k" for k by (cases k) simp
    then show ?thesis using Elem by (simp add: filter_map comp_def)
  qed
  ultimately show ?thesis using Some by (simp add: children_def)
qed

subsection \<open>Selectors made of one compound\<close>

lemma chain_Nil_preorder: "chain e t = [] \<longleftrightarrow> e \<notin> set (preorder t)"
proof (induction t)
  case (Elem x ks)
  have "first_chain e ks' = [] \<longleftrightarrow> e \<notin> (\<Union>k \<in> set ks'. set (preorder k))" if "set ks' \<subseteq> set ks" for ks'
    using that by (induction ks') (auto simp: Elem.IH)
  then show ?case by (auto simp: Let_def)
qed

lemma descendants_in_page: "x \<in> set (descendants p rt) \<Longrightarrow> in_page p x"
proof -
  assume "x \<in> set (descendants p rt)"
  then obtain u where u: "subtree rt (tree p) = Some u" and x: "x \<in> set (tl (preorder u))"
    by (cases "subtree rt (tree p)") (auto simp: descendants_def)
  have "x \<in> set (preorder u)" using x by (cases "preorder u") auto
  with in_descendants_page [OF u] show ?thesis by auto
qed

lemma matches_in_compound:
  "in_page p x \<Longrightarrow> matches_in p rt [[cs]] x = list_all (match_simple p rt x) cs"
proof -
  assume "in_page p x"
  then have "chain x (tree p) \<noteq> []" by (simp add: chain_Nil_preorder)
  then obtain up where "chain x (tree p) = x # up" using chain_head [of x "tree p"] by (cases "chain x (tree p)") auto
  then show ?thesis by (simp add: matches_in_def)
qed

lemma querySelectorAll_compound:
  "querySelectorAll p rt [[cs]] = filter (\<lambda>x. list_all (match_simple p rt x) cs) (descendants p rt)"
  unfolding querySelectorAll_def
  by (rule filter_cong) (auto simp: matches_in_compound descendants_in_page)

lemma distinct_concat_preorder:
  "distinct (concat (map preorder ks)) \<Longrightarrow> k \<in> set ks \<Longrightarrow> distinct (preorder k)"
  by (induction ks) auto

lemma subtree_distinct: "distinct (preorder t) \<Longrightarrow> subtree e t = Some u \<Longrightarrow> distinct (preorder u)"
proof (induction t arbitrary: u)
  case (Elem x ks)
  have d: "distinct (preorder k)" if "k \<in> set ks" for k
    using distinct_concat_preorder [of ks k] Elem.prems(1) that by simp
  have "distinct (preorder u)" if "set ks' \<subseteq> set ks" "first_hit (subtree e) ks' = Some u" for ks'
    using that by (induction ks') (auto intro: Elem.IH d split: option.splits)
  with Elem.prems show ?case by (auto split: if_splits)
qed

lemma distinct_descendants: "wf_page p \<Longrightarrow> distinct (descendants p rt)"
proof (cases "subtree rt (tree p)")
  case (Some u)
  assume "wf_page p"
  with subtree_distinct [OF _ Some] have "distinct (preorder u)" by (simp add: wf_page_def)
  then show ?thesis by (simp add: descendants_def Some distinct_tl)
qed (simp add: descendants_def)

lemma descendants_tree: "tree p = tree q \<Longrightarrow> descendants p rt = descendants q rt"
  by (simp add: descendants_def)

lemma distinct_querySelectorAll: "wf_page p \<Longrightarrow> distinct (querySelectorAll p rt sel)"
  by (simp add: querySelectorAll_def distinct_descendants)

subsection \<open>Descendants lie below\<close>

lemma first_hit_Some: "first_hit f xs = Some y \<Longrightarrow> \<exists>x\<in>set xs. f x = Some y"
  by (induction xs) (auto split: option.splits)

lemma first_chain_member:
  assumes "distinct (concat (map preorder ks))" "k \<in> set ks" "x \<in> set (preorder k)"
  shows "first_chain x ks = chain x k"
  using assms by (induction ks) (auto simp: chain_Nil_preorder)

lemma subtree_chain:
  "distinct (preorder t) \<Longrightarrow> subtree e t = Some u \<Longrightarrow> x \<in> set (preorder u) \<Longrightarrow> e \<in> set (chain x t)"
proof (induction t arbitrary: u)
  case (Elem r ks)
  show ?case
  proof (cases "r = e")
    case True
    have "chain x (Elem r ks) \<noteq> []" using Elem.prems(2,3) in_descendants_page [OF Elem.prems(2)]
      by (simp only: chain_Nil_preorder) blast
    then show ?thesis using True by (auto simp: Let_def split: if_splits)
  next
    case False
    with Elem.prems(2) obtain k where k: "k \<in> set ks" "subtree e k = Some u" by (auto dest: first_hit_Some)
    have d: "distinct (concat (map preorder ks))" "r \<notin> set (concat (map preorder ks))" using Elem.prems(1) by simp_all
    have xk: "x \<in> set (preorder k)" using in_descendants_page [OF k(2)] Elem.prems(3) by blast
    then have "x \<noteq> r" using d(2) k(1) by auto
    have "e \<in> set (chain x k)" by (rule Elem.IH [OF k(1) distinct_concat_preorder [OF d(1) k(1)] k(2) Elem.prems(3)])
    with \<open>x \<noteq> r\<close> first_chain_member [OF d(1) k(1) xk] show ?thesis by (auto simp: Let_def)
  qed
qed

lemma descendants_contains: "wf_page p \<Longrightarrow> x \<in> set (descendants p e) \<Longrightarrow> contains p e x"
proof -
  assume "wf_page p" and x: "x \<in> set (descendants p e)"
  then obtain u where u: "subtree e (tree p) = Some u" "x \<in> set (tl (preorder u))"
    by (cases "subtree e (tree p)") (auto simp: descendants_def)
  then have "x \<in> set (preorder u)" by (cases "preorder u") simp_all
  with subtree_chain [OF _ u(1)] \<open>wf_page p\<close> show ?thesis by (simp add: wf_page_def contains_def)
qed


subsection \<open>Removing elements below one element\<close>

lemma below_not_above:
  "distinct (preorder t) \<Longrightarrow> subtree b t = Some u \<Longrightarrow> x \<in> set (tl (preorder u)) \<Longrightarrow> x \<notin> set (chain b t)"
proof (induction t arbitrary: u)
  case (Elem y ks)
  show ?case
  proof (cases "y = b")
    case True
    with Elem.prems show ?thesis by auto
  next
    case False
    with Elem.prems(2) obtain k where k: "k \<in> set ks" "subtree b k = Some u" by (auto simp: subtree_Elem dest: first_hit_Some)
    have d: "distinct (concat (map preorder ks))" "y \<notin> set (concat (map preorder ks))" using Elem.prems(1) by simp_all
    have "x \<in> set (preorder u)" using Elem.prems(3) by (cases "preorder u") simp_all
    then have "x \<noteq> y" using in_descendants_page [OF k(2)] k(1) d(2) by auto
    have b: "b \<in> set (preorder k)" using k(2) chain_Nil_iff [of b k] by (simp add: chain_Nil_preorder)
    have "x \<notin> set (chain b k)" by (rule Elem.IH [OF k(1) distinct_concat_preorder [OF d(1) k(1)] k(2) Elem.prems(3)])
    with \<open>x \<noteq> y\<close> False first_chain_member [OF d(1) k(1) b] show ?thesis by (auto simp: chain_Elem Let_def)
  qed
qed

lemma chain_None_tree_remove: "chain e t = [] \<Longrightarrow> chain e (tree_remove r t) = []"
  by (simp add: chain_Nil_iff subtree_None_tree_remove)

lemma chain_in_tree: "x \<in> set (chain e t) \<Longrightarrow> x \<in> set (preorder t)"
proof (induction t)
  case (Elem y ks)
  have "x \<in> set (first_chain e ks') \<Longrightarrow> set ks' \<subseteq> set ks \<Longrightarrow> \<exists>k \<in> set ks'. x \<in> set (preorder k)" for ks'
    by (induction ks') (auto intro: Elem.IH split: if_splits)
  from this [of ks] Elem.prems show ?case by (auto simp: Let_def split: if_splits)
qed

lemma chain_in_page: "x \<in> set (chain e (tree p)) \<Longrightarrow> in_page p x"
  by (rule chain_in_tree)

lemma chain_tree_remove: "r \<notin> set (chain e t) \<Longrightarrow> chain e (tree_remove r t) = chain e t"
proof (induction t)
  case (Elem x ks)
  have "first_chain e (map (tree_remove r) (filter (\<lambda>k. eid k \<noteq> r) ks')) = first_chain e ks'"
    if "set ks' \<subseteq> set ks" "r \<notin> set (first_chain e ks')" for ks'
    using that
  proof (induction ks')
    case (Cons k ks')
    show ?case
    proof (cases "chain e k = []")
      case True
      with Cons show ?thesis by (simp add: chain_None_tree_remove)
    next
      case False
      with Cons.prems have "r \<notin> set (chain e k)" "k \<in> set ks" by auto
      moreover from this False have "eid k \<noteq> r" using chain_root by blast
      ultimately show ?thesis using False Elem.IH by simp
    qed
  qed simp
  with Elem.prems show ?case by (auto simp: chain_Elem Let_def split: if_splits)
qed

lemma tl_preorder_remove: "set (tl (preorder (tree_remove r u))) \<subseteq> set (tl (preorder u)) - {r}"
proof -
  have a: "r \<notin> set (tl (preorder (tree_remove r t)))" for t
  proof (induction t)
    case (Elem x ks)
    have "r \<notin> set (preorder (tree_remove r k))" if "k \<in> set ks" "eid k \<noteq> r" for k
      using Elem [OF that(1)] that(2) by (cases k) auto
    then show ?case by auto
  qed
  have "set (tl (preorder (tree_remove r u))) \<subseteq> set (tl (preorder u))"
    using preorder_remove_subset by (cases u) fastforce
  with a show ?thesis by blast
qed

text \<open>Removing an element below \<open>b\<close> takes it and what lies below it out, and leaves the path to \<open>b\<close>.\<close>

lemma descendants_remove_el:
  assumes "r \<notin> set (chain b (tree p))"
  shows "set (descendants (remove_el r p) b) \<subseteq> set (descendants p b) - {r}" "chain b (tree (remove_el r p)) = chain b (tree p)"
proof -
  show "set (descendants (remove_el r p) b) \<subseteq> set (descendants p b) - {r}"
    using subtree_tree_remove [OF assms] tl_preorder_remove
    by (cases "subtree b (tree p)") (simp_all add: descendants_def remove_el_def)
  show "chain b (tree (remove_el r p)) = chain b (tree p)" using chain_tree_remove [OF assms] by (simp add: remove_el_def)
qed

lemma descendant_not_above: "wf_page p \<Longrightarrow> x \<in> set (descendants p b) \<Longrightarrow> x \<notin> set (chain b (tree p))"
  using below_not_above by (cases "subtree b (tree p)") (auto simp: descendants_def wf_page_def)

section \<open>Pages that differ in some classes only\<close>

text \<open>A selector that does not name the classes in which two pages differ finds the same elements in both.\<close>

fun sel_classes :: "simple_sel \<Rightarrow> string set" where
  "sel_classes (SelClass c) = {c}"
| "sel_classes (SelNot s) = sel_classes s"
| "sel_classes _ = {}"

definition free_of :: "string set \<Rightarrow> selector \<Rightarrow> bool" where
  "free_of C sel \<longleftrightarrow> (\<forall>cx \<in> set sel. \<forall>cs \<in> set cx. \<forall>s \<in> set cs. sel_classes s \<inter> C = {})"

definition same_but :: "string set \<Rightarrow> page \<Rightarrow> page \<Rightarrow> bool" where
  "same_but C p q \<longleftrightarrow> tree q = tree p \<and> (\<forall>x. tagName (nodes q x) = tagName (nodes p x))
     \<and> (\<forall>x a. getAttribute q x a = getAttribute p x a) \<and> (\<forall>x c. c \<notin> C \<longrightarrow> has_class q x c = has_class p x c)"

lemma same_but_refl [simp]: "same_but C p p" by (simp add: same_but_def)

lemma same_but_trans: "same_but C p q \<Longrightarrow> same_but C q r \<Longrightarrow> same_but C p r"
  by (simp add: same_but_def)

lemma same_but_class: "c \<in> C \<Longrightarrow> same_but C p (add_class e c p)" "c \<in> C \<Longrightarrow> same_but C p (remove_class e c p)"
  by (auto simp: same_but_def dom_simps)

lemma match_simple_same: "same_but C p q \<Longrightarrow> sel_classes s \<inter> C = {} \<Longrightarrow> match_simple q rt x s = match_simple p rt x s"
  by (induction s) (auto simp: same_but_def)

lemma compound_same:
  "same_but C p q \<Longrightarrow> \<forall>s \<in> set cs. sel_classes s \<inter> C = {} \<Longrightarrow> list_all (match_simple q rt x) cs = list_all (match_simple p rt x) cs"
  by (induction cs) (simp_all add: match_simple_same)

lemma match_path_same:
  "same_but C p q \<Longrightarrow> \<forall>cs \<in> set cx. \<forall>s \<in> set cs. sel_classes s \<inter> C = {} \<Longrightarrow> match_path q rt cx path = match_path p rt cx path"
  by (induction p rt cx path rule: match_path.induct) (auto simp: compound_same)

lemma match_complex_same:
  assumes "same_but C p q" "\<forall>cs \<in> set cx. \<forall>s \<in> set cs. sel_classes s \<inter> C = {}"
  shows "match_complex q rt cx path = match_complex p rt cx path"
proof (cases "cx = [] \<or> path = []")
  case False
  then obtain c cs e up where "cx = c # cs" "path = e # up" by (metis list.exhaust)
  with assms compound_same [OF assms(1), of c] match_path_same [OF assms(1), of cs] show ?thesis by simp
qed auto

lemma same_matches:
  assumes "same_but C p q" "free_of C sel"
  shows "matches_in q rt sel x = matches_in p rt sel x" "matches q sel x = matches p sel x"
proof -
  have "tree q = tree p" using assms(1) by (simp add: same_but_def)
  then show m: "matches_in q rt sel x = matches_in p rt sel x" for rt
    using assms(2) match_complex_same [OF assms(1)] unfolding matches_in_def free_of_def by (induction sel) auto
  then show "matches q sel x = matches p sel x" by (simp add: matches_def)
qed

lemma same_queries:
  assumes "same_but C p q" "free_of C sel"
  shows "querySelectorAll q rt sel = querySelectorAll p rt sel" "querySelector q rt sel = querySelector p rt sel" "closest q sel e = closest p sel e"
proof -
  have t: "tree q = tree p" using assms(1) by (simp add: same_but_def)
  show "querySelectorAll q rt sel = querySelectorAll p rt sel"
    unfolding querySelectorAll_def descendants_tree [OF t] by (rule filter_cong) (simp_all add: same_matches [OF assms])
  then show "querySelector q rt sel = querySelector p rt sel" by (simp add: querySelector_def)
  have "matches q sel = matches p sel" by (rule ext) (simp add: same_matches [OF assms])
  then show "closest q sel e = closest p sel e" by (simp add: closest_def t)
qed

section \<open>A page without some of its parts\<close>

fun prune :: "elem set \<Rightarrow> etree \<Rightarrow> etree" where
  "prune T (Elem x ks) = Elem x (map (prune T) (filter (\<lambda>k. eid k \<notin> T) ks))"

lemma eid_prune [simp]: "eid (prune T t) = eid t"
  by (cases t) simp

lemma remove_is_prune: "tree_remove e t = prune {e} t"
  by (induction t) simp

lemma prune_prune: "prune A (prune B t) = prune (A \<union> B) t"
proof (induction t)
  case (Elem x ks)
  have f: "filter (\<lambda>k. eid k \<notin> B \<and> eid k \<notin> A) ks = filter (\<lambda>k. eid k \<notin> A \<union> B) ks" by (rule filter_cong) auto
  have "map (prune A) (filter (\<lambda>k. eid k \<notin> A) (map (prune B) (filter (\<lambda>k. eid k \<notin> B) ks)))
      = map (\<lambda>k. prune A (prune B k)) (filter (\<lambda>k. eid k \<notin> B \<and> eid k \<notin> A) ks)"
    by (simp add: filter_map comp_def)
  also have "\<dots> = map (prune (A \<union> B)) (filter (\<lambda>k. eid k \<notin> A \<union> B) ks)" unfolding f using Elem.IH by simp
  finally show ?case by simp
qed

lemma prune_empty [simp]: "prune {} t = t"
  by (induction t) (simp add: map_idI)

lemma prune_subset: "set (preorder (prune T t)) \<subseteq> set (preorder t)"
  by (induction t) auto

lemma prune_mono: "A \<subseteq> B \<Longrightarrow> set (preorder (prune B t)) \<subseteq> set (preorder (prune A t))"
  using prune_subset [of B "prune A t"] by (simp add: prune_prune Un_absorb2)

lemma prune_append: "eid k \<in> T \<Longrightarrow> prune T (tree_append c k t) = prune T t"
proof (induction t)
  case (Elem x ks)
  have e: "eid (tree_append c k u) = eid u" for u by (cases u) simp
  from Elem have "map (prune T) (filter (\<lambda>u. eid u \<notin> T) (map (tree_append c k) ks)) = map (prune T) (filter (\<lambda>u. eid u \<notin> T) ks)"
    by (induction ks) (auto simp: e)
  with Elem.prems show ?case by simp
qed

lemma pruned_absent: "x \<in> T \<Longrightarrow> x \<noteq> eid t \<Longrightarrow> x \<notin> set (preorder (prune T t))"
proof (induction t)
  case (Elem y ks)
  then have "x \<notin> set (preorder (prune T k))" if "k \<in> set ks" "eid k \<notin> T" for k using that by blast
  with Elem.prems show ?case by auto
qed

text \<open>Taking children away from \<open>q\<close> moves only what is below \<open>q\<close>; adding a child moves nothing.\<close>

lemma chain_upd_kids_other:
  assumes "\<And>ks. set (f ks) \<subseteq> set ks"
  shows "q \<notin> set (chain e t) \<Longrightarrow> chain e (upd_kids q f t) = chain e t"
proof (induction t)
  case (Elem x ks)
  have gone: "chain e k = [] \<Longrightarrow> chain e (upd_kids q f k) = []" for k
    using preorder_upd_kids [of f q k] assms by (auto simp: chain_Nil_preorder)
  have hit: "first_chain e (map (upd_kids q f) ks') = first_chain e ks'" if "set ks' \<subseteq> set ks" "q \<notin> set (first_chain e ks')" for ks'
    using that
  proof (induction ks')
    case (Cons k ks')
    then show ?case using gone Elem.IH [of k] by (cases "chain e k = []") auto
  qed simp
  show ?case
  proof (cases "chain e (Elem x ks) = []")
    case True
    then show ?thesis using gone [OF True] by simp
  next
    case False
    then have "x \<in> set (chain e (Elem x ks))" using chain_root by fastforce
    with Elem.prems have "x \<noteq> q" by blast
    with Elem.prems hit [of ks] show ?thesis by (auto simp: Let_def split: if_splits)
  qed
qed

lemma chain_prepend: "e \<noteq> n \<Longrightarrow> chain e (upd_kids q (\<lambda>ks. Elem n [] # ks) t) = chain e t"
proof (induction t)
  case (Elem x ks)
  have "first_chain e (map (upd_kids q (\<lambda>ks. Elem n [] # ks)) ks') = first_chain e ks'" if "set ks' \<subseteq> set ks" for ks'
    using that Elem.IH [OF _ Elem.prems] by (induction ks') auto
  from this [of ks] Elem.prems show ?case by (auto simp: Let_def)
qed

end
