(* ===== verification/Js_Value.thy ===== *)
theory Js_Value
  imports Complex_Main Dom
begin

text \<open>
  JavaScript values as the configuration code of Bootstrap handles them, and the number parsers
  of the standard library the sources call.  Numbers are exact rationals: the sources only
  compare, add and halve pixel sizes, durations and indices, and the model does not round
  where the double arithmetic would; \<open>NaN\<close> and the infinities are values of their own.  Object values keep their keys in insertion order.
\<close>

section \<open>Values\<close>

datatype jsval =
    JUndef
  | JNull
  | JBool bool
  | JNum rat
  | JNaN
  | JInf bool
  | JStr string
  | JArr "jsval list"
  | JObj "(string \<times> jsval) list"
  | JFun nat
  | JElem elem

text \<open>Conversion to boolean.\<close>

fun js_truthy :: "jsval \<Rightarrow> bool" where
  "js_truthy JUndef = False"
| "js_truthy JNull = False"
| "js_truthy (JBool b) = b"
| "js_truthy (JNum n) = (n \<noteq> 0)"
| "js_truthy JNaN = False"
| "js_truthy (JStr s) = (s \<noteq> [])"
| "js_truthy _ = True"

text \<open>\<open>typeof x === 'object'\<close>: arrays, elements and \<open>null\<close> are objects.\<close>

fun typeof_object :: "jsval \<Rightarrow> bool" where
  "typeof_object JNull = True"
| "typeof_object (JArr _) = True"
| "typeof_object (JObj _) = True"
| "typeof_object (JElem _) = True"
| "typeof_object _ = False"

text \<open>The own enumerable entries that an object spread \<open>...x\<close> copies.\<close>

fun spread_entries :: "jsval \<Rightarrow> (string \<times> jsval) list" where
  "spread_entries (JObj kvs) = kvs"
| "spread_entries (JArr xs) = zip (map digits [0..<length xs]) xs"
| "spread_entries _ = []"

text \<open>\<open>{...a, ...b}\<close>: later keys win and keep the position of the first occurrence.\<close>

fun assign :: "(string \<times> jsval) list \<Rightarrow> (string \<times> jsval) list \<Rightarrow> (string \<times> jsval) list" where
  "assign acc [] = acc"
| "assign acc ((k, v) # kvs) = assign (AList.update k v acc) kvs"

definition js_get :: "(string \<times> jsval) list \<Rightarrow> string \<Rightarrow> jsval" where
  "js_get obj k = (case map_of obj k of None \<Rightarrow> JUndef | Some v \<Rightarrow> v)"

lemma map_of_assign: "map_of (assign acc kvs) = map_of acc ++ map_of (rev kvs)"
  by (induction kvs arbitrary: acc) (auto simp: update_conv' map_add_upd_left fun_eq_iff map_add_def split: option.splits)

section \<open>Numbers in strings\<close>

definition is_digit :: "char \<Rightarrow> bool" where
  "is_digit c = (48 \<le> (of_char c :: nat) \<and> (of_char c :: nat) \<le> 57)"

definition digits_value :: "string \<Rightarrow> nat" where
  "digits_value s = foldl (\<lambda>n c. 10 * n + (of_char c - 48)) 0 s"

definition read_sign :: "string \<Rightarrow> bool \<times> string" where
  "read_sign s = (case s of c # r \<Rightarrow> if c = CHR ''-'' then (True, r) else if c = CHR ''+'' then (False, r) else (False, s)
                  | [] \<Rightarrow> (False, []))"

text \<open>The exponent after a mantissa, when one is there.\<close>

definition read_exponent :: "string \<Rightarrow> rat" where
  "read_exponent s =
     (case s of
        c # r \<Rightarrow> if c = CHR ''e'' \<or> c = CHR ''E'' then
            (let (neg, r1) = read_sign r; ds = takeWhile is_digit r1
             in if ds = [] then 1 else if neg then 1 / 10 ^ digits_value ds else 10 ^ digits_value ds)
          else 1
      | [] \<Rightarrow> 1)"

text \<open>\<open>Number.parseFloat\<close>: the longest decimal prefix, \<open>None\<close> for \<open>NaN\<close>.\<close>

definition parseFloat :: "string \<Rightarrow> rat option" where
  "parseFloat s =
     (let (neg, s1) = read_sign (dropWhile is_space s);
          ip = takeWhile is_digit s1;
          r1 = dropWhile is_digit s1;
          (fp, r2) = (case r1 of c # r \<Rightarrow> if c = CHR ''.'' then (takeWhile is_digit r, dropWhile is_digit r) else ([], r1)
                      | [] \<Rightarrow> ([], []))
      in if ip = [] \<and> fp = [] then None
         else (let m = of_nat (digits_value (ip @ fp)) / 10 ^ length fp * read_exponent r2
               in Some (if neg then - m else m)))"

text \<open>\<open>Number.parseInt(s, 10)\<close>.\<close>

definition parseInt :: "string \<Rightarrow> int option" where
  "parseInt s =
     (let (neg, s1) = read_sign (dropWhile is_space s); ds = takeWhile is_digit s1
      in if ds = [] then None else Some (if neg then - int (digits_value ds) else int (digits_value ds)))"

section \<open>Types\<close>

text \<open>\<open>isElement$1\<close>: an object with a \<open>nodeType\<close>; there is no jQuery wrapper among the values.\<close>

fun isElement :: "jsval \<Rightarrow> bool" where
  "isElement (JElem _) = True"
| "isElement _ = False"

fun toType :: "host \<Rightarrow> jsval \<Rightarrow> string" where
  "toType h JUndef = ''undefined''"
| "toType h JNull = ''null''"
| "toType h (JBool _) = ''boolean''"
| "toType h (JNum _) = ''number''"
| "toType h JNaN = ''number''"
| "toType h (JInf _) = ''number''"
| "toType h (JStr _) = ''string''"
| "toType h (JArr _) = ''array''"
| "toType h (JObj _) = ''object''"
| "toType h (JFun _) = ''function''"
| "toType h (JElem e) = interface_name h e"

text \<open>
  The expected types of a component are patterns such as \<open>(number|boolean)\<close>: an alternation of
  words, tested without anchors.
\<close>

definition alternatives :: "string \<Rightarrow> string list" where
  "alternatives pat = split_on (CHR ''|'') (filter (\<lambda>c. c \<noteq> CHR ''('' \<and> c \<noteq> CHR '')'') pat)"

definition type_test :: "string \<Rightarrow> string \<Rightarrow> bool" where
  "type_test pat t = list_ex (\<lambda>a. str_includes t a) (alternatives pat)"

end
