(* ===== verification/Bs_Util.thy ===== *)
theory Bs_Util
  imports Js_Value
begin

text \<open>
  Bootstrap's \<open>util/index.js\<close> in \<open>bootstrap.bundle.js\<close>: selector escaping, unique ids,
  transition timing, visibility tests, deferred initialisation, the guard that runs a callback
  after a CSS transition, and the choice of the next active element of a list.
\<close>

section \<open>Selectors and ids\<close>

definition MAX_UID :: nat where
  "MAX_UID = 1000000"

definition MILLISECONDS_MULTIPLIER :: rat where
  "MILLISECONDS_MULTIPLIER = 1000"

text \<open>The characters an id may not contain in \<open>/#([^\s"#']+)/g\<close>.\<close>

definition id_char :: "char \<Rightarrow> bool" where
  "id_char c = (\<not> is_space c \<and> c \<noteq> CHR 0x22 \<and> c \<noteq> CHR ''#'' \<and> c \<noteq> CHR 0x27)"

function escape_ids :: "(string \<Rightarrow> string) \<Rightarrow> string \<Rightarrow> string" where
  "escape_ids esc [] = []"
| "escape_ids esc (c # s) =
     (if c = CHR ''#'' \<and> takeWhile id_char s \<noteq> []
      then CHR ''#'' # esc (takeWhile id_char s) @ escape_ids esc (dropWhile id_char s)
      else c # escape_ids esc s)"
  by pat_completeness auto
termination
  by (relation "measure (\<lambda>(esc, s). length s)") (auto simp: le_imp_less_Suc length_dropWhile_le)

text \<open>\<open>css_escape h\<close> is the browser's \<open>CSS.escape\<close>, which every supported browser has.\<close>

definition parseSelector :: "host \<Rightarrow> string \<Rightarrow> string" where
  "parseSelector h sel = (if sel \<noteq> [] then escape_ids (css_escape h) sel else sel)"

text \<open>
  \<open>getUID\<close>: the loop appends a random number to the prefix until no element has the result as
  its id.  The draws of \<open>Math.floor(Math.random() * MAX_UID)\<close> are the list; running out of draws
  is \<open>None\<close>.
\<close>

fun getUID :: "nat list \<Rightarrow> string list \<Rightarrow> string \<Rightarrow> string option" where
  "getUID [] used pre = None"
| "getUID (r # rs) used pre =
     (let pre' = pre @ digits r in if pre' \<in> set used then getUID rs used pre' else Some pre')"

lemma digits_length_pos: "0 < length (digits n)"
  by simp

lemma getUID_fresh: "getUID rs used pre = Some u \<Longrightarrow> u \<notin> set used \<and> length pre < length u"
proof (induction rs used pre rule: getUID.induct)
  case (1 used pre)
  then show ?case by simp
next
  case (2 r rs used pre)
  show ?case
  proof (cases "pre @ digits r \<in> set used")
    case True
    with 2 have "u \<notin> set used \<and> length (pre @ digits r) < length u" by (simp add: Let_def)
    then show ?thesis by simp
  next
    case False
    with "2.prems" show ?thesis by (auto simp: Let_def)
  qed
qed

text \<open>Each failed draw uses up one id that is longer than the prefix tried before.\<close>

lemma getUID_terminates:
  "length (filter (\<lambda>u. length u > length pre) used) < length rs \<Longrightarrow> \<exists>u. getUID rs used pre = Some u"
proof (induction rs used pre rule: getUID.induct)
  case (1 used pre)
  then show ?case by simp
next
  case (2 r rs used pre)
  let ?pre = "pre @ digits r"
  show ?case
  proof (cases "?pre \<in> set used")
    case True
    have longer: "length pre < length ?pre" by simp
    have "length (filter (\<lambda>u. length u > length ?pre) used) < length (filter (\<lambda>u. length u > length pre) used)"
    proof -
      have "filter (\<lambda>u. length u > length ?pre) used
          = filter (\<lambda>u. length u > length ?pre) (filter (\<lambda>u. length u > length pre) used)"
        by (auto intro!: filter_cong)
      moreover have "?pre \<in> set (filter (\<lambda>u. length u > length pre) used)" using True longer by simp
      ultimately show ?thesis by (metis (mono_tags, lifting) length_filter_less less_irrefl)
    qed
    with "2.prems" have "length (filter (\<lambda>u. length u > length ?pre) used) < length rs" by simp
    with "2.IH" True show ?thesis by (simp add: Let_def)
  next
    case False
    then show ?thesis by (simp add: Let_def)
  qed
qed

text \<open>
  \<open>getUID\<close> returns, and returns an unused id.  However the random numbers fall, at most one
  more draw than there are ids in the document is needed, because the prefix grows in every round.
\<close>

theorem getUID_returns_fresh:
  assumes "length used < length rs"
  shows "\<exists>u. getUID rs used pre = Some u \<and> u \<notin> set used"
proof -
  have "length (filter (\<lambda>u. length u > length pre) used) < length rs"
    using assms length_filter_le [of "\<lambda>u. length u > length pre" used] by linarith
  then obtain u where "getUID rs used pre = Some u" using getUID_terminates by blast
  with getUID_fresh show ?thesis by blast
qed

theorem getUID_returns_fresh_witness:
  "\<exists>u. getUID [4, 5] [''tooltip4''] ''tooltip'' = Some u \<and> u \<notin> set [''tooltip4'']"
  by (rule getUID_returns_fresh) simp

section \<open>Transition times\<close>

text \<open>
  Computed \<open>transition-duration\<close> and \<open>transition-delay\<close> of the element, \<open>None\<close> for no element.
  The result \<open>None\<close> is \<open>NaN\<close>.
\<close>

definition falsy_number :: "rat option \<Rightarrow> bool" where
  "falsy_number v = (v = None \<or> v = Some 0)"

definition nan_add :: "rat option \<Rightarrow> rat option \<Rightarrow> rat option" where
  "nan_add a b = (case a of None \<Rightarrow> None | Some x \<Rightarrow> (case b of None \<Rightarrow> None | Some y \<Rightarrow> Some (x + y)))"

definition getTransitionDurationFromElement :: "(string \<times> string) option \<Rightarrow> rat option" where
  "getTransitionDurationFromElement element =
     (case element of
        None \<Rightarrow> Some 0
      | Some (transitionDuration, transitionDelay) \<Rightarrow>
          (let floatTransitionDuration = parseFloat transitionDuration;
               floatTransitionDelay = parseFloat transitionDelay
           in if falsy_number floatTransitionDuration \<and> falsy_number floatTransitionDelay then Some 0
              else map_option (\<lambda>d. d * MILLISECONDS_MULTIPLIER)
                 (nan_add (parseFloat (hd (split_on (CHR '','') transitionDuration)))
                          (parseFloat (hd (split_on (CHR '','') transitionDelay))))))"

section \<open>Tests on elements\<close>

text \<open>\<open>details:not([open])\<close> and \<open>summary\<close>.\<close>

definition closed_details_sel :: selector where
  "closed_details_sel = [[[SelTag ''details'', SelNot (SelHasAttr ''open'')]]]"

definition summary_sel :: selector where
  "summary_sel = [[[SelTag ''summary'']]]"

definition isVisible :: "host \<Rightarrow> page \<Rightarrow> jsval \<Rightarrow> bool" where
  "isVisible h p object =
     (case object of
        JElem element \<Rightarrow>
          if client_rects h element = 0 then False
          else (let elementIsVisible = (visibility h element = ''visible'')
            in (case closest p closed_details_sel element of
                  None \<Rightarrow> elementIsVisible
                | Some closedDetails \<Rightarrow>
                    if closedDetails \<noteq> element then
                      (case closest p summary_sel element of
                         None \<Rightarrow> False
                       | Some summary \<Rightarrow>
                           if parentNode p summary \<noteq> Some closedDetails then False else elementIsVisible)
                    else elementIsVisible))
      | _ \<Rightarrow> False)"

text \<open>
  \<open>getElement\<close>: an element stands for itself, a selector for its first match below the document
  element; a selector the browser cannot parse throws, which is the outer \<open>None\<close>.
\<close>

definition getElement :: "host \<Rightarrow> page \<Rightarrow> jsval \<Rightarrow> elem option option" where
  "getElement h p object =
     (case object of
        JElem e \<Rightarrow> Some (Some e)
      | JStr s \<Rightarrow> if s \<noteq> [] then
            (case parse_sel h (parseSelector h s) of
               None \<Rightarrow> None
             | Some sel \<Rightarrow> Some (first_of (filter (matches p sel) (preorder (tree p)))))
          else Some None
      | _ \<Rightarrow> Some None)"

definition isDisabled :: "host \<Rightarrow> page \<Rightarrow> elem option \<Rightarrow> bool" where
  "isDisabled h p el =
     (case el of
        None \<Rightarrow> True
      | Some element \<Rightarrow>
          if has_class p element ''disabled'' then True
          else (case disabled_prop h element of
                  Some b \<Rightarrow> b
                | None \<Rightarrow> (case getAttribute p element ''disabled'' of None \<Rightarrow> False | Some v \<Rightarrow> v \<noteq> ''false'')))"

text \<open>
  \<open>findShadowRoot\<close>: the argument lists the node and its parents, each marked when it is a shadow
  root; \<open>rootNode\<close> is the answer of \<open>getRootNode\<close> where the browser has it.
\<close>

fun findShadowRoot :: "bool \<Rightarrow> (elem \<times> bool) option \<Rightarrow> (elem \<times> bool) list \<Rightarrow> elem option" where
  "findShadowRoot attachShadow (Some (r, isShadow)) ns =
     (if \<not> attachShadow then None else if isShadow then Some r else None)"
| "findShadowRoot attachShadow None [] = None"
| "findShadowRoot attachShadow None ((n, isShadow) # parents) =
     (if \<not> attachShadow then None else if isShadow then Some n
      else if parents = [] then None else findShadowRoot attachShadow None parents)"

section \<open>Callbacks\<close>

definition execute :: "jsval \<Rightarrow> (nat \<Rightarrow> 'a) \<Rightarrow> 'a \<Rightarrow> 'a" where
  "execute possibleCallback call defaultValue =
     (case possibleCallback of JFun f \<Rightarrow> call f | _ \<Rightarrow> defaultValue)"

text \<open>
  \<open>onDOMContentLoaded\<close>: while the document loads, callbacks queue up behind one listener;
  afterwards they run at once.  \<open>ran\<close> is the order in which callbacks ran.
\<close>

record loader =
  loading :: bool
  DOMContentLoadedCallbacks :: "nat list"
  load_listeners :: nat
  ran :: "nat list"

definition onDOMContentLoaded :: "nat \<Rightarrow> loader \<Rightarrow> loader" where
  "onDOMContentLoaded callback l =
     (if loading l then
        (let l1 = (if DOMContentLoadedCallbacks l = [] then l\<lparr>load_listeners := Suc (load_listeners l)\<rparr> else l)
         in l1\<lparr>DOMContentLoadedCallbacks := DOMContentLoadedCallbacks l1 @ [callback]\<rparr>)
      else l\<lparr>ran := ran l @ [callback]\<rparr>)"

text \<open>The event fires once; every registered listener runs the whole queue.\<close>

definition document_loaded :: "loader \<Rightarrow> loader" where
  "document_loaded l =
     l\<lparr>loading := False, ran := ran l @ concat (replicate (load_listeners l) (DOMContentLoadedCallbacks l))\<rparr>"

definition fresh_loader :: loader where
  "fresh_loader = \<lparr>loading = True, DOMContentLoadedCallbacks = [], load_listeners = 0, ran = []\<rparr>"

lemma foldl_loading:
  "loading l \<Longrightarrow> load_listeners l = (if DOMContentLoadedCallbacks l = [] then 0 else 1) \<Longrightarrow>
   (let m = foldl (\<lambda>l c. onDOMContentLoaded c l) l cs in loading m \<and> ran m = ran l
      \<and> DOMContentLoadedCallbacks m = DOMContentLoadedCallbacks l @ cs
      \<and> load_listeners m = (if DOMContentLoadedCallbacks l @ cs = [] then 0 else 1))"
  by (induction cs arbitrary: l) (auto simp: onDOMContentLoaded_def Let_def)

lemma foldl_loaded:
  "\<not> loading l \<Longrightarrow> ran (foldl (\<lambda>l c. onDOMContentLoaded c l) l cs) = ran l @ cs"
  by (induction cs arbitrary: l) (auto simp: onDOMContentLoaded_def)

text \<open>
  Every plugin initialiser runs exactly once and in registration order, whether it was
  registered before or after the document finished loading.
\<close>

theorem initialisers_run_once_in_order:
  "ran (foldl (\<lambda>l c. onDOMContentLoaded c l)
     (document_loaded (foldl (\<lambda>l c. onDOMContentLoaded c l) fresh_loader early)) late) = early @ late"
proof -
  let ?m = "foldl (\<lambda>l c. onDOMContentLoaded c l) fresh_loader early"
  have m: "ran ?m = []" "DOMContentLoadedCallbacks ?m = early"
      "load_listeners ?m = (if early = [] then 0 else 1)"
    using foldl_loading [of fresh_loader early] by (simp_all add: fresh_loader_def Let_def)
  then have "ran (document_loaded ?m) = early" "\<not> loading (document_loaded ?m)"
    by (auto simp: document_loaded_def)
  then show ?thesis by (simp add: foldl_loaded)
qed

text \<open>\<open>defineJQueryPlugin\<close> on \<open>$.fn\<close>, and the \<open>noConflict\<close> it installs.\<close>

definition defineJQueryPlugin :: "string \<Rightarrow> nat \<Rightarrow> (string \<rightharpoonup> nat) option \<Rightarrow> (string \<rightharpoonup> nat) option" where
  "defineJQueryPlugin name plugin fn = map_option (\<lambda>f. f(name \<mapsto> plugin)) fn"

definition noConflict :: "string \<Rightarrow> (string \<rightharpoonup> nat) \<Rightarrow> (string \<rightharpoonup> nat) \<Rightarrow> (string \<rightharpoonup> nat)" where
  "noConflict name before fn = fn(name := before name)"

section \<open>Running a callback after a transition\<close>

text \<open>
  \<open>executeAfterTransition\<close> keeps a \<open>transitionend\<close> listener on the element, the flag \<open>called\<close>, and
  a timer that dispatches the event itself when none came.  A dispatched \<open>transitionend\<close> reaches
  every listener registered on its target; listeners on other elements see a different target
  and return.  \<open>executed\<close> is the sequence of callbacks that ran.
\<close>

record 'cb waiting =
  callback :: 'cb
  transitionElement :: elem
  called :: bool
  listening :: bool

record 'cb transitions =
  waits :: "'cb waiting list"
  executed :: "'cb list"

definition executeAfterTransition :: "'cb \<Rightarrow> elem \<Rightarrow> bool \<Rightarrow> 'cb transitions \<Rightarrow> 'cb transitions" where
  "executeAfterTransition cb element waitForTransition ts =
     (if \<not> waitForTransition then ts\<lparr>executed := executed ts @ [cb]\<rparr>
      else ts\<lparr>waits := waits ts @ [\<lparr>callback = cb, transitionElement = element, called = False, listening = True\<rparr>]\<rparr>)"

definition transition_end :: "elem \<Rightarrow> 'cb transitions \<Rightarrow> 'cb transitions" where
  "transition_end target ts =
     \<lparr>waits = map (\<lambda>w. if listening w \<and> transitionElement w = target then w\<lparr>called := True, listening := False\<rparr> else w) (waits ts),
      executed = executed ts @ map callback (filter (\<lambda>w. listening w \<and> transitionElement w = target) (waits ts))\<rparr>"

text \<open>The timer of the n-th wait; \<open>triggerTransitionEnd\<close> is the dispatch.\<close>

definition transition_timer :: "nat \<Rightarrow> 'cb transitions \<Rightarrow> 'cb transitions" where
  "transition_timer n ts =
     (if n < length (waits ts) \<and> \<not> called (waits ts ! n) then transition_end (transitionElement (waits ts ! n)) ts else ts)"

datatype 'cb trans_event = Queue 'cb elem bool | TransitionEnd elem | Timer nat

fun trans_step :: "'cb transitions \<Rightarrow> 'cb trans_event \<Rightarrow> 'cb transitions" where
  "trans_step ts (Queue cb e wait) = executeAfterTransition cb e wait ts"
| "trans_step ts (TransitionEnd e) = transition_end e ts"
| "trans_step ts (Timer n) = transition_timer n ts"

definition no_transitions :: "'cb transitions" where
  "no_transitions = \<lparr>waits = [], executed = []\<rparr>"

definition trans_run :: "'cb trans_event list \<Rightarrow> 'cb transitions" where
  "trans_run evs = foldl trans_step no_transitions evs"

definition queued :: "'cb trans_event list \<Rightarrow> 'cb list" where
  "queued evs = concat (map (\<lambda>ev. case ev of Queue cb _ _ \<Rightarrow> [cb] | _ \<Rightarrow> []) evs)"

definition outstanding :: "'cb transitions \<Rightarrow> 'cb list" where
  "outstanding ts = map callback (filter listening (waits ts))"

lemma count_map_filter_split:
  "count_list (map f (filter P xs)) y = count_list (map f (filter (\<lambda>x. P x \<and> Q x) xs)) y
     + count_list (map f (filter (\<lambda>x. P x \<and> \<not> Q x) xs)) y"
  by (induction xs) auto

lemma outstanding_transition_end:
  "outstanding (transition_end e ts) = map callback (filter (\<lambda>w. listening w \<and> transitionElement w \<noteq> e) (waits ts))"
proof -
  have "map callback (filter listening (map (\<lambda>w. if listening w \<and> transitionElement w = e then w\<lparr>called := True, listening := False\<rparr> else w) ws))
      = map callback (filter (\<lambda>w. listening w \<and> transitionElement w \<noteq> e) ws)" for ws :: "'a waiting list"
    by (induction ws) auto
  then show ?thesis by (simp add: outstanding_def transition_end_def)
qed

lemma transition_end_conserves:
  "count_list (executed (transition_end e ts)) cb + count_list (outstanding (transition_end e ts)) cb
     = count_list (executed ts) cb + count_list (outstanding ts) cb"
  using count_map_filter_split [of callback listening "waits ts" cb "\<lambda>w. transitionElement w = e"]
  by (simp add: outstanding_transition_end) (simp add: outstanding_def transition_end_def)

lemma trans_step_conserves:
  "count_list (executed (trans_step ts ev)) cb + count_list (outstanding (trans_step ts ev)) cb
     = count_list (executed ts) cb + count_list (outstanding ts) cb + count_list (queued [ev]) cb"
proof (cases ev)
  case (Queue c e w)
  then show ?thesis by (simp add: executeAfterTransition_def outstanding_def queued_def)
next
  case (TransitionEnd e)
  then show ?thesis by (simp add: transition_end_conserves queued_def)
next
  case (Timer n)
  then show ?thesis by (simp add: transition_timer_def transition_end_conserves queued_def)
qed

lemma queued_append: "queued (xs @ ys) = queued xs @ queued ys"
  by (simp add: queued_def)

lemma trans_run_conserves:
  "count_list (executed (trans_run evs)) cb + count_list (outstanding (trans_run evs)) cb = count_list (queued evs) cb"
proof (induction evs rule: rev_induct)
  case Nil
  then show ?case by (simp add: trans_run_def no_transitions_def outstanding_def queued_def)
next
  case (snoc ev evs)
  then show ?case using trans_step_conserves [of "trans_run evs" ev cb]
    by (simp add: trans_run_def queued_append)
qed

text \<open>A wait whose timer has fired listens no more.\<close>

definition done_flag :: "'cb transitions \<Rightarrow> bool" where
  "done_flag ts = (\<forall>w \<in> set (waits ts). called w = (\<not> listening w))"

lemma done_flag_end: "done_flag ts \<Longrightarrow> done_flag (transition_end e ts)"
  unfolding done_flag_def transition_end_def by (simp add: ball_Un)

lemma done_flag_step: "done_flag ts \<Longrightarrow> done_flag (trans_step ts ev)"
proof (cases ev)
  case (Queue c e w)
  assume "done_flag ts"
  with Queue show ?thesis by (cases w) (simp_all add: executeAfterTransition_def done_flag_def)
qed (simp_all add: transition_timer_def done_flag_end)

definition settled :: "nat \<Rightarrow> 'cb transitions \<Rightarrow> bool" where
  "settled n ts = (n < length (waits ts) \<and> \<not> listening (waits ts ! n))"

lemma settled_step: "settled n ts \<Longrightarrow> settled n (trans_step ts ev)"
  by (cases ev) (auto simp: settled_def executeAfterTransition_def transition_timer_def transition_end_def nth_append)

lemma settled_timer: "done_flag ts \<Longrightarrow> n < length (waits ts) \<Longrightarrow> settled n (transition_timer n ts)"
  by (auto simp: settled_def transition_timer_def transition_end_def done_flag_def)

lemma settled_foldl: "settled n ts \<Longrightarrow> settled n (foldl trans_step ts evs)"
  by (induction evs arbitrary: ts) (auto intro: settled_step)

lemma length_waits_step: "length (waits ts) \<le> length (waits (trans_step ts ev))"
  by (cases ev) (auto simp: executeAfterTransition_def transition_timer_def transition_end_def)

lemma timers_settle:
  "done_flag ts \<Longrightarrow> Timer n \<in> set evs \<Longrightarrow> n < length (waits ts) \<Longrightarrow> settled n (foldl trans_step ts evs)"
proof (induction evs arbitrary: ts)
  case Nil
  then show ?case by simp
next
  case (Cons ev evs)
  show ?case
  proof (cases "ev = Timer n")
    case True
    with Cons.prems show ?thesis by (simp add: settled_timer settled_foldl)
  next
    case False
    with Cons.prems have "Timer n \<in> set evs" by auto
    with Cons show ?thesis
      using done_flag_step [of ts ev] length_waits_step [of ts ev] by (simp add: order.strict_trans2)
  qed
qed

lemma length_waits_quiet:
  "queued evs = [] \<Longrightarrow> length (waits (foldl trans_step ts evs)) = length (waits ts)"
proof (induction evs arbitrary: ts)
  case (Cons ev evs)
  from Cons.prems have "queued evs = []" "queued [ev] = []"
    using queued_append [of "[ev]" evs] by auto
  moreover from this(2) have "length (waits (trans_step ts ev)) = length (waits ts)"
    by (cases ev) (auto simp: queued_def transition_timer_def transition_end_def)
  ultimately show ?case using Cons.IH by simp
qed simp

lemma done_flag_run: "done_flag (trans_run evs)"
  by (induction evs rule: rev_induct)
    (auto simp: trans_run_def no_transitions_def done_flag_def [of no_transitions, unfolded no_transitions_def] intro: done_flag_step)

text \<open>
  C7: a callback queued behind a transition runs exactly once.  Whatever \<open>transitionend\<close> events
  arrive and in whatever order they interleave with the emulation timers, once the timers of all
  waits have fired every callback has run as often as it was queued.
\<close>

theorem queued_callbacks_run_exactly_once:
  assumes "queued later = []"
    and "\<And>n. n < length (waits (trans_run evs)) \<Longrightarrow> Timer n \<in> set later"
  shows "count_list (executed (trans_run (evs @ later))) cb = count_list (queued evs) cb"
proof -
  let ?ts = "trans_run (evs @ later)"
  have e: "?ts = foldl trans_step (trans_run evs) later" by (simp add: trans_run_def)
  have "settled n ?ts" if "n < length (waits ?ts)" for n
    using that assms timers_settle [OF done_flag_run, of n later evs] by (simp add: e length_waits_quiet)
  then have "outstanding ?ts = []"
    by (auto simp: outstanding_def filter_empty_conv settled_def in_set_conv_nth)
  with trans_run_conserves [of "evs @ later" cb] assms(1) show ?thesis by (simp add: queued_append)
qed

theorem queued_callbacks_run_exactly_once_witness:
  "count_list (executed (trans_run ([Queue (7::nat) 2 True, Queue 8 2 True, TransitionEnd 2] @ [Timer 0, Timer 1]))) 8
     = count_list (queued [Queue (7::nat) 2 True, Queue 8 2 True, TransitionEnd 2]) 8"
proof (rule queued_callbacks_run_exactly_once)
  show "queued [Timer 0, Timer 1 :: nat trans_event] = []" by code_simp
  fix n
  assume "n < length (waits (trans_run [Queue (7::nat) 2 True, Queue 8 2 True, TransitionEnd 2]))"
  then have "n < 2"
    by (simp add: trans_run_def no_transitions_def executeAfterTransition_def transition_end_def)
  then show "Timer n \<in> set [Timer 0, Timer 1 :: nat trans_event]" by (auto simp: less_Suc_eq numeral_2_eq_2)
qed

text \<open>
  The components keep the waits as a list of element and callback: a \<open>transitionend\<close> at an
  element takes its callbacks off the list, in order.
\<close>

type_synonym 'cb pending = "(elem \<times> 'cb) list"

definition due :: "elem \<Rightarrow> 'cb pending \<Rightarrow> 'cb list" where
  "due e ps = map snd (filter (\<lambda>x. fst x = e) ps)"

definition not_due :: "elem \<Rightarrow> 'cb pending \<Rightarrow> 'cb pending" where
  "not_due e ps = filter (\<lambda>x. fst x \<noteq> e) ps"

lemma due_count: "count_list (due e ps) cb + count_list (map snd (not_due e ps)) cb = count_list (map snd ps) cb"
  by (induction ps) (auto simp: due_def not_due_def)

definition pending_of :: "'cb transitions \<Rightarrow> 'cb pending" where
  "pending_of ts = map (\<lambda>w. (transitionElement w, callback w)) (filter listening (waits ts))"

lemma pending_transition_end:
  "pending_of (transition_end e ts) = not_due e (pending_of ts)"
  "executed (transition_end e ts) = executed ts @ due e (pending_of ts)"
proof -
  have "map (\<lambda>w. (transitionElement w, callback w)) (filter listening
        (map (\<lambda>w. if listening w \<and> transitionElement w = e then w\<lparr>called := True, listening := False\<rparr> else w) ws))
      = not_due e (map (\<lambda>w. (transitionElement w, callback w)) (filter listening ws))"
    "map callback (filter (\<lambda>w. listening w \<and> transitionElement w = e) ws)
      = due e (map (\<lambda>w. (transitionElement w, callback w)) (filter listening ws))" for ws :: "'a waiting list"
    by (induction ws) (auto simp: not_due_def due_def)
  then show "pending_of (transition_end e ts) = not_due e (pending_of ts)"
      "executed (transition_end e ts) = executed ts @ due e (pending_of ts)"
    by (simp_all add: pending_of_def transition_end_def)
qed

lemma pending_queue: "pending_of (executeAfterTransition cb e True ts) = pending_of ts @ [(e, cb)]"
  by (simp add: pending_of_def executeAfterTransition_def)


section \<open>The next active element\<close>

definition getNextActiveElement :: "'a list \<Rightarrow> 'a \<Rightarrow> bool \<Rightarrow> bool \<Rightarrow> 'a option" where
  "getNextActiveElement xs activeElement shouldGetNext isCycleAllowed =
     (let listLength = int (length xs); index = indexOf xs activeElement
      in if index = -1 then
           (if \<not> shouldGetNext \<and> isCycleAllowed then at_index xs (listLength - 1) else at_index xs 0)
         else
           (let index1 = index + (if shouldGetNext then 1 else -1);
                index2 = (if isCycleAllowed then (index1 + listLength) mod listLength else index1)
            in at_index xs (max 0 (min index2 (listLength - 1)))))"

lemma getNextActiveElement_mem: "getNextActiveElement xs a s c = Some y \<Longrightarrow> y \<in> set xs"
  by (auto simp: getNextActiveElement_def Let_def split: if_splits dest: at_index_Some_mem)

lemma getNextActiveElement_some: "xs \<noteq> [] \<Longrightarrow> \<exists>y \<in> set xs. getNextActiveElement xs a s c = Some y"
proof -
  assume "xs \<noteq> []"
  then have "\<exists>y. getNextActiveElement xs a s c = Some y"
    by (auto simp: getNextActiveElement_def at_index_def Let_def)
  then show ?thesis using getNextActiveElement_mem by fast
qed

lemma at_index_clamped: "j < length xs \<Longrightarrow> at_index xs (max 0 (min (int j) (int (length xs) - 1))) = Some (xs ! j)"
  by (simp add: at_index_def)

lemma getNextActiveElement_next:
  assumes "distinct xs" "i < length xs"
  shows "getNextActiveElement xs (xs ! i) True True = Some (xs ! ((i + 1) mod length xs))"
proof -
  have "(int i + 1) mod int (length xs) = int ((i + 1) mod length xs)"
    by (simp add: zmod_int add.commute)
  moreover have "(i + 1) mod length xs < length xs" using assms(2) by (intro mod_less_divisor) linarith
  ultimately show ?thesis
    using at_index_clamped [of "(i + 1) mod length xs" xs]
    by (simp add: getNextActiveElement_def Let_def indexOf_nth [OF assms])
qed

lemma getNextActiveElement_prev:
  assumes "distinct xs" "i < length xs"
  shows "getNextActiveElement xs (xs ! i) False True = Some (xs ! ((i + length xs - 1) mod length xs))"
proof -
  have "int ((i + length xs - 1) mod length xs) = (int i - 1 + int (length xs)) mod int (length xs)"
    using assms(2) by (simp add: zmod_int of_nat_diff algebra_simps)
  then have "(int i - 1) mod int (length xs) = int ((i + length xs - 1) mod length xs)" by simp
  moreover have "(i + length xs - 1) mod length xs < length xs" using assms(2) by (intro mod_less_divisor) linarith
  ultimately show ?thesis
    using at_index_clamped [of "(i + length xs - 1) mod length xs" xs]
    by (simp add: getNextActiveElement_def Let_def indexOf_nth [OF assms])
qed

text \<open>Following the element chosen, again and again.\<close>

text \<open>On a list that is not empty there is always an element to go to.\<close>

lemma next_active_Some:
  assumes "xs \<noteq> []"
  shows "\<exists>x \<in> set xs. getNextActiveElement xs a n c = Some x"
proof -
  have at: "\<exists>x \<in> set xs. at_index xs i = Some x" if "0 \<le> i" "i < int (length xs)" for i
    using that by (simp add: at_index_def nth_mem)
  have "0 < length xs" using assms by simp
  then show ?thesis unfolding getNextActiveElement_def Let_def by (auto intro: at)
qed

fun follow :: "nat \<Rightarrow> 'a list \<Rightarrow> bool \<Rightarrow> bool \<Rightarrow> 'a \<Rightarrow> 'a option" where
  "follow 0 xs s c a = Some a"
| "follow (Suc k) xs s c a = (case follow k xs s c a of None \<Rightarrow> None | Some b \<Rightarrow> getNextActiveElement xs b s c)"

lemma prev_next_index: "i < n \<Longrightarrow> ((i + 1) mod n + n - 1) mod n = (i::nat)"
  by (cases "i + 1 = n") auto

text \<open>
  Cycling navigation goes round the whole list.  Taking "next" k times from the i-th element
  reaches element \<open>(i + k) mod n\<close>, so every element is visited and a full turn comes back; and
  "previous" undoes "next".
\<close>

theorem getNextActiveElement_cycles:
  assumes "distinct xs" "i < length xs"
  shows "follow k xs True True (xs ! i) = Some (xs ! ((i + k) mod length xs))
    \<and> Option.bind (getNextActiveElement xs (xs ! i) True True) (\<lambda>y. getNextActiveElement xs y False True) = Some (xs ! i)"
proof
  have pos: "0 < length xs" using assms(2) by linarith
  show "follow k xs True True (xs ! i) = Some (xs ! ((i + k) mod length xs))"
  proof (induction k)
    case 0
    then show ?case using assms by simp
  next
    case (Suc k)
    have "(i + k) mod length xs < length xs" using pos by (rule mod_less_divisor)
    from getNextActiveElement_next [OF assms(1) this] Suc show ?case by (simp add: mod_Suc_eq)
  qed
  have "(i + 1) mod length xs < length xs" using pos by (rule mod_less_divisor)
  from getNextActiveElement_prev [OF assms(1) this]
  show "Option.bind (getNextActiveElement xs (xs ! i) True True) (\<lambda>y. getNextActiveElement xs y False True) = Some (xs ! i)"
    using prev_next_index [OF assms(2)] by (simp add: getNextActiveElement_next [OF assms])
qed

theorem getNextActiveElement_cycles_witness:
  "follow 4 [''a'', ''b'', ''c''] True True ([''a'', ''b'', ''c''] ! 2) = Some ([''a'', ''b'', ''c''] ! ((2 + 4) mod length [''a'', ''b'', ''c'']))"
  using getNextActiveElement_cycles [of "[''a'', ''b'', ''c'']" 2 4] by simp

end
