(* ===== verification/Bs_Events.thy ===== *)
theory Bs_Events
  imports Bs_Util
begin

text \<open>
  Bootstrap's \<open>dom/event-handler.js\<close> in \<open>bootstrap.bundle.js\<close>: the registry of handlers per element
  and event type, the DOM listeners it installs, removal by handler, by event and by namespace,
  the dispatch of an event to the installed handlers, and \<open>trigger\<close>.  Functions are identities:
  \<open>Fn n\<close> is a function of the caller, \<open>Wrapped c n\<close> the n-th closure made by \<open>wrapFunction\<close>.
  Every call in the sources passes an element and a string, so those two guards are typing here.
\<close>

section \<open>Names, keys and parameters\<close>

datatype callable = Fn nat | Wrapped "callable option" nat

text \<open>The third argument of \<open>on\<close> and \<open>off\<close>: absent (or \<open>false\<close>), a selector, or a function.\<close>

datatype handler_arg = NoHandler | Selector string | Callable callable

record handler_fn =
  h_callable :: "callable option"
  delegationSelector :: "string option"
  oneOff :: bool

record ev_state =
  registry :: "elem \<Rightarrow> (string \<times> (string \<times> handler_fn) list) list"
  element_uid :: "elem \<Rightarrow> nat option"
  uidEvent :: nat
  listeners :: "elem \<Rightarrow> (string \<times> string \<times> bool) list"
  closures :: nat

definition no_events :: ev_state where
  "no_events = \<lparr>registry = (\<lambda>_. []), element_uid = (\<lambda>_. None), uidEvent = 1, listeners = (\<lambda>_. []), closures = 0\<rparr>"

definition customEvents :: "(string \<times> string) list" where
  "customEvents = [(''mouseenter'', ''mouseover''), (''mouseleave'', ''mouseout'')]"

definition nativeEvents :: "string list" where
  "nativeEvents = [''click'', ''dblclick'', ''mouseup'', ''mousedown'', ''contextmenu'', ''mousewheel'', ''DOMMouseScroll'',
     ''mouseover'', ''mouseout'', ''mousemove'', ''selectstart'', ''selectend'', ''keydown'', ''keypress'', ''keyup'',
     ''orientationchange'', ''touchstart'', ''touchmove'', ''touchend'', ''touchcancel'', ''pointerdown'', ''pointermove'',
     ''pointerup'', ''pointerleave'', ''pointercancel'', ''gesturestart'', ''gesturechange'', ''gestureend'', ''focus'',
     ''blur'', ''change'', ''reset'', ''select'', ''submit'', ''focusin'', ''focusout'', ''load'', ''unload'',
     ''beforeunload'', ''resize'', ''move'', ''DOMContentLoaded'', ''readystatechange'', ''error'', ''abort'', ''scroll'']"

text \<open>\<open>replace(stripNameRegex, '')\<close> keeps what precedes the first dot, \<open>replace(namespaceRegex, '')\<close> what follows it.\<close>

definition strip_name :: "string \<Rightarrow> string" where
  "strip_name ev = takeWhile (\<lambda>c. c \<noteq> CHR ''.'') ev"

definition event_namespace :: "string \<Rightarrow> string" where
  "event_namespace ev = drop 1 (dropWhile (\<lambda>c. c \<noteq> CHR ''.'') ev)"

text \<open>\<open>replace(stripUidRegex, '')\<close>.\<close>

definition strip_uid :: "string \<Rightarrow> string" where
  "strip_uid k =
     (let ds = takeWhile is_digit (rev k); r = dropWhile is_digit (rev k)
      in if ds \<noteq> [] \<and> take 2 r = ''::'' then rev (drop 2 r) else k)"

definition getTypeEvent :: "string \<Rightarrow> string" where
  "getTypeEvent ev =
     (let e = strip_name ev in (case map_of customEvents e of None \<Rightarrow> e | Some native \<Rightarrow> native))"

definition normalizeParameters ::
  "string \<Rightarrow> handler_arg \<Rightarrow> callable option \<Rightarrow> bool \<times> callable option \<times> string" where
  "normalizeParameters originalTypeEvent handler delegationFunction =
     (let isDelegated = (case handler of Selector _ \<Rightarrow> True | _ \<Rightarrow> False);
          fn = (case handler of Callable f \<Rightarrow> Some f | _ \<Rightarrow> delegationFunction);
          typeEvent = getTypeEvent originalTypeEvent
      in (isDelegated, fn, if typeEvent \<in> set nativeEvents then typeEvent else originalTypeEvent))"

definition selector_of :: "handler_arg \<Rightarrow> string option" where
  "selector_of handler = (case handler of Selector s \<Rightarrow> Some s | _ \<Rightarrow> None)"

text \<open>\<open>makeEventUid(callable, uid)\<close>: the key of a handler, from the global counter.\<close>

definition event_key :: "string \<Rightarrow> nat \<Rightarrow> string" where
  "event_key ns n = (if ns \<noteq> [] then ns @ ''::'' @ digits n else digits n)"

definition makeEventUid :: "string \<Rightarrow> ev_state \<Rightarrow> string \<times> ev_state" where
  "makeEventUid ns s = (event_key ns (uidEvent s), s\<lparr>uidEvent := Suc (uidEvent s)\<rparr>)"

text \<open>\<open>getElementEvents\<close>: the element gets its own number on first use.\<close>

definition getElementEvents :: "elem \<Rightarrow> ev_state \<Rightarrow> ev_state" where
  "getElementEvents element s =
     (case element_uid s element of
        Some _ \<Rightarrow> s
      | None \<Rightarrow> s\<lparr>element_uid := (element_uid s)(element \<mapsto> uidEvent s), uidEvent := Suc (uidEvent s)\<rparr>)"

section \<open>Adding and removing handlers\<close>

definition handlers_of :: "ev_state \<Rightarrow> elem \<Rightarrow> string \<Rightarrow> (string \<times> handler_fn) list" where
  "handlers_of s element typeEvent = (case map_of (registry s element) typeEvent of None \<Rightarrow> [] | Some hs \<Rightarrow> hs)"

definition set_handlers :: "elem \<Rightarrow> string \<Rightarrow> (string \<times> handler_fn) list \<Rightarrow> ev_state \<Rightarrow> ev_state" where
  "set_handlers element typeEvent hs s =
     s\<lparr>registry := (registry s)(element := AList.update typeEvent hs (registry s element))\<rparr>"

definition same_handler :: "callable option \<Rightarrow> string option \<Rightarrow> string \<times> handler_fn \<Rightarrow> bool" where
  "same_handler c sel kf = (h_callable (snd kf) = c \<and> delegationSelector (snd kf) = sel)"

definition findHandler :: "(string \<times> handler_fn) list \<Rightarrow> callable option \<Rightarrow> string option \<Rightarrow> (string \<times> handler_fn) option" where
  "findHandler hs c sel = find (same_handler c sel) hs"

definition addHandler :: "elem \<Rightarrow> string \<Rightarrow> handler_arg \<Rightarrow> callable option \<Rightarrow> bool \<Rightarrow> ev_state \<Rightarrow> ev_state" where
  "addHandler element originalTypeEvent handler delegationFunction one s =
     (let (isDelegated, c0, typeEvent) = normalizeParameters originalTypeEvent handler delegationFunction;
          (c, s1) = (if originalTypeEvent \<in> set (map fst customEvents)
                     then (Some (Wrapped c0 (closures s)), s\<lparr>closures := Suc (closures s)\<rparr>) else (c0, s));
          s2 = getElementEvents element s1;
          handlers = handlers_of s2 element typeEvent;
          sel = selector_of handler
      in (case findHandler handlers c sel of
            Some (k, previous) \<Rightarrow>
              set_handlers element typeEvent (AList.update k (previous\<lparr>oneOff := oneOff previous \<and> one\<rparr>) handlers) s2
          | None \<Rightarrow>
              (let (uid, s3) = makeEventUid (event_namespace originalTypeEvent) s2;
                   fn = \<lparr>h_callable = c, delegationSelector = sel, oneOff = one\<rparr>;
                   s4 = set_handlers element typeEvent (AList.update uid fn handlers) s3
               in s4\<lparr>listeners := (listeners s4)(element := listeners s4 element @ [(typeEvent, uid, isDelegated)])\<rparr>)))"

text \<open>\<open>removeEventListener(typeEvent, fn, Boolean(delegationSelector))\<close>.\<close>

definition capture_flag :: "string option \<Rightarrow> bool" where
  "capture_flag sel = (case sel of None \<Rightarrow> False | Some s \<Rightarrow> s \<noteq> [])"

definition removeHandler :: "elem \<Rightarrow> string \<Rightarrow> callable option \<Rightarrow> string option \<Rightarrow> ev_state \<Rightarrow> ev_state" where
  "removeHandler element typeEvent handler sel s =
     (case findHandler (handlers_of s element typeEvent) handler sel of
        None \<Rightarrow> s
      | Some (k, fn) \<Rightarrow>
          (let s1 = s\<lparr>listeners := (listeners s)(element :=
                 filter (\<lambda>l. l \<noteq> (typeEvent, k, capture_flag sel)) (listeners s element))\<rparr>
           in set_handlers element typeEvent (AList.delete k (handlers_of s element typeEvent)) s1))"

definition remove_entry :: "elem \<Rightarrow> string \<Rightarrow> ev_state \<Rightarrow> string \<times> handler_fn \<Rightarrow> ev_state" where
  "remove_entry element typeEvent s kf =
     removeHandler element typeEvent (h_callable (snd kf)) (delegationSelector (snd kf)) s"

definition removeNamespacedHandlers :: "elem \<Rightarrow> string \<Rightarrow> string \<Rightarrow> ev_state \<Rightarrow> ev_state" where
  "removeNamespacedHandlers element typeEvent namespace s =
     foldl (remove_entry element typeEvent) s
       (filter (\<lambda>kf. str_includes (fst kf) namespace) (handlers_of s element typeEvent))"

definition EventHandler_on :: "elem \<Rightarrow> string \<Rightarrow> handler_arg \<Rightarrow> callable option \<Rightarrow> ev_state \<Rightarrow> ev_state" where
  "EventHandler_on element event handler delegationFunction = addHandler element event handler delegationFunction False"

definition EventHandler_one :: "elem \<Rightarrow> string \<Rightarrow> handler_arg \<Rightarrow> callable option \<Rightarrow> ev_state \<Rightarrow> ev_state" where
  "EventHandler_one element event handler delegationFunction = addHandler element event handler delegationFunction True"

definition EventHandler_off :: "elem \<Rightarrow> string \<Rightarrow> handler_arg \<Rightarrow> callable option \<Rightarrow> ev_state \<Rightarrow> ev_state" where
  "EventHandler_off element originalTypeEvent handler delegationFunction s =
     (let (isDelegated, c, typeEvent) = normalizeParameters originalTypeEvent handler delegationFunction;
          inNamespace = (typeEvent \<noteq> originalTypeEvent);
          s1 = getElementEvents element s
      in if c \<noteq> None then
           (if handlers_of s1 element typeEvent = [] then s1
            else removeHandler element typeEvent c (selector_of handler) s1)
         else
           (let s2 = (if startsWith originalTypeEvent ''.''
                      then foldl (\<lambda>t elementEvent. removeNamespacedHandlers element elementEvent (drop 1 originalTypeEvent) t)
                             s1 (map fst (registry s1 element))
                      else s1)
            in foldl (remove_entry element typeEvent) s2
                 (filter (\<lambda>kf. \<not> inNamespace \<or> str_includes originalTypeEvent (strip_uid (fst kf)))
                    (handlers_of s2 element typeEvent))))"

section \<open>Dispatching an event to the installed handlers\<close>

record dom_event =
  ev_type :: string
  ev_target :: elem
  relatedTarget :: "elem option"

text \<open>
  What a handler calls: the caller's function with its \<open>this\<close>, which is also the event's
  \<open>delegateTarget\<close>.  A closure of \<open>wrapFunction\<close> calls through only when the pointer really
  entered or left the target.
\<close>

fun call_callable :: "page \<Rightarrow> dom_event \<Rightarrow> elem \<Rightarrow> callable option \<Rightarrow> (nat \<times> elem) list" where
  "call_callable p ev target None = []"
| "call_callable p ev target (Some (Fn n)) = [(n, target)]"
| "call_callable p ev target (Some (Wrapped c _)) =
     (case relatedTarget ev of
        None \<Rightarrow> call_callable p ev target c
      | Some r \<Rightarrow> if r \<noteq> target \<and> \<not> contains p target r then call_callable p ev target c else [])"

definition bootstrapHandler :: "page \<Rightarrow> dom_event \<Rightarrow> elem \<Rightarrow> handler_fn \<Rightarrow> ev_state \<Rightarrow> (nat \<times> elem) list \<times> ev_state" where
  "bootstrapHandler p ev element fn s =
     (let s1 = (if oneOff fn then
                  (case h_callable fn of
                     None \<Rightarrow> EventHandler_off element (ev_type ev) NoHandler None s
                   | Some f \<Rightarrow> EventHandler_off element (ev_type ev) (Callable f) None s)
                else s)
      in (call_callable p ev element (h_callable fn), s1))"

text \<open>The first element on the way from the target up to the listening element that the selector finds.\<close>

definition delegate_target :: "page \<Rightarrow> elem \<Rightarrow> selector \<Rightarrow> elem \<Rightarrow> elem option" where
  "delegate_target p element sel target =
     (let domElements = querySelectorAll p element sel
      in first_of (filter (\<lambda>x. x \<in> set domElements) (takeWhile (\<lambda>x. x \<noteq> element) (chain target (tree p)))))"

definition bootstrapDelegationHandler ::
  "host \<Rightarrow> page \<Rightarrow> dom_event \<Rightarrow> elem \<Rightarrow> string \<Rightarrow> handler_fn \<Rightarrow> ev_state \<Rightarrow> (nat \<times> elem) list \<times> ev_state" where
  "bootstrapDelegationHandler h p ev element selector fn s =
     (case parse_sel h selector of
        None \<Rightarrow> ([], s)
      | Some sel \<Rightarrow>
          (case delegate_target p element sel (ev_target ev) of
             None \<Rightarrow> ([], s)
           | Some target \<Rightarrow>
               (call_callable p ev target (h_callable fn),
                if oneOff fn then EventHandler_off element (ev_type ev) (Selector selector) (h_callable fn) s else s)))"

text \<open>One listener of the DOM runs: the registry still holds its function, found by its key.\<close>

definition run_listener ::
  "host \<Rightarrow> page \<Rightarrow> dom_event \<Rightarrow> elem \<Rightarrow> string \<Rightarrow> string \<Rightarrow> ev_state \<Rightarrow> (nat \<times> elem) list \<times> ev_state" where
  "run_listener h p ev element typeEvent k s =
     (case map_of (handlers_of s element typeEvent) k of
        None \<Rightarrow> ([], s)
      | Some fn \<Rightarrow>
          (case delegationSelector fn of
             None \<Rightarrow> bootstrapHandler p ev element fn s
           | Some sel \<Rightarrow> bootstrapDelegationHandler h p ev element sel fn s))"

section \<open>Triggering an event\<close>

record triggered =
  t_bubbles :: bool
  defaultPrevented :: bool

definition trigger :: "host \<Rightarrow> elem \<Rightarrow> string \<Rightarrow> page \<Rightarrow> triggered \<times> page" where
  "trigger h element event p =
     (let typeEvent = getTypeEvent event;
          inNamespace = (event \<noteq> typeEvent);
          (bubbles, nativeDispatch, prevented) =
            (case jquery h of
               Some jq \<Rightarrow> if inNamespace then (let (stopped, immediate, prev) = jq element event in (\<not> stopped, \<not> immediate, prev))
                          else (True, True, False)
             | None \<Rightarrow> (True, True, False));
          p1 = (if nativeDispatch then p\<lparr>ev_log := ev_log p @ [(element, event)]\<rparr> else p)
      in (\<lparr>t_bubbles = bubbles, defaultPrevented = prevented \<or> nativeDispatch \<and> cancels h element event\<rparr>, p1))"

abbreviation prevented_by :: "host \<Rightarrow> elem \<Rightarrow> string \<Rightarrow> page \<Rightarrow> bool" where
  "prevented_by h element event p \<equiv> defaultPrevented (fst (trigger h element event p))"

abbreviation triggering :: "host \<Rightarrow> elem \<Rightarrow> string \<Rightarrow> page \<Rightarrow> page" where
  "triggering h element event p \<equiv> snd (trigger h element event p)"

lemma trigger_frame [dom_simps]:
  "tree (triggering h e ev p) = tree p" "nodes (triggering h e ev p) = nodes p"
  "focused (triggering h e ev p) = focused p"
  "has_class (triggering h e ev p) x c = has_class p x c"
  "getAttribute (triggering h e ev p) x a = getAttribute p x a"
  "getStyle (triggering h e ev p) x k = getStyle p x k"
  by (auto simp: trigger_def Let_def has_class_def getAttribute_def getStyle_def split: option.splits prod.splits)

section \<open>Keys\<close>

lemma of_char_digit: "n < 10 \<Longrightarrow> (of_char (char_of (48 + n) :: char) :: nat) = 48 + n"
  by simp

lemma is_digit_digits: "c \<in> set (digits n) \<Longrightarrow> is_digit c"
proof (induction n rule: digits.induct)
  case (1 n)
  show ?case
  proof (cases "n < 10")
    case True
    with "1.prems" show ?thesis by (subst (asm) digits.simps) (simp add: is_digit_def)
  next
    case False
    with 1 show ?thesis by (subst (asm) (2) digits.simps) (auto simp: is_digit_def)
  qed
qed

lemma digits_value_snoc: "digits_value (s @ [c]) = 10 * digits_value s + (of_char c - 48)"
  by (simp add: digits_value_def)

lemma digits_value_digits [simp]: "digits_value (digits n) = n"
proof (induction n rule: digits.induct)
  case (1 n)
  show ?case
  proof (cases "n < 10")
    case True
    then show ?thesis by (subst digits.simps) (simp add: digits_value_def)
  next
    case False
    with 1 show ?thesis by (subst digits.simps) (simp add: digits_value_snoc)
  qed
qed

lemma event_key_suffix: "rev (takeWhile is_digit (rev (event_key ns n))) = digits n"
proof -
  have a: "takeWhile is_digit (rev (digits n)) = rev (digits n)"
    by (rule takeWhile_eq_all_conv [THEN iffD2]) (simp add: is_digit_digits)
  have "\<not> is_digit (CHR '':'')" by (simp add: is_digit_def)
  then have b: "takeWhile is_digit (rev (digits n) @ CHR '':'' # r) = rev (digits n)" for r
    by (subst takeWhile_append2) (simp_all add: is_digit_digits)
  show ?thesis by (simp add: event_key_def a b)
qed

lemma event_key_number: "event_key ns n = event_key ns' m \<Longrightarrow> n = m"
  by (metis event_key_suffix digits_value_digits)

section \<open>The invariant of the registry\<close>

definition h_ident :: "string \<times> handler_fn \<Rightarrow> callable option \<times> string option" where
  "h_ident kf = (h_callable (snd kf), delegationSelector (snd kf))"

definition handlers_ok :: "nat \<Rightarrow> (string \<times> handler_fn) list \<Rightarrow> bool" where
  "handlers_ok n hs = (distinct (map fst hs) \<and> distinct (map h_ident hs)
     \<and> (\<forall>kf \<in> set hs. (\<exists>ns m. m < n \<and> fst kf = event_key ns m) \<and> delegationSelector (snd kf) \<noteq> Some []))"

text \<open>Every DOM listener belongs to a registered handler and the other way round, in the right phase.\<close>

definition mirrored :: "ev_state \<Rightarrow> bool" where
  "mirrored s = (\<forall>e t k cap. (t, k, cap) \<in> set (listeners s e) \<longleftrightarrow>
     (\<exists>f. (k, f) \<in> set (handlers_of s e t) \<and> cap = (delegationSelector f \<noteq> None)))"

definition ev_inv :: "ev_state \<Rightarrow> bool" where
  "ev_inv s = ((\<forall>e t. handlers_ok (uidEvent s) (handlers_of s e t)) \<and> mirrored s)"

lemma handlers_of_set_handlers [simp]:
  "handlers_of (set_handlers e t hs s) e' t' = (if e' = e \<and> t' = t then hs else handlers_of s e' t')"
  by (auto simp: handlers_of_def set_handlers_def update_conv')

lemma set_handlers_frame [simp]:
  "listeners (set_handlers e t hs s) = listeners s" "uidEvent (set_handlers e t hs s) = uidEvent s"
  by (simp_all add: set_handlers_def)

lemma handlers_of_frame [simp]:
  "handlers_of (s\<lparr>listeners := l\<rparr>) e t = handlers_of s e t"
  "handlers_of (s\<lparr>uidEvent := n\<rparr>) e t = handlers_of s e t"
  "handlers_of (s\<lparr>closures := n\<rparr>) e t = handlers_of s e t"
  "handlers_of (s\<lparr>element_uid := u\<rparr>) e t = handlers_of s e t"
  by (simp_all add: handlers_of_def)

lemma handlers_of_getElementEvents [simp]: "handlers_of (getElementEvents x s) e t = handlers_of s e t"
  by (simp add: getElementEvents_def split: option.splits)

lemma getElementEvents_frame [simp]:
  "listeners (getElementEvents x s) = listeners s" "registry (getElementEvents x s) = registry s"
  "uidEvent s \<le> uidEvent (getElementEvents x s)"
  by (simp_all add: getElementEvents_def split: option.splits)

lemma handlers_ok_mono: "handlers_ok n hs \<Longrightarrow> n \<le> m \<Longrightarrow> handlers_ok m hs"
  unfolding handlers_ok_def by (meson order.strict_trans2)

lemma ev_inv_getElementEvents: "ev_inv s \<Longrightarrow> ev_inv (getElementEvents x s)"
  unfolding ev_inv_def mirrored_def
  by (auto intro: handlers_ok_mono [OF _ getElementEvents_frame(3)])

lemma ev_inv_no_events: "ev_inv no_events"
  by (simp add: ev_inv_def handlers_ok_def mirrored_def no_events_def handlers_of_def)

subsection \<open>Adding\<close>

lemma find_Some_mem: "find P xs = Some x \<Longrightarrow> x \<in> set xs \<and> P x"
  by (auto simp: find_Some_iff)

lemma alist_update_existing:
  "distinct (map fst xs) \<Longrightarrow> (k, v) \<in> set xs \<Longrightarrow> AList.update k w xs = map (\<lambda>kv. if fst kv = k then (k, w) else kv) xs"
proof (induction xs)
  case (Cons x xs)
  show ?case
  proof (cases "fst x = k")
    case True
    with Cons.prems(1) have "fst kv \<noteq> k" if "kv \<in> set xs" for kv
      using that by (auto simp: rev_image_eqI)
    then have "map (\<lambda>kv. if fst kv = k then (k, w) else kv) xs = xs"
      by (intro map_idI) simp
    with True show ?thesis by (cases x) simp
  next
    case False
    with Cons show ?thesis by (cases x) auto
  qed
qed simp

lemma handlers_ok_update_existing:
  assumes ok: "handlers_ok n hs" and m: "(k, f) \<in> set hs"
    and same: "h_callable g = h_callable f" "delegationSelector g = delegationSelector f"
  shows "handlers_ok n (AList.update k g hs)"
    and "(\<exists>f'. (k', f') \<in> set (AList.update k g hs) \<and> Q (delegationSelector f'))
       \<longleftrightarrow> (\<exists>f'. (k', f') \<in> set hs \<and> Q (delegationSelector f'))"
proof -
  have d: "distinct (map fst hs)" using ok by (simp add: handlers_ok_def)
  define r where "r = (\<lambda>kv :: string \<times> handler_fn. if fst kv = k then (k, g) else kv)"
  have u: "AList.update k g hs = map r hs" unfolding r_def by (rule alist_update_existing [OF d m])
  have r: "fst (r kv) = fst kv" "delegationSelector (snd (r kv)) = delegationSelector (snd kv)"
      "h_ident (r kv) = h_ident kv" if "kv \<in> set hs" for kv
  proof -
    have "snd kv = f" if "fst kv = k" using that \<open>kv \<in> set hs\<close> m d by (metis eq_key_imp_eq_value prod.collapse)
    then show "fst (r kv) = fst kv" "delegationSelector (snd (r kv)) = delegationSelector (snd kv)" "h_ident (r kv) = h_ident kv"
      using same by (auto simp: r_def h_ident_def)
  qed
  have "map fst (map r hs) = map fst hs" "map h_ident (map r hs) = map h_ident hs"
    using r by simp_all
  with ok r show "handlers_ok n (AList.update k g hs)"
    unfolding u handlers_ok_def by (simp del: map_map)
  show "(\<exists>f'. (k', f') \<in> set (AList.update k g hs) \<and> Q (delegationSelector f'))
       \<longleftrightarrow> (\<exists>f'. (k', f') \<in> set hs \<and> Q (delegationSelector f'))"
  proof -
    have "(\<exists>f'. (k', f') \<in> X \<and> Q (delegationSelector f')) \<longleftrightarrow> (\<exists>x \<in> X. fst x = k' \<and> Q (delegationSelector (snd x)))"
      for X :: "(string \<times> handler_fn) set" by force
    then show ?thesis unfolding u list.set_map using r by simp
  qed
qed

lemma event_key_new: "handlers_ok n hs \<Longrightarrow> event_key ns n \<notin> fst ` set hs"
  unfolding handlers_ok_def by (metis (no_types, lifting) event_key_number imageE less_irrefl)

lemma update_new: "k \<notin> fst ` set xs \<Longrightarrow> AList.update k v xs = xs @ [(k, v)]"
  by (induction xs) auto

lemma handlers_ok_add:
  assumes "handlers_ok n hs" "findHandler hs c sel = None" "sel \<noteq> Some []"
  shows "handlers_ok (Suc n) (hs @ [(event_key ns n, \<lparr>h_callable = c, delegationSelector = sel, oneOff = b\<rparr>)])"
proof -
  have "h_ident kf \<noteq> (c, sel)" if "kf \<in> set hs" for kf
    using assms(2) that unfolding findHandler_def find_None_iff same_handler_def h_ident_def by (cases kf) auto
  then have "(c, sel) \<notin> h_ident ` set hs" by force
  moreover have "handlers_ok (Suc n) hs" using assms(1) by (rule handlers_ok_mono) simp
  ultimately show ?thesis
    using event_key_new [OF assms(1), of ns] assms(3) unfolding handlers_ok_def
    by (auto simp: h_ident_def)
qed

text \<open>The core of \<open>addHandler\<close>, after the parameters are normalised.\<close>

definition register :: "elem \<Rightarrow> string \<Rightarrow> string \<Rightarrow> bool \<Rightarrow> callable option \<Rightarrow> string option \<Rightarrow> bool \<Rightarrow> ev_state \<Rightarrow> ev_state" where
  "register e t ns isDelegated c sel one s =
     (case findHandler (handlers_of s e t) c sel of
        Some (k, f) \<Rightarrow> set_handlers e t (AList.update k (f\<lparr>oneOff := oneOff f \<and> one\<rparr>) (handlers_of s e t)) s
      | None \<Rightarrow>
          (let s4 = set_handlers e t (AList.update (event_key ns (uidEvent s)) \<lparr>h_callable = c, delegationSelector = sel, oneOff = one\<rparr>
                      (handlers_of s e t)) (s\<lparr>uidEvent := Suc (uidEvent s)\<rparr>)
           in s4\<lparr>listeners := (listeners s4)(e := listeners s4 e @ [(t, event_key ns (uidEvent s), isDelegated)])\<rparr>))"

lemma ev_inv_register:
  assumes inv: "ev_inv s" and sel: "sel \<noteq> Some []" "isDelegated = (sel \<noteq> None)"
  shows "ev_inv (register e t ns isDelegated c sel one s)"
proof (cases "findHandler (handlers_of s e t) c sel")
  case (Some kf)
  obtain k f where kf: "kf = (k, f)" by force
  let ?g = "f\<lparr>oneOff := oneOff f \<and> one\<rparr>"
  have m: "(k, f) \<in> set (handlers_of s e t)" using Some kf find_Some_mem unfolding findHandler_def by fast
  have ok: "handlers_ok (uidEvent s) (handlers_of s e t)" using inv by (simp add: ev_inv_def)
  note upd = handlers_ok_update_existing [OF ok m, of ?g]
  have mir: "mirrored s" using inv by (simp add: ev_inv_def)
  have "ev_inv (set_handlers e t (AList.update k ?g (handlers_of s e t)) s)"
    using inv upd(1) mir upd(2) [where Q = "\<lambda>d. cap = (d \<noteq> None)" for cap]
    unfolding ev_inv_def mirrored_def by simp
  then show ?thesis using Some kf by (simp add: register_def)
next
  case None
  let ?k = "event_key ns (uidEvent s)" and ?f = "\<lparr>h_callable = c, delegationSelector = sel, oneOff = one\<rparr>"
  have ok: "handlers_ok (uidEvent s) (handlers_of s e' t')" for e' t' using inv by (simp add: ev_inv_def)
  have upd: "AList.update ?k ?f (handlers_of s e t) = handlers_of s e t @ [(?k, ?f)]"
    by (rule update_new [OF event_key_new [OF ok]])
  have mir: "mirrored s" using inv by (simp add: ev_inv_def)
  let ?s = "register e t ns isDelegated c sel one s"
  have hs: "handlers_of ?s e' t' = (if e' = e \<and> t' = t then handlers_of s e t @ [(?k, ?f)] else handlers_of s e' t')" for e' t'
    using None upd by (simp add: register_def Let_def)
  have ls: "listeners ?s = (listeners s)(e := listeners s e @ [(t, ?k, isDelegated)])" "uidEvent ?s = Suc (uidEvent s)"
    using None by (simp_all add: register_def Let_def)
  have "handlers_ok (uidEvent ?s) (handlers_of ?s e' t')" for e' t'
    using handlers_ok_add [OF ok None sel(1)] handlers_ok_mono [OF ok, of "Suc (uidEvent s)"] by (simp add: hs ls)
  moreover have "mirrored ?s"
    using mir sel(2) unfolding mirrored_def hs ls by auto
  ultimately show ?thesis by (simp add: ev_inv_def)
qed

lemma addHandler_register:
  "addHandler e orig handler d one s =
     (let (isDelegated, c0, t) = normalizeParameters orig handler d
      in if orig \<in> set (map fst customEvents)
         then register e t (event_namespace orig) isDelegated (Some (Wrapped c0 (closures s))) (selector_of handler) one
                (getElementEvents e (s\<lparr>closures := Suc (closures s)\<rparr>))
         else register e t (event_namespace orig) isDelegated c0 (selector_of handler) one (getElementEvents e s))"
  by (auto simp: addHandler_def register_def makeEventUid_def Let_def split: prod.splits option.splits)

lemma ev_inv_closures: "ev_inv s \<Longrightarrow> ev_inv (s\<lparr>closures := n\<rparr>)"
  by (simp add: ev_inv_def mirrored_def)

lemma normalize_delegated: "fst (normalizeParameters orig handler d) = (selector_of handler \<noteq> None)"
  by (simp add: normalizeParameters_def selector_of_def Let_def split: handler_arg.splits)

lemma ev_inv_addHandler:
  assumes "ev_inv s" "handler \<noteq> Selector []"
  shows "ev_inv (addHandler e orig handler d one s)"
proof -
  obtain isD c t where n: "normalizeParameters orig handler d = (isD, c, t)" using prod_cases3 by blast
  have "isD = (selector_of handler \<noteq> None)" using normalize_delegated [of orig handler d] n by simp
  moreover have "selector_of handler \<noteq> Some []" using assms(2) by (cases handler) (auto simp: selector_of_def)
  ultimately show ?thesis
    using assms(1) by (simp add: addHandler_register n ev_inv_register ev_inv_getElementEvents ev_inv_closures)
qed

subsection \<open>Removing\<close>

lemma findHandler_member:
  assumes "handlers_ok n hs" "(k, f) \<in> set hs"
  shows "findHandler hs (h_callable f) (delegationSelector f) = Some (k, f)"
proof -
  obtain kf where r: "findHandler hs (h_callable f) (delegationSelector f) = Some kf"
    using assms(2) unfolding findHandler_def by (cases "find (same_handler (h_callable f) (delegationSelector f)) hs")
      (auto simp: find_None_iff same_handler_def)
  then have m: "kf \<in> set hs" "h_ident kf = h_ident (k, f)"
    using find_Some_mem unfolding findHandler_def by (fastforce simp: same_handler_def h_ident_def)+
  moreover have "inj_on h_ident (set hs)" using assms(1) by (simp add: handlers_ok_def distinct_map)
  ultimately have "kf = (k, f)" using assms(2) by (meson inj_onD)
  with r show ?thesis by simp
qed

lemma delete_filter: "AList.delete k xs = filter (\<lambda>kv. fst kv \<noteq> k) xs"
  by (induction xs) auto

lemma handlers_ok_filter: "handlers_ok n hs \<Longrightarrow> handlers_ok n (filter P hs)"
  by (auto simp: handlers_ok_def distinct_map_filter)

lemma remove_entry_handlers:
  assumes "ev_inv s" "kf \<in> set (handlers_of s e t)"
  shows "handlers_of (remove_entry e t s kf) e' t' =
     (if e' = e \<and> t' = t then filter (\<lambda>x. fst x \<noteq> fst kf) (handlers_of s e t) else handlers_of s e' t')"
proof -
  obtain k f where kf: "kf = (k, f)" by force
  have "handlers_ok (uidEvent s) (handlers_of s e t)" using assms(1) by (simp add: ev_inv_def)
  then have "findHandler (handlers_of s e t) (h_callable f) (delegationSelector f) = Some (k, f)"
    using assms(2) kf by (simp add: findHandler_member)
  then show ?thesis by (simp add: remove_entry_def removeHandler_def kf Let_def delete_filter)
qed

lemma ev_inv_removeHandler:
  assumes inv: "ev_inv s"
  shows "ev_inv (removeHandler e t c sel s)"
proof (cases "findHandler (handlers_of s e t) c sel")
  case None
  with inv show ?thesis by (simp add: removeHandler_def)
next
  case (Some kf)
  obtain k f where kf: "kf = (k, f)" by force
  let ?s = "removeHandler e t c sel s"
  have ok: "handlers_ok (uidEvent s) (handlers_of s e t)" using inv by (simp add: ev_inv_def)
  have "kf \<in> set (handlers_of s e t)" "same_handler c sel kf"
    using Some find_Some_mem unfolding findHandler_def by fast+
  then have m: "(k, f) \<in> set (handlers_of s e t)" and sel: "delegationSelector f = sel"
    by (simp_all add: kf same_handler_def)
  have cap: "capture_flag sel = (sel \<noteq> None)"
    using ok m sel by (auto simp: handlers_ok_def capture_flag_def split: option.splits)
  have hs: "handlers_of ?s e' t' = (if e' = e \<and> t' = t then filter (\<lambda>x. fst x \<noteq> k) (handlers_of s e t) else handlers_of s e' t')" for e' t'
    using Some kf by (simp add: removeHandler_def Let_def delete_filter)
  have ls: "listeners ?s = (listeners s)(e := filter (\<lambda>l. l \<noteq> (t, k, sel \<noteq> None)) (listeners s e))" "uidEvent ?s = uidEvent s"
    using Some kf cap by (simp_all add: removeHandler_def Let_def)
  have uniq: "f' = f" if "(k, f') \<in> set (handlers_of s e t)" for f'
    using ok m that by (auto simp: handlers_ok_def intro: eq_key_imp_eq_value)
  have "handlers_ok (uidEvent ?s) (handlers_of ?s e' t')" for e' t'
    using inv by (simp add: hs ls ev_inv_def handlers_ok_filter)
  moreover have "mirrored ?s"
    unfolding mirrored_def
  proof (intro allI)
    fix e' t' k' cap'
    have o: "(t', k', cap') \<in> set (listeners s e') \<longleftrightarrow> (\<exists>f. (k', f) \<in> set (handlers_of s e' t') \<and> cap' = (delegationSelector f \<noteq> None))"
      using inv by (simp add: ev_inv_def mirrored_def)
    show "(t', k', cap') \<in> set (listeners ?s e') \<longleftrightarrow> (\<exists>f. (k', f) \<in> set (handlers_of ?s e' t') \<and> cap' = (delegationSelector f \<noteq> None))"
    proof (cases "e' = e \<and> t' = t \<and> k' = k")
      case True
      with o uniq sel show ?thesis by (auto simp: hs ls)
    next
      case False
      with o show ?thesis by (auto simp: hs ls)
    qed
  qed
  ultimately show ?thesis by (simp add: ev_inv_def)
qed

lemma ev_inv_remove_entry: "ev_inv s \<Longrightarrow> ev_inv (remove_entry e t s kf)"
  by (simp add: remove_entry_def ev_inv_removeHandler)

lemma remove_entries:
  assumes "ev_inv s" "set xs \<subseteq> set (handlers_of s e t)" "distinct (map fst xs)"
  shows "ev_inv (foldl (remove_entry e t) s xs)
    \<and> handlers_of (foldl (remove_entry e t) s xs) e' t' =
       (if e' = e \<and> t' = t then filter (\<lambda>kf. fst kf \<notin> fst ` set xs) (handlers_of s e t) else handlers_of s e' t')"
  using assms
proof (induction xs arbitrary: s)
  case Nil
  then show ?case by simp
next
  case (Cons x xs)
  have x: "x \<in> set (handlers_of s e t)" using Cons.prems by simp
  note h = remove_entry_handlers [OF Cons.prems(1) x]
  have "set xs \<subseteq> set (handlers_of (remove_entry e t s x) e t)"
    using Cons.prems by (auto simp: h rev_image_eqI)
  from Cons.IH [OF ev_inv_remove_entry [OF Cons.prems(1)] this] Cons.prems(3)
  show ?case by (auto simp: h intro!: filter_cong)
qed

lemma filtered_keys:
  assumes "distinct (map fst hs)"
  shows "filter (\<lambda>kf. fst kf \<notin> fst ` set (filter (P \<circ> fst) hs)) hs = filter (\<lambda>kf. \<not> P (fst kf)) hs"
  by (rule filter_cong) auto

lemma removeNamespacedHandlers_exact:
  assumes "ev_inv s"
  shows "ev_inv (removeNamespacedHandlers e t ns s)
    \<and> handlers_of (removeNamespacedHandlers e t ns s) e' t' =
       (if e' = e \<and> t' = t then filter (\<lambda>kf. \<not> str_includes (fst kf) ns) (handlers_of s e t) else handlers_of s e' t')"
proof -
  let ?xs = "filter (\<lambda>kf. str_includes (fst kf) ns) (handlers_of s e t)"
  have d: "distinct (map fst (handlers_of s e t))" using assms by (simp add: ev_inv_def handlers_ok_def)
  have k: "filter (\<lambda>kf. fst kf \<notin> fst ` set ?xs) (handlers_of s e t) = filter (\<lambda>kf. \<not> str_includes (fst kf) ns) (handlers_of s e t)"
    using filtered_keys [OF d, of "\<lambda>k. str_includes k ns"] by (simp add: comp_def)
  have "set ?xs \<subseteq> set (handlers_of s e t)" "distinct (map fst ?xs)" using d by (auto simp: distinct_map_filter)
  from remove_entries [OF assms this, of e' t'] show ?thesis
    unfolding removeNamespacedHandlers_def k .
qed

lemma remove_all_namespaced:
  assumes "ev_inv s"
  shows "ev_inv (foldl (\<lambda>u t. removeNamespacedHandlers e t ns u) s ts)
    \<and> handlers_of (foldl (\<lambda>u t. removeNamespacedHandlers e t ns u) s ts) e' t' =
       (if e' = e \<and> t' \<in> set ts then filter (\<lambda>kf. \<not> str_includes (fst kf) ns) (handlers_of s e t') else handlers_of s e' t')"
  using assms
proof (induction ts arbitrary: s)
  case Nil
  then show ?case by simp
next
  case (Cons t ts)
  note r = removeNamespacedHandlers_exact [OF Cons.prems]
  from Cons.IH [OF conjunct1 [OF r]] r show ?case by auto
qed

lemma ev_inv_off:
  assumes "ev_inv s"
  shows "ev_inv (EventHandler_off e orig handler d s)"
proof -
  obtain isD c t where n: "normalizeParameters orig handler d = (isD, c, t)" using prod_cases3 by blast
  let ?s1 = "getElementEvents e s"
  have i1: "ev_inv ?s1" by (rule ev_inv_getElementEvents [OF assms])
  let ?s2 = "if startsWith orig ''.'' then foldl (\<lambda>u t. removeNamespacedHandlers e t (drop 1 orig) u) ?s1 (map fst (registry ?s1 e)) else ?s1"
  have i2: "ev_inv ?s2" using i1 remove_all_namespaced [OF i1] by simp
  let ?xs = "filter (\<lambda>kf. \<not> t \<noteq> orig \<or> str_includes orig (strip_uid (fst kf))) (handlers_of ?s2 e t)"
  have "distinct (map fst ?xs)" using i2 by (simp add: ev_inv_def handlers_ok_def distinct_map_filter)
  moreover have "set ?xs \<subseteq> set (handlers_of ?s2 e t)" by auto
  ultimately have "ev_inv (foldl (remove_entry e t) ?s2 ?xs)" using remove_entries [OF i2] by blast
  then show ?thesis
    unfolding EventHandler_off_def using n i1 by (simp only: Let_def prod.case) (simp add: ev_inv_removeHandler)
qed

section \<open>Properties of the registry\<close>

datatype ev_op =
    OpOn elem string handler_arg "callable option" bool
  | OpOff elem string handler_arg "callable option"

fun ev_step :: "ev_state \<Rightarrow> ev_op \<Rightarrow> ev_state" where
  "ev_step s (OpOn e ev handler d one) =
     (if one then EventHandler_one e ev handler d s else EventHandler_on e ev handler d s)"
| "ev_step s (OpOff e ev handler d) = EventHandler_off e ev handler d s"

definition ev_run :: "ev_op list \<Rightarrow> ev_state" where
  "ev_run ops = foldl ev_step no_events ops"

fun op_selector_ok :: "ev_op \<Rightarrow> bool" where
  "op_selector_ok (OpOn e ev handler d one) = (handler \<noteq> Selector [])"
| "op_selector_ok (OpOff e ev handler d) = True"

lemma ev_inv_step: "ev_inv s \<Longrightarrow> op_selector_ok op \<Longrightarrow> ev_inv (ev_step s op)"
  by (cases op) (simp_all add: EventHandler_on_def EventHandler_one_def ev_inv_addHandler ev_inv_off)

lemma ev_inv_run: "list_all op_selector_ok ops \<Longrightarrow> ev_inv (ev_run ops)"
  unfolding ev_run_def
  by (induction ops rule: rev_induct) (simp_all add: ev_inv_no_events ev_inv_step)


definition demo_ops :: "ev_op list" where
  "demo_ops = [OpOn 4 ''click.bs.alert'' (Selector ''.btn'') (Some (Fn 7)) False, OpOn 4 ''focusin.bs.modal'' (Callable (Fn 8)) None False,
     OpOff 4 ''.bs.modal'' NoHandler None]"


lemma normalize_namespace: "normalizeParameters (CHR ''.'' # ns) NoHandler None = (False, None, CHR ''.'' # ns)"
proof -
  have "getTypeEvent (CHR ''.'' # ns) = []" by (simp add: getTypeEvent_def strip_name_def customEvents_def)
  moreover have "[] \<notin> set nativeEvents" by (simp add: nativeEvents_def)
  ultimately show ?thesis by (simp add: normalizeParameters_def)
qed

lemma handlers_of_unlisted: "t \<notin> set (map fst (registry s e)) \<Longrightarrow> handlers_of s e t = []"
  by (simp add: handlers_of_def map_of_eq_None_iff [THEN iffD2] split: option.splits)

lemma off_namespace_handlers:
  assumes "ev_inv s" and "handlers_of s e (CHR ''.'' # ns) = []"
  shows "handlers_of (EventHandler_off e (CHR ''.'' # ns) NoHandler None s) e' t =
     (if e' = e then filter (\<lambda>kf. \<not> str_includes (fst kf) ns) (handlers_of s e t) else handlers_of s e' t)"
proof -
  let ?u = "getElementEvents e s"
  let ?v = "foldl (\<lambda>u t. removeNamespacedHandlers e t ns u) ?u (map fst (registry ?u e))"
  have i: "ev_inv ?u" by (rule ev_inv_getElementEvents [OF assms(1)])
  have h: "handlers_of ?v e' t = (if e' = e then filter (\<lambda>kf. \<not> str_includes (fst kf) ns) (handlers_of s e t)
      else handlers_of s e' t)" for e' t
    using remove_all_namespaced [OF i, of e ns "map fst (registry ?u e)" e' t] handlers_of_unlisted [of t ?u e] by auto
  have "EventHandler_off e (CHR ''.'' # ns) NoHandler None s = ?v"
    using h [of e "CHR ''.'' # ns"] assms(2)
    by (simp add: EventHandler_off_def normalize_namespace startsWith_def)
  with h show ?thesis by simp
qed

text \<open>
  \<open>off(element, '.ns')\<close> removes exactly the handlers of the namespace.  Of the element's
  handlers, of every event type, those whose key contains the namespace go and all others stay;
  other elements keep theirs.  This is what \<open>dispose\<close> relies on.
\<close>

theorem off_namespace_exact:
  assumes "list_all op_selector_ok ops" and "handlers_of (ev_run ops) e (CHR ''.'' # ns) = []"
  shows "handlers_of (EventHandler_off e (CHR ''.'' # ns) NoHandler None (ev_run ops)) e' t =
     (if e' = e then filter (\<lambda>kf. \<not> str_includes (fst kf) ns) (handlers_of (ev_run ops) e t)
      else handlers_of (ev_run ops) e' t)"
  by (rule off_namespace_handlers [OF ev_inv_run [OF assms(1)] assms(2)])

theorem off_namespace_exact_witness:
  "handlers_of (EventHandler_off 4 (CHR ''.'' # ''bs.alert'') NoHandler None (ev_run demo_ops)) 4 ''click'' =
     (if (4::nat) = 4 then filter (\<lambda>kf. \<not> str_includes (fst kf) ''bs.alert'') (handlers_of (ev_run demo_ops) 4 ''click'')
      else handlers_of (ev_run demo_ops) 4 ''click'')"
  by (rule off_namespace_exact) code_simp+

lemma register_fresh_handlers:
  assumes "ev_inv s" "findHandler (handlers_of s e t) c sel = None"
  shows "handlers_of (register e t ns isD c sel one s) e' t' =
    (if e' = e \<and> t' = t
     then handlers_of s e t @ [(event_key ns (uidEvent s), \<lparr>h_callable = c, delegationSelector = sel, oneOff = one\<rparr>)]
     else handlers_of s e' t')"
proof -
  have "handlers_ok (uidEvent s) (handlers_of s e t)" using assms(1) by (simp add: ev_inv_def)
  from update_new [OF event_key_new [OF this]] assms(2) show ?thesis
    by (simp add: register_def Let_def)
qed

definition on_off :: "elem \<Rightarrow> string \<Rightarrow> handler_arg \<Rightarrow> callable option \<Rightarrow> ev_state \<Rightarrow> ev_state" where
  "on_off e ev handler d s = EventHandler_off e ev handler d (EventHandler_on e ev handler d s)"

text \<open>
  \<open>off\<close> undoes \<open>on\<close>.  Registering a handler that is not registered yet and removing it with
  the same arguments leaves every handler of every element as it was.
\<close>

theorem on_off_roundtrip:
  assumes "list_all op_selector_ok ops" "handler \<noteq> Selector []" "ev \<notin> set (map fst customEvents)"
    and "normalizeParameters ev handler d = (isD, Some c, t)"
    and "findHandler (handlers_of (ev_run ops) e t) (Some c) (selector_of handler) = None"
  shows "handlers_of (on_off e ev handler d (ev_run ops)) e' t' = handlers_of (ev_run ops) e' t'"
proof -
  let ?u = "getElementEvents e (ev_run ops)" and ?sel = "selector_of handler"
  let ?s = "register e t (event_namespace ev) isD (Some c) ?sel False ?u"
  let ?k = "event_key (event_namespace ev) (uidEvent ?u)"
  let ?f = "\<lparr>h_callable = Some c, delegationSelector = ?sel, oneOff = False\<rparr>"
  have i0: "ev_inv ?u" by (rule ev_inv_getElementEvents [OF ev_inv_run [OF assms(1)]])
  have on: "EventHandler_on e ev handler d (ev_run ops) = ?s"
    using assms(3,4) by (simp add: EventHandler_on_def addHandler_register)
  have isD: "isD = (?sel \<noteq> None)" using normalize_delegated [of ev handler d] assms(4) by simp
  have sel: "?sel \<noteq> Some []" using assms(2) by (cases handler) (auto simp: selector_of_def)
  have "ev_inv ?s" using i0 sel isD by (simp add: ev_inv_register)
  then have i1: "ev_inv (getElementEvents e ?s)" by (rule ev_inv_getElementEvents)
  have h: "handlers_of ?s e' t' = (if e' = e \<and> t' = t then handlers_of (ev_run ops) e t @ [(?k, ?f)] else handlers_of (ev_run ops) e' t')" for e' t'
    using register_fresh_handlers [OF i0, of e t "Some c" ?sel] assms(5) by simp
  then have mem: "(?k, ?f) \<in> set (handlers_of (getElementEvents e ?s) e t)" by simp
  have "EventHandler_off e ev handler d ?s = remove_entry e t (getElementEvents e ?s) (?k, ?f)"
    using assms(4) mem by (auto simp: EventHandler_off_def remove_entry_def Let_def)
  moreover have "?k \<notin> fst ` set (handlers_of (ev_run ops) e t)"
    using event_key_new [of "uidEvent ?u" "handlers_of ?u e t"] i0 by (simp add: ev_inv_def)
  then have "filter (\<lambda>x. fst x \<noteq> ?k) (handlers_of (ev_run ops) e t) = handlers_of (ev_run ops) e t"
    by (auto simp: filter_id_conv image_iff)
  ultimately show ?thesis
    using remove_entry_handlers [OF i1 mem, of e' t'] h by (simp add: on_off_def on)
qed

theorem on_off_roundtrip_witness:
  "handlers_of (on_off 4 ''click.bs.alert'' (Callable (Fn 9)) None (ev_run demo_ops)) 4 ''click'' = handlers_of (ev_run demo_ops) 4 ''click''"
  by (rule on_off_roundtrip [where isD = False and c = "Fn 9" and t = "''click''"]) code_simp+

text \<open>
  An un-namespaced \<open>mouseenter\<close> handler cannot be removed by its function.  \<open>on\<close> registers a
  new closure around the function, and \<open>off\<close> looks for the function itself, so the pair leaves
  the listener in place; the namespaced form, which is not wrapped, is removed but also runs on
  every \<open>mouseover\<close> inside the element.
\<close>

theorem mouseenter_handler_stays:
  "listeners (on_off e ''mouseenter'' (Callable (Fn f)) None no_events) e = [(''mouseover'', ''2'', False)]
   \<and> listeners (on_off e ''mouseenter.bs.tooltip'' (Callable (Fn f)) None no_events) e = []
   \<and> handlers_of (EventHandler_on e ''mouseenter.bs.tooltip'' (Callable (Fn f)) None no_events) e ''mouseover''
       = [(''bs.tooltip::2'', \<lparr>h_callable = Some (Fn f), delegationSelector = None, oneOff = False\<rparr>)]"
proof -
  have n: "normalizeParameters ''mouseenter'' (Callable (Fn f)) None = (False, Some (Fn f), ''mouseover'')"
    "normalizeParameters ''mouseenter.bs.tooltip'' (Callable (Fn f)) None = (False, Some (Fn f), ''mouseover'')"
    by (simp_all add: normalizeParameters_def getTypeEvent_def strip_name_def customEvents_def nativeEvents_def)
  have "digits 2 = ''2''" by code_simp
  then have d: "digits (Suc (Suc 0)) = ''2''" by (simp add: numeral_2_eq_2)
  show ?thesis
    by (simp add: on_off_def EventHandler_off_def EventHandler_on_def addHandler_def n no_events_def getElementEvents_def
        handlers_of_def findHandler_def same_handler_def makeEventUid_def set_handlers_def selector_of_def event_namespace_def
        event_key_def d customEvents_def removeHandler_def capture_flag_def)
qed

subsection \<open>Handlers that run\<close>

text \<open>
  Event delegation calls the handler for the innermost match.  The element a delegated
  handler is called for lies on the path from the event's target up to, and not including, the
  listening element; the selector finds it, and no element nearer to the target is found.
\<close>

theorem delegation_picks_innermost:
  assumes "delegate_target p element sel target = Some x"
  shows "x \<in> set (querySelectorAll p element sel) \<and> x \<noteq> element
    \<and> (\<exists>inner outer. chain target (tree p) = inner @ x # outer \<and> element \<notin> set inner
         \<and> (\<forall>y \<in> set inner. y \<notin> set (querySelectorAll p element sel)))"
proof -
  let ?path = "takeWhile (\<lambda>x. x \<noteq> element) (chain target (tree p))"
  obtain rest where f: "filter (\<lambda>x. x \<in> set (querySelectorAll p element sel)) ?path = x # rest"
    using assms by (auto simp: delegate_target_def first_of_def Let_def split: list.splits)
  obtain us vs where uv: "?path = us @ x # vs" "\<forall>u \<in> set us. u \<notin> set (querySelectorAll p element sel)"
      "x \<in> set (querySelectorAll p element sel)"
    using Cons_eq_filterD [OF f [symmetric]] by auto
  have "\<forall>y \<in> set ?path. y \<noteq> element" by (auto dest: set_takeWhileD)
  then have "x \<noteq> element" "element \<notin> set us" unfolding uv by auto
  moreover have "chain target (tree p) = us @ x # (vs @ dropWhile (\<lambda>x. x \<noteq> element) (chain target (tree p)))"
    using takeWhile_dropWhile_id [of "\<lambda>x. x \<noteq> element" "chain target (tree p)"] uv(1) by simp
  ultimately show ?thesis using uv(2,3) by blast
qed

definition click_page :: page where
  "click_page = \<lparr>tree = Elem 2 [Elem 3 [Elem 4 []], Elem 5 []],
     nodes = (\<lambda>e. \<lparr>tagName = (if e = 3 then ''button'' else ''div''), classList = [], attributes = [], style = (\<lambda>_. []), textContent = []\<rparr>),
     focused = None, ev_log = []\<rparr>"

theorem delegation_picks_innermost_witness:
  "3 \<in> set (querySelectorAll click_page 2 [[[SelTag ''button'']]])"
proof -
  have "delegate_target click_page 2 [[[SelTag ''button'']]] 4 = Some 3" by code_simp
  from delegation_picks_innermost [OF this] show ?thesis by simp
qed

lemma native_type_fixed: "t \<in> set nativeEvents \<Longrightarrow> getTypeEvent t = t"
proof -
  have "list_all (\<lambda>t. getTypeEvent t = t) nativeEvents" by code_simp
  then show "t \<in> set nativeEvents \<Longrightarrow> getTypeEvent t = t" by (simp add: list_all_iff)
qed

definition registered_type :: "string \<Rightarrow> string" where
  "registered_type orig = (let t = getTypeEvent orig in if t \<in> set nativeEvents then t else orig)"

lemma normalize_registered: "normalizeParameters orig handler d = (isD, c, t) \<Longrightarrow> t = registered_type orig"
  by (auto simp: normalizeParameters_def registered_type_def Let_def)

lemma registered_type_idem: "registered_type (registered_type orig) = registered_type orig"
  by (simp add: registered_type_def Let_def native_type_fixed)

lemma off_removes_member:
  assumes inv: "ev_inv s" and m: "(k, f) \<in> set (handlers_of s e t)" and t: "registered_type t = t"
    and c: "h_callable f = Some g"
    and arg: "handler = (case delegationSelector f of None \<Rightarrow> Callable g | Some sel \<Rightarrow> Selector sel)"
    and d: "delegationSelector f = None \<or> d = Some g"
  shows "k \<notin> fst ` set (handlers_of (EventHandler_off e t handler d s) e t)"
proof -
  have n: "normalizeParameters t handler d = (delegationSelector f \<noteq> None, Some g, t)"
    using t arg d by (auto simp: normalizeParameters_def registered_type_def Let_def split: option.splits)
  have s: "selector_of handler = delegationSelector f" using arg by (auto simp: selector_of_def split: option.splits)
  have ne: "handlers_of s e t \<noteq> []" using m by auto
  have "EventHandler_off e t handler d s = remove_entry e t (getElementEvents e s) (k, f)"
    using ne by (simp add: EventHandler_off_def n s remove_entry_def c)
  then show ?thesis
    using remove_entry_handlers [OF ev_inv_getElementEvents [OF inv], of "(k, f)" e e t] m by auto
qed

text \<open>
  A handler added with \<open>one\<close> is called at most once.  As soon as its listener calls the
  function, directly or by delegation, the handler is gone from the registry.
\<close>

theorem one_handler_is_removed_when_called:
  assumes "list_all op_selector_ok ops"
    and "(k, f) \<in> set (handlers_of (ev_run ops) e (registered_type ev))" and "oneOff f"
    and "ev_type event = registered_type ev"
    and "run_listener h p event e (registered_type ev) k (ev_run ops) = (calls, s')" and "calls \<noteq> []"
  shows "k \<notin> fst ` set (handlers_of s' e (registered_type ev))"
proof -
  let ?t = "registered_type ev" and ?s = "ev_run ops"
  have inv: "ev_inv ?s" by (rule ev_inv_run [OF assms(1)])
  then have "distinct (map fst (handlers_of ?s e ?t))" by (simp add: ev_inv_def handlers_ok_def)
  then have look: "map_of (handlers_of ?s e ?t) k = Some f" using assms(2) by simp
  have "h_callable f \<noteq> None"
    using assms(5,6) look
    by (cases "h_callable f") (auto simp: run_listener_def bootstrapHandler_def bootstrapDelegationHandler_def split: option.splits)
  then obtain g where g: "h_callable f = Some g" by blast
  note gone = off_removes_member [OF inv assms(2) registered_type_idem g refl]
  show ?thesis
  proof (cases "delegationSelector f")
    case None
    with assms(3,4,5) look g have "s' = EventHandler_off e ?t (Callable g) None ?s"
      by (simp add: run_listener_def bootstrapHandler_def)
    with gone [of None] None show ?thesis by simp
  next
    case (Some sel)
    with assms(3-6) look g have "s' = EventHandler_off e ?t (Selector sel) (Some g) ?s"
      by (auto simp: run_listener_def bootstrapDelegationHandler_def split: option.splits)
    with gone [of "Some g"] Some show ?thesis by simp
  qed
qed

definition one_ops :: "ev_op list" where
  "one_ops = [OpOn 3 ''click.bs.alert'' (Callable (Fn 7)) None True]"

definition one_event :: dom_event where
  "one_event = \<lparr>ev_type = ''click'', ev_target = 4, relatedTarget = None\<rparr>"

definition quiet_host :: host where
  "quiet_host = \<lparr>cancels = (\<lambda>_ _. False), parse_sel = (\<lambda>_. None), css_escape = id, rtl = False, hidden_doc = False, touch = False,
     client_rects = (\<lambda>_. 1), visibility = (\<lambda>_. ''visible''), disabled_prop = (\<lambda>_. None), interface_name = (\<lambda>_. ''htmldivelement''),
     jquery = None\<rparr>"

theorem one_handler_is_removed_when_called_witness:
  "''bs.alert::2'' \<notin> fst ` set (handlers_of (snd (run_listener quiet_host click_page one_event 3 (registered_type ''click.bs.alert'')
     ''bs.alert::2'' (ev_run one_ops))) 3 (registered_type ''click.bs.alert''))"
proof (rule one_handler_is_removed_when_called [where ops = one_ops and event = one_event and h = quiet_host and p = click_page
      and f = "\<lparr>h_callable = Some (Fn 7), delegationSelector = None, oneOff = True\<rparr>" and calls = "[(7, 3)]"])
  show "run_listener quiet_host click_page one_event 3 (registered_type ''click.bs.alert'') ''bs.alert::2'' (ev_run one_ops) =
    ([(7, 3)], snd (run_listener quiet_host click_page one_event 3 (registered_type ''click.bs.alert'') ''bs.alert::2'' (ev_run one_ops)))"
    by (rule prod_eqI) (simp, code_simp, simp)
qed (code_simp+)

subsection \<open>Trigger\<close>

text \<open>
  The event object returned by \<open>trigger\<close> reports a veto exactly when a listener vetoed.
  Without jQuery that is a native listener's \<open>preventDefault\<close>; with jQuery, for a namespaced
  event, jQuery's own listeners may veto too, and may keep the native event from being dispatched.
\<close>

theorem trigger_reports_veto:
  "defaultPrevented (fst (trigger h e ev p)) \<longleftrightarrow>
     (case jquery h of
        None \<Rightarrow> cancels h e ev
      | Some jq \<Rightarrow> if ev = getTypeEvent ev then cancels h e ev
                   else snd (snd (jq e ev)) \<or> \<not> fst (snd (jq e ev)) \<and> cancels h e ev)"
  by (auto simp: trigger_def Let_def split: option.splits prod.splits)

section \<open>Event properties\<close>

text \<open>
  \<open>hydrateObj\<close> copies properties onto an event.  Assigning to a read-only property of events throws, and
  an own getter is defined instead; it can be replaced, but not assigned to.
\<close>

record event_object =
  ev_own :: "(string \<times> jsval) list"
  ev_getters :: "(string \<times> jsval) list"
  ev_readonly :: "string list"

definition ev_read :: "event_object \<Rightarrow> string \<Rightarrow> jsval" where
  "ev_read ob k = (case map_of (ev_getters ob) k of Some v \<Rightarrow> v | None \<Rightarrow> js_get (ev_own ob) k)"

fun hydrateObj :: "event_object \<Rightarrow> (string \<times> jsval) list \<Rightarrow> event_object" where
  "hydrateObj ob [] = ob"
| "hydrateObj ob ((key, v) # rest) =
     hydrateObj (if key \<in> set (ev_readonly ob) \<or> map_of (ev_getters ob) key \<noteq> None then ob\<lparr>ev_getters := AList.update key v (ev_getters ob)\<rparr>
                 else ob\<lparr>ev_own := AList.update key v (ev_own ob)\<rparr>) rest"

text \<open>Read-only or not, every property reads as given, and the others as before.\<close>

lemma hydrate_reads: "ev_read (hydrateObj ob meta) k = (case map_of (rev meta) k of Some v \<Rightarrow> v | None \<Rightarrow> ev_read ob k)"
proof (induction ob meta rule: hydrateObj.induct)
  case (2 ob key v rest)
  have "ev_read (if key \<in> set (ev_readonly ob) \<or> map_of (ev_getters ob) key \<noteq> None then ob\<lparr>ev_getters := AList.update key v (ev_getters ob)\<rparr>
      else ob\<lparr>ev_own := AList.update key v (ev_own ob)\<rparr>) k = (if k = key then v else ev_read ob k)"
    by (auto simp: ev_read_def js_get_def update_conv' split: option.splits)
  with 2 show ?case by (auto simp: map_add_def split: option.splits)
qed simp

end
