(* ===== verification/Bs_Config.thy ===== *)
theory Bs_Config
  imports Bs_Events
begin

text \<open>
  Bootstrap's \<open>dom/manipulator.js\<close> and \<open>util/config.js\<close> in \<open>bootstrap.bundle.js\<close>: reading options
  from \<open>data-bs-*\<close> attributes, merging them with the defaults and with the caller's object, and
  checking their types.  \<open>json\<close> stands for the browser's \<open>JSON.parse(decodeURIComponent(s))\<close>, with
  \<open>None\<close> for a throw.
\<close>

section \<open>Data attributes\<close>

text \<open>
  The decimal texts that are equal to \<open>Number(s).toString()\<close>: no superfluous sign, zeros or point,
  and few enough digits that the double prints them all.
\<close>

definition canonical_decimal :: "string \<Rightarrow> bool" where
  "canonical_decimal s =
     (let u = (if startsWith s ''-'' then drop 1 s else s);
          ip = takeWhile is_digit u; r = dropWhile is_digit u
      in ip \<noteq> [] \<and> (ip = ''0'' \<or> hd ip \<noteq> CHR ''0'') \<and> length u \<le> 15 \<and> s \<noteq> ''-0''
         \<and> (r = [] \<or> hd r = CHR ''.'' \<and> tl r \<noteq> [] \<and> list_all is_digit (tl r) \<and> last r \<noteq> CHR ''0''))"

definition number_text :: "string \<Rightarrow> jsval option" where
  "number_text s =
     (if s = ''NaN'' then Some JNaN
      else if s = ''Infinity'' then Some (JInf False)
      else if s = ''-Infinity'' then Some (JInf True)
      else if canonical_decimal s then map_option JNum (parseFloat s) else None)"

definition normalizeData :: "(string \<Rightarrow> jsval option) \<Rightarrow> string option \<Rightarrow> jsval" where
  "normalizeData json v =
     (case v of
        None \<Rightarrow> JNull
      | Some value \<Rightarrow>
          if value = ''true'' then JBool True
          else if value = ''false'' then JBool False
          else (case number_text value of
                  Some n \<Rightarrow> n
                | None \<Rightarrow>
                    if value = [] \<or> value = ''null'' then JNull
                    else (case json value of Some j \<Rightarrow> j | None \<Rightarrow> JStr value)))"

definition normalizeDataKey :: "string \<Rightarrow> string" where
  "normalizeDataKey key = concat (map (\<lambda>c. if is_upper c then [CHR ''-'', to_lower_char c] else [c]) key)"

definition data_name :: "string \<Rightarrow> string" where
  "data_name key = ''data-bs-'' @ normalizeDataKey key"

definition setDataAttribute :: "elem \<Rightarrow> string \<Rightarrow> string \<Rightarrow> page \<Rightarrow> page" where
  "setDataAttribute element key value = setAttribute element (data_name key) value"

definition removeDataAttribute :: "elem \<Rightarrow> string \<Rightarrow> page \<Rightarrow> page" where
  "removeDataAttribute element key = removeAttribute element (data_name key)"

definition getDataAttribute :: "(string \<Rightarrow> jsval option) \<Rightarrow> page \<Rightarrow> elem \<Rightarrow> string \<Rightarrow> jsval" where
  "getDataAttribute json p element key = normalizeData json (getAttribute p element (data_name key))"

text \<open>
  The names of \<open>element.dataset\<close>: the attribute name without \<open>data-\<close>, each hyphen before a
  lower-case letter dropped and the letter raised.
\<close>

definition is_lower :: "char \<Rightarrow> bool" where
  "is_lower c = (let n = of_char c :: nat in 97 \<le> n \<and> n \<le> 122)"

fun camel :: "string \<Rightarrow> string" where
  "camel [] = []"
| "camel [c] = [c]"
| "camel (c # d # s) = (if c = CHR ''-'' \<and> is_lower d then to_upper_char d # camel s else c # camel (d # s))"

definition dataset :: "page \<Rightarrow> elem \<Rightarrow> (string \<times> string) list" where
  "dataset p element =
     map (\<lambda>(a, v). (camel (drop 5 a), v))
       (filter (\<lambda>(a, v). startsWith a ''data-'' \<and> \<not> list_ex is_upper (drop 5 a)) (attributes (nodes p element)))"

definition pure_key :: "string \<Rightarrow> string" where
  "pure_key key = (let k = (if startsWith key ''bs'' then drop 2 key else key)
     in (case k of [] \<Rightarrow> [] | c # r \<Rightarrow> to_lower_char c # r))"

definition getDataAttributes :: "(string \<Rightarrow> jsval option) \<Rightarrow> page \<Rightarrow> elem option \<Rightarrow> (string \<times> jsval) list" where
  "getDataAttributes json p el =
     (case el of
        None \<Rightarrow> []
      | Some element \<Rightarrow>
          assign [] (map (\<lambda>(key, v). (pure_key key, normalizeData json (Some v)))
            (filter (\<lambda>(key, v). startsWith key ''bs'' \<and> \<not> startsWith key ''bsConfig'') (dataset p element))))"

section \<open>Configuration objects\<close>

type_synonym config = "(string \<times> jsval) list"

text \<open>\<open>Config._mergeConfigObj\<close>: the element is absent for the helpers that have none.\<close>

definition mergeConfigObj :: "(string \<Rightarrow> jsval option) \<Rightarrow> page \<Rightarrow> config \<Rightarrow> jsval \<Rightarrow> elem option \<Rightarrow> config" where
  "mergeConfigObj json p Default cfg element =
     (let jsonConfig = (case element of Some e \<Rightarrow> getDataAttribute json p e ''config'' | None \<Rightarrow> JObj [])
      in assign (assign (assign (assign [] Default)
           (if typeof_object jsonConfig then spread_entries jsonConfig else []))
           (case element of Some e \<Rightarrow> getDataAttributes json p (Some e) | None \<Rightarrow> []))
           (if typeof_object cfg then spread_entries cfg else []))"

definition value_type :: "host \<Rightarrow> jsval \<Rightarrow> string" where
  "value_type h v = (if isElement v then ''element'' else toType h v)"

definition type_error :: "string \<Rightarrow> string \<Rightarrow> string \<Rightarrow> string \<Rightarrow> string" where
  "type_error name property valueType expectedTypes =
     map to_upper_char name @ '': Option '' @ [CHR 0x22] @ property @ [CHR 0x22] @ '' provided type '' @ [CHR 0x22] @ valueType
       @ [CHR 0x22] @ '' but expected type '' @ [CHR 0x22] @ expectedTypes @ [CHR 0x22] @ ''.''"

fun typeCheckConfig :: "host \<Rightarrow> string \<Rightarrow> config \<Rightarrow> (string \<times> string) list \<Rightarrow> string + unit" where
  "typeCheckConfig h name cfg [] = Inr ()"
| "typeCheckConfig h name cfg ((property, expectedTypes) # rest) =
     (let valueType = value_type h (js_get cfg property)
      in if type_test expectedTypes valueType then typeCheckConfig h name cfg rest
         else Inl (type_error name property valueType expectedTypes))"

text \<open>\<open>_getConfig\<close>, with the component's \<open>_configAfterMerge\<close> as an argument.\<close>

definition getConfig ::
  "host \<Rightarrow> (string \<Rightarrow> jsval option) \<Rightarrow> page \<Rightarrow> string \<Rightarrow> config \<Rightarrow> (string \<times> string) list \<Rightarrow> (config \<Rightarrow> config) \<Rightarrow> jsval \<Rightarrow> elem option
     \<Rightarrow> string + config" where
  "getConfig h json p name Default DefaultType configAfterMerge cfg element =
     (let c = configAfterMerge (mergeConfigObj json p Default cfg element)
      in (case typeCheckConfig h name c DefaultType of Inl err \<Rightarrow> Inl err | Inr _ \<Rightarrow> Inr c))"

section \<open>Properties\<close>

subsection \<open>Attribute names\<close>

lemma upper_lower: "is_upper c \<Longrightarrow> is_lower (to_lower_char c) \<and> to_upper_char (to_lower_char c) = c \<and> c \<noteq> CHR ''-''"
  by (auto simp: is_upper_def is_lower_def to_lower_char_def to_upper_char_def Let_def)

lemma camel_normalize:
  "CHR ''-'' \<notin> set key \<Longrightarrow> camel (normalizeDataKey key) = key"
proof (induction key)
  case Nil
  then show ?case by (simp add: normalizeDataKey_def)
next
  case (Cons c key)
  have ih: "camel (normalizeDataKey key) = key" using Cons by simp
  show ?case
  proof (cases "is_upper c")
    case True
    then have "normalizeDataKey (c # key) = CHR ''-'' # to_lower_char c # normalizeDataKey key"
      by (simp add: normalizeDataKey_def)
    with upper_lower [OF True] ih show ?thesis by simp
  next
    case False
    then have n: "normalizeDataKey (c # key) = c # normalizeDataKey key" by (simp add: normalizeDataKey_def)
    have "c \<noteq> CHR ''-''" using Cons.prems by auto
    then have "camel (c # s) = c # camel s" for s by (cases s) auto
    with n ih show ?thesis by simp
  qed
qed

lemma lower_not_upper: "is_lower c \<Longrightarrow> \<not> is_upper c \<and> to_lower_char (to_upper_char c) = c \<and> c \<noteq> CHR ''-''"
  by (auto simp: is_upper_def is_lower_def to_lower_char_def to_upper_char_def Let_def)

text \<open>
  An option's attribute name and its key are inverse.  For a camel-case key the attribute
  \<open>data-bs-*\<close> that \<open>setDataAttribute\<close> writes is read back by \<open>getDataAttributes\<close> under that very
  key.
\<close>

theorem data_key_roundtrip:
  assumes "key = c # rest" "is_lower c" "CHR ''-'' \<notin> set key"
  shows "pure_key (camel (drop 5 (data_name key))) = key"
proof -
  have lc: "\<not> is_upper c" "to_lower_char (to_upper_char c) = c" "c \<noteq> CHR ''-''" using lower_not_upper [OF assms(2)] by blast+
  have n: "normalizeDataKey key = c # normalizeDataKey rest" using lc(1) by (simp add: assms(1) normalizeDataKey_def)
  have "camel (drop 5 (data_name key)) = CHR ''b'' # CHR ''s'' # to_upper_char c # camel (normalizeDataKey rest)"
    using assms(2) by (simp add: data_name_def n)
  moreover have "camel (normalizeDataKey rest) = rest" by (rule camel_normalize) (use assms in auto)
  ultimately show ?thesis by (simp add: pure_key_def startsWith_def lc(2) assms(1))
qed

theorem data_key_roundtrip_witness: "pure_key (camel (drop 5 (data_name ''autoClose''))) = ''autoClose''"
  by (rule data_key_roundtrip [where c = "CHR ''a''" and rest = "''utoClose''"]) (code_simp+)

subsection \<open>Precedence\<close>

lemma map_of_getDataAttributes_None [simp]: "getDataAttributes json p None = []"
  by (simp add: getDataAttributes_def)

text \<open>
  Configuration precedence.  The caller's object wins over \<open>data-bs-*\<close> attributes, these win
  over the JSON in \<open>data-bs-config\<close>, which wins over the component's defaults; an argument that
  is not an object contributes nothing.
\<close>

theorem config_precedence:
  "map_of (mergeConfigObj json p Default cfg (Some e)) =
     map_of (rev Default)
     ++ map_of (rev (if typeof_object (getDataAttribute json p e ''config'') then spread_entries (getDataAttribute json p e ''config'') else []))
     ++ map_of (rev (getDataAttributes json p (Some e)))
     ++ map_of (rev (if typeof_object cfg then spread_entries cfg else []))"
  by (simp add: mergeConfigObj_def Let_def map_of_assign map_add_assoc)

subsection \<open>Type checking\<close>

lemma typeCheckConfig_ok:
  "typeCheckConfig h name cfg types = Inr () \<longleftrightarrow>
     (\<forall>(property, expected) \<in> set types. type_test expected (value_type h (js_get cfg property)))"
  by (induction h name cfg types rule: typeCheckConfig.induct) (auto simp: Let_def)

lemma typeCheckConfig_error:
  "typeCheckConfig h name cfg types = Inl err \<Longrightarrow>
     \<exists>pre property expected post. types = pre @ (property, expected) # post
       \<and> (\<forall>(q, x) \<in> set pre. type_test x (value_type h (js_get cfg q)))
       \<and> \<not> type_test expected (value_type h (js_get cfg property))
       \<and> err = type_error name property (value_type h (js_get cfg property)) expected"
proof (induction h name cfg types rule: typeCheckConfig.induct)
  case (1 h name cfg)
  then show ?case by simp
next
  case (2 h name cfg property expected rest)
  show ?case
  proof (cases "type_test expected (value_type h (js_get cfg property))")
    case True
    with 2 obtain pre q x post where "rest = pre @ (q, x) # post"
        "\<forall>(q, x) \<in> set pre. type_test x (value_type h (js_get cfg q))"
        "\<not> type_test x (value_type h (js_get cfg q))" "err = type_error name q (value_type h (js_get cfg q)) x"
      by (auto simp: Let_def)
    with True show ?thesis
      by (intro exI [of _ "(property, expected) # pre"] exI [of _ q] exI [of _ x] exI [of _ post]) auto
  next
    case False
    with "2.prems" show ?thesis
      by (intro exI [of _ "[]"] exI [of _ property] exI [of _ expected] exI [of _ rest]) (auto simp: Let_def)
  qed
qed


end
