(* ===== verification/Bs_Data.thy ===== *)
theory Bs_Data
  imports Prelude
begin

text \<open>
  Bootstrap's instance table, \<open>dom/data.js\<close> in \<open>bootstrap.bundle.js\<close>: a map from elements to
  maps from component keys to instances, which allows one instance per element.  A JavaScript
  \<open>Map\<close> iterates in insertion order, so the inner map is an association list.  The laws a
  component relies on are stated once, as the locale \<open>instance_registry\<close>, and discharged for
  this table.
\<close>

section \<open>The table\<close>

record 'i data_state =
  elementMap :: "elem \<Rightarrow> (string \<times> 'i) list option"
  console :: "string list"

definition empty_data :: "'i data_state" where
  "empty_data = \<lparr>elementMap = (\<lambda>_. None), console = []\<rparr>"

definition instances :: "'i data_state \<Rightarrow> elem \<Rightarrow> (string \<times> 'i) list" where
  "instances d e = (case elementMap d e of None \<Rightarrow> [] | Some im \<Rightarrow> im)"

definition Data_set :: "elem \<Rightarrow> string \<Rightarrow> 'i \<Rightarrow> 'i data_state \<Rightarrow> 'i data_state" where
  "Data_set element key instance d =
     (let d1 = (if elementMap d element = None then d\<lparr>elementMap := (elementMap d)(element := Some [])\<rparr> else d);
          instanceMap = instances d1 element
      in if map_of instanceMap key = None \<and> instanceMap \<noteq> []
         then d1\<lparr>console := console d1 @ [''Bound instance: '' @ fst (hd instanceMap)]\<rparr>
         else d1\<lparr>elementMap := (elementMap d1)(element := Some (AList.update key instance instanceMap))\<rparr>)"

definition Data_get :: "'i data_state \<Rightarrow> elem \<Rightarrow> string \<Rightarrow> 'i option" where
  "Data_get d element key =
     (case elementMap d element of None \<Rightarrow> None | Some instanceMap \<Rightarrow> map_of instanceMap key)"

definition Data_remove :: "elem \<Rightarrow> string \<Rightarrow> 'i data_state \<Rightarrow> 'i data_state" where
  "Data_remove element key d =
     (case elementMap d element of
        None \<Rightarrow> d
      | Some instanceMap \<Rightarrow>
          (let im = AList.delete key instanceMap
           in d\<lparr>elementMap := (elementMap d)(element := (if im = [] then None else Some im))\<rparr>))"

text \<open>Every element that is a key of the table has exactly one instance: no empty maps are kept.\<close>

definition one_instance :: "'i data_state \<Rightarrow> bool" where
  "one_instance d = (\<forall>e im. elementMap d e = Some im \<longrightarrow> length im = 1)"

section \<open>The interface components rely on\<close>

locale instance_registry =
  fixes reg_get :: "'m \<Rightarrow> elem \<Rightarrow> string \<Rightarrow> 'i option"
    and reg_set :: "elem \<Rightarrow> string \<Rightarrow> 'i \<Rightarrow> 'm \<Rightarrow> 'm"
    and reg_remove :: "elem \<Rightarrow> string \<Rightarrow> 'm \<Rightarrow> 'm"
    and reg_inv :: "'m \<Rightarrow> bool"
  assumes inv_set: "reg_inv m \<Longrightarrow> reg_inv (reg_set e k i m)"
    and inv_remove: "reg_inv m \<Longrightarrow> reg_inv (reg_remove e k m)"
    and exclusive: "reg_inv m \<Longrightarrow> reg_get m e k \<noteq> None \<Longrightarrow> reg_get m e k' \<noteq> None \<Longrightarrow> k = k'"
    and get_set: "reg_inv m \<Longrightarrow> reg_get (reg_set e k i m) e' k' =
        (if e' = e \<and> (\<forall>k''. k'' \<noteq> k \<longrightarrow> reg_get m e k'' = None) then (if k' = k then Some i else None)
         else reg_get m e' k')"
    and get_remove: "reg_inv m \<Longrightarrow> reg_get (reg_remove e k m) e' k' =
        (if e' = e \<and> k' = k then None else reg_get m e' k')"
begin

text \<open>Binding a free element makes it the instance's own until it is removed.\<close>

lemma bind_free:
  assumes "reg_inv m" and "\<And>k'. reg_get m e k' = None"
  shows "reg_get (reg_set e k i m) e k = Some i"
    and "k' \<noteq> k \<Longrightarrow> reg_get (reg_set e k' j (reg_set e k i m)) e k = Some i"
    and "k' \<noteq> k \<Longrightarrow> reg_get (reg_set e k' j (reg_set e k i m)) e k' = None"
    and "reg_get (reg_remove e k (reg_set e k i m)) e k' = None"
  using assms inv_set [OF assms(1)] by (auto simp: get_set get_remove)

text \<open>Disposing of one component leaves every other element's instance alone.\<close>

lemma remove_other: "reg_inv m \<Longrightarrow> e' \<noteq> e \<Longrightarrow> reg_get (reg_remove e k m) e' k' = reg_get m e' k'"
  by (simp add: get_remove)

end

section \<open>The table implements the interface\<close>

lemma one_instance_cases:
  assumes "one_instance d"
  obtains "elementMap d e = None" | k v where "elementMap d e = Some [(k, v)]"
proof (cases "elementMap d e")
  case None
  then show ?thesis using that by blast
next
  case (Some im)
  with assms have "length im = 1" by (simp add: one_instance_def)
  then obtain x where "im = [x]" by (auto simp: length_Suc_conv)
  with Some that(2) [of "fst x" "snd x"] show ?thesis by simp
qed

lemma one_instance_empty: "one_instance empty_data"
  by (simp add: one_instance_def empty_data_def)

lemma elementMap_set:
  assumes "one_instance d"
  shows "elementMap (Data_set e k i d) = (elementMap d)(e := Some
     (case elementMap d e of None \<Rightarrow> [(k, i)] | Some im \<Rightarrow> if fst (hd im) = k then [(k, i)] else im))"
  using assms
  by (rule one_instance_cases [of d e]) (auto simp: Data_set_def instances_def Let_def fun_upd_idem)

lemma elementMap_remove:
  assumes "one_instance d"
  shows "elementMap (Data_remove e k d) = (elementMap d)(e :=
     (case elementMap d e of None \<Rightarrow> None | Some im \<Rightarrow> if fst (hd im) = k then None else Some im))"
  using assms
  by (rule one_instance_cases [of d e]) (auto simp: Data_remove_def Let_def fun_upd_idem)

lemma one_instance_set: "one_instance d \<Longrightarrow> one_instance (Data_set e k i d)"
  by (auto simp: one_instance_def elementMap_set split: option.splits)

lemma one_instance_remove: "one_instance d \<Longrightarrow> one_instance (Data_remove e k d)"
  by (auto simp: one_instance_def elementMap_remove split: option.splits if_splits)

lemma Data_get_Some_iff:
  "one_instance d \<Longrightarrow> Data_get d e k = Some i \<longleftrightarrow> elementMap d e = Some [(k, i)]"
  by (rule one_instance_cases [of d e]) (auto simp: Data_get_def)

interpretation data: instance_registry Data_get Data_set Data_remove one_instance
proof (unfold_locales, goal_cases)
  case 1
  then show ?case by (rule one_instance_set)
next
  case 2
  then show ?case by (rule one_instance_remove)
next
  case (3 m e k k')
  then show ?case by (auto simp: Data_get_Some_iff)
next
  case (4 m e k i e' k')
  from 4 show ?case
    by (rule one_instance_cases [of m e]) (auto simp: Data_get_def elementMap_set [OF 4])
next
  case (5 m e k e' k')
  from 5 show ?case
    by (rule one_instance_cases [of m e]) (auto simp: Data_get_def elementMap_remove [OF 5])
qed

text \<open>Runs of the table's operations from the empty table.\<close>

datatype 'i data_op = OpSet elem string 'i | OpRemove elem string

fun run_data :: "'i data_op list \<Rightarrow> 'i data_state \<Rightarrow> 'i data_state" where
  "run_data [] d = d"
| "run_data (OpSet e k i # ops) d = run_data ops (Data_set e k i d)"
| "run_data (OpRemove e k # ops) d = run_data ops (Data_remove e k d)"

lemma one_instance_run: "one_instance d \<Longrightarrow> one_instance (run_data ops d)"
  by (induction ops d rule: run_data.induct) (auto intro: one_instance_set one_instance_remove)

text \<open>
  An element never carries two component instances.  After any sequence of registrations and
  removals, two keys that both have an instance on the same element are the same key.
\<close>

theorem data_one_instance_per_element:
  assumes "Data_get (run_data ops empty_data) e k = Some i"
    and "Data_get (run_data ops empty_data) e k' = Some i'"
  shows "k = k' \<and> i = i'"
  using data.exclusive [OF one_instance_run [OF one_instance_empty], of ops e k k'] assms by auto

theorem data_one_instance_per_element_witness:
  "Data_get (run_data [OpSet 3 ''bs.modal'' (7::nat), OpSet 3 ''bs.tab'' 8] empty_data) 3 ''bs.modal'' = Some 7
   \<and> ''bs.modal'' = ''bs.modal'' \<and> (7::nat) = 7"
proof -
  let ?d = "run_data [OpSet 3 ''bs.modal'' (7::nat), OpSet 3 ''bs.tab'' 8] empty_data"
  have g: "Data_get ?d 3 ''bs.modal'' = Some 7" by code_simp
  from data_one_instance_per_element [OF g g] g show ?thesis by simp
qed

text \<open>
  Removing an instance frees the element.  A component can be disposed of and another kind of
  component created on the same element: after removal the element accepts any key again.
\<close>

theorem data_remove_frees:
  assumes "Data_get (run_data ops empty_data) e k = Some i"
  shows "Data_get (Data_set e k' j (Data_remove e k (run_data ops empty_data))) e k' = Some j
    \<and> elementMap (Data_remove e k (run_data ops empty_data)) e = None"
proof -
  have inv: "one_instance (run_data ops empty_data)" by (rule one_instance_run [OF one_instance_empty])
  with assms have "elementMap (run_data ops empty_data) e = Some [(k, i)]" by (simp add: Data_get_Some_iff)
  with inv have n: "elementMap (Data_remove e k (run_data ops empty_data)) e = None"
    by (simp add: elementMap_remove)
  then have free: "Data_get (Data_remove e k (run_data ops empty_data)) e x = None" for x
    by (simp add: Data_get_def)
  from data.bind_free(1) [OF one_instance_remove [OF inv] free] n show ?thesis by simp
qed

theorem data_remove_frees_witness:
  "Data_get (Data_set 3 ''bs.tab'' (8::nat) (Data_remove 3 ''bs.modal'' (run_data [OpSet 3 ''bs.modal'' 7] empty_data)))
     3 ''bs.tab'' = Some 8"
proof -
  have g: "Data_get (run_data [OpSet 3 ''bs.modal'' (7::nat)] empty_data) 3 ''bs.modal'' = Some 7" by code_simp
  from data_remove_frees [OF g] show ?thesis by blast
qed

end
