(* ===== verification/Bs_Base.thy ===== *)
theory Bs_Base
  imports Bs_Config Bs_Data
begin

text \<open>
  Bootstrap's \<open>base-component.js\<close>, \<open>dom/selector-engine.js\<close> and \<open>util/component-functions.js\<close> in
  \<open>bootstrap.bundle.js\<close>: creating, finding and disposing of component instances over the
  instance table and the event registry, and resolving the element a trigger points to.
\<close>

section \<open>Component instances\<close>

text \<open>A component class, by what \<open>BaseComponent\<close> reads of it.\<close>

record component_class =
  NAME :: string
  Default :: config
  DefaultType :: "(string \<times> string) list"
  configAfterMerge :: "config \<Rightarrow> config"

definition DATA_KEY :: "component_class \<Rightarrow> string" where
  "DATA_KEY cls = ''bs.'' @ NAME cls"

definition EVENT_KEY :: "component_class \<Rightarrow> string" where
  "EVENT_KEY cls = ''.'' @ DATA_KEY cls"

definition eventName :: "component_class \<Rightarrow> string \<Rightarrow> string" where
  "eventName cls name = name @ EVENT_KEY cls"

text \<open>An instance's own properties; \<open>dispose\<close> sets them all to \<open>null\<close>.\<close>

record base_object =
  el :: "elem option"
  cfg :: config

record bs_state =
  bs_page :: page
  bs_data :: "nat data_state"
  bs_events :: ev_state
  objects :: "nat \<Rightarrow> base_object"
  next_object :: nat

definition null_object :: base_object where
  "null_object = \<lparr>el = None, cfg = []\<rparr>"

datatype js_error = TypeError string | SyntaxError

text \<open>\<open>new Component(element, config)\<close>: the new object's identity, or the exception.\<close>

definition construct ::
  "host \<Rightarrow> (string \<Rightarrow> jsval option) \<Rightarrow> component_class \<Rightarrow> jsval \<Rightarrow> jsval \<Rightarrow> bs_state \<Rightarrow> js_error + nat \<times> bs_state" where
  "construct h json cls element config s =
     (let i = next_object s; s1 = s\<lparr>next_object := Suc i, objects := (objects s)(i := null_object)\<rparr>
      in (case getElement h (bs_page s) element of
            None \<Rightarrow> Inl SyntaxError
          | Some None \<Rightarrow> Inr (i, s1)
          | Some (Some e) \<Rightarrow>
              (case getConfig h json (bs_page s) (NAME cls) (Default cls) (DefaultType cls) (configAfterMerge cls) config (Some e) of
                 Inl err \<Rightarrow> Inl (TypeError err)
               | Inr c \<Rightarrow> Inr (i, s1\<lparr>objects := (objects s1)(i := \<lparr>el = Some e, cfg = c\<rparr>),
                                     bs_data := Data_set e (DATA_KEY cls) i (bs_data s1)\<rparr>))))"

definition getInstance :: "host \<Rightarrow> component_class \<Rightarrow> jsval \<Rightarrow> bs_state \<Rightarrow> js_error + nat option" where
  "getInstance h cls element s =
     (case getElement h (bs_page s) element of
        None \<Rightarrow> Inl SyntaxError
      | Some None \<Rightarrow> Inr None
      | Some (Some e) \<Rightarrow> Inr (Data_get (bs_data s) e (DATA_KEY cls)))"

definition getOrCreateInstance ::
  "host \<Rightarrow> (string \<Rightarrow> jsval option) \<Rightarrow> component_class \<Rightarrow> jsval \<Rightarrow> jsval \<Rightarrow> bs_state \<Rightarrow> js_error + nat \<times> bs_state" where
  "getOrCreateInstance h json cls element config s =
     (case getInstance h cls element s of
        Inl err \<Rightarrow> Inl err
      | Inr (Some i) \<Rightarrow> Inr (i, s)
      | Inr None \<Rightarrow> construct h json cls element (if typeof_object config then config else JNull) s)"

definition dispose :: "component_class \<Rightarrow> nat \<Rightarrow> bs_state \<Rightarrow> bs_state" where
  "dispose cls i s =
     (case el (objects s i) of
        None \<Rightarrow> s\<lparr>objects := (objects s)(i := null_object)\<rparr>
      | Some e \<Rightarrow> s\<lparr>bs_data := Data_remove e (DATA_KEY cls) (bs_data s),
                     bs_events := EventHandler_off e (EVENT_KEY cls) NoHandler None (bs_events s),
                     objects := (objects s)(i := null_object)\<rparr>)"

section \<open>Selectors\<close>

definition getSelector :: "host \<Rightarrow> page \<Rightarrow> elem \<Rightarrow> string option" where
  "getSelector h p element =
     (let target = getAttribute p element ''data-bs-target'';
          selector =
            (if target = None \<or> target = Some [] \<or> target = Some ''#'' then
               (case getAttribute p element ''href'' of
                  None \<Rightarrow> None
                | Some href \<Rightarrow>
                    if href = [] \<or> \<not> str_includes href ''#'' \<and> \<not> startsWith href ''.'' then None
                    else (let anchor = (if str_includes href ''#'' \<and> \<not> startsWith href ''#''
                                        then ''#'' @ split_on (CHR ''#'') href ! 1 else href)
                          in if anchor \<noteq> [] \<and> anchor \<noteq> ''#'' then Some (str_trim anchor) else None))
             else target)
      in (case selector of
            None \<Rightarrow> None
          | Some s \<Rightarrow> if s = [] then None else Some (join_with '','' (map (parseSelector h) (split_on (CHR '','') s)))))"

text \<open>
  \<open>SelectorEngine\<close>.  Selector texts go through the browser's parser; a text it refuses makes the
  query throw, the outer \<open>None\<close>.
\<close>

definition SE_find :: "page \<Rightarrow> elem \<Rightarrow> selector \<Rightarrow> elem list" where
  "SE_find p element sel = querySelectorAll p element sel"

definition SE_findOne :: "page \<Rightarrow> elem \<Rightarrow> selector \<Rightarrow> elem option" where
  "SE_findOne p element sel = querySelector p element sel"

definition SE_children :: "page \<Rightarrow> elem \<Rightarrow> selector \<Rightarrow> elem list" where
  "SE_children p element sel = filter (matches p sel) (children p element)"

text \<open>The loop walks from match to match; each step continues above the last match.\<close>

fun parents_from :: "page \<Rightarrow> selector \<Rightarrow> elem list \<Rightarrow> elem list" where
  "parents_from p sel [] = []"
| "parents_from p sel (x # up) = (if matches p sel x then x # parents_from p sel up else parents_from p sel up)"

definition SE_parents :: "page \<Rightarrow> elem \<Rightarrow> selector \<Rightarrow> elem list" where
  "SE_parents p element sel = parents_from p sel (drop 1 (chain element (tree p)))"

definition siblings_before :: "page \<Rightarrow> elem \<Rightarrow> elem list" where
  "siblings_before p element =
     (case parentNode p element of None \<Rightarrow> [] | Some q \<Rightarrow> rev (takeWhile (\<lambda>x. x \<noteq> element) (children p q)))"

definition siblings_after :: "page \<Rightarrow> elem \<Rightarrow> elem list" where
  "siblings_after p element =
     (case parentNode p element of None \<Rightarrow> [] | Some q \<Rightarrow> drop 1 (dropWhile (\<lambda>x. x \<noteq> element) (children p q)))"

fun first_matching :: "page \<Rightarrow> selector \<Rightarrow> elem list \<Rightarrow> elem list" where
  "first_matching p sel [] = []"
| "first_matching p sel (x # xs) = (if matches p sel x then [x] else first_matching p sel xs)"

definition SE_prev :: "page \<Rightarrow> elem \<Rightarrow> selector \<Rightarrow> elem list" where
  "SE_prev p element sel = first_matching p sel (siblings_before p element)"

definition SE_next :: "page \<Rightarrow> elem \<Rightarrow> selector \<Rightarrow> elem list" where
  "SE_next p element sel = first_matching p sel (siblings_after p element)"

text \<open>
  The focusable selector: each of the eight alternatives without a negative \<open>tabindex\<close>.  The
  attribute-prefix test is outside the selector datatype and is applied to the element.
\<close>

definition focusable_sel :: selector where
  "focusable_sel = [[[SelTag ''a'']], [[SelTag ''button'']], [[SelTag ''input'']], [[SelTag ''textarea'']], [[SelTag ''select'']],
     [[SelTag ''details'']], [[SelHasAttr ''tabindex'']], [[SelAttr ''contenteditable'' ''true'']]]"

definition negative_tabindex :: "page \<Rightarrow> elem \<Rightarrow> bool" where
  "negative_tabindex p e = (case getAttribute p e ''tabindex'' of None \<Rightarrow> False | Some v \<Rightarrow> startsWith v ''-'')"

definition focusableChildren :: "host \<Rightarrow> page \<Rightarrow> elem \<Rightarrow> elem list" where
  "focusableChildren h p element =
     filter (\<lambda>x. \<not> isDisabled h p (Some x) \<and> isVisible h p (JElem x))
       (filter (\<lambda>x. \<not> negative_tabindex p x) (SE_find p element focusable_sel))"

definition doc_root :: "page \<Rightarrow> elem" where
  "doc_root p = eid (tree p)"

definition getSelectorFromElement :: "host \<Rightarrow> page \<Rightarrow> elem \<Rightarrow> string option option" where
  "getSelectorFromElement h p element =
     (case getSelector h p element of
        None \<Rightarrow> Some None
      | Some s \<Rightarrow> map_option (\<lambda>sel. if SE_findOne p (doc_root p) sel \<noteq> None then Some s else None) (parse_sel h s))"

definition getElementFromSelector :: "host \<Rightarrow> page \<Rightarrow> elem \<Rightarrow> elem option option" where
  "getElementFromSelector h p element =
     (case getSelector h p element of
        None \<Rightarrow> Some None
      | Some s \<Rightarrow> map_option (\<lambda>sel. SE_findOne p (doc_root p) sel) (parse_sel h s))"

definition getMultipleElementsFromSelector :: "host \<Rightarrow> page \<Rightarrow> elem \<Rightarrow> elem list option" where
  "getMultipleElementsFromSelector h p element =
     (case getSelector h p element of
        None \<Rightarrow> Some []
      | Some s \<Rightarrow> map_option (\<lambda>sel. SE_find p (doc_root p) sel) (parse_sel h s))"

section \<open>The dismiss trigger\<close>

text \<open>What a click on a \<open>[data-bs-dismiss]\<close> element leads to.\<close>

datatype dismissal = Ignored | Dismiss "elem option" | Thrown

definition dismiss_click :: "host \<Rightarrow> page \<Rightarrow> string \<Rightarrow> elem \<Rightarrow> bool \<times> dismissal" where
  "dismiss_click h p name this =
     (tagName (nodes p this) \<in> {''A'', ''AREA''},
      if isDisabled h p (Some this) then Ignored
      else (case getElementFromSelector h p this of
              None \<Rightarrow> Thrown
            | Some (Some target) \<Rightarrow> Dismiss (Some target)
            | Some None \<Rightarrow> Dismiss (closest p [[[SelClass name]]] this)))"

section \<open>Properties\<close>

lemma SE_parents_filter: "SE_parents p e sel = filter (matches p sel) (drop 1 (chain e (tree p)))"
proof -
  have "parents_from p sel xs = filter (matches p sel) xs" for xs by (induction xs) auto
  then show ?thesis by (simp add: SE_parents_def)
qed

lemma first_matching_first_of: "first_matching p sel xs = (case first_of (filter (matches p sel) xs) of None \<Rightarrow> [] | Some x \<Rightarrow> [x])"
  by (induction xs) (auto simp: first_of_def)

definition bs_ok :: "bs_state \<Rightarrow> bool" where
  "bs_ok s = (one_instance (bs_data s) \<and> ev_inv (bs_events s))"

lemma bs_ok_dispose: "bs_ok s \<Longrightarrow> bs_ok (dispose cls i s)"
  by (auto simp: bs_ok_def dispose_def data.inv_remove ev_inv_off split: option.splits)

lemma bs_ok_construct: "bs_ok s \<Longrightarrow> construct h json cls element config s = Inr (i, s') \<Longrightarrow> bs_ok s'"
  by (auto simp: bs_ok_def construct_def Let_def data.inv_set split: option.splits sum.splits)

lemma getElement_elem [simp]: "getElement h p (JElem e) = Some (Some e)"
  by (simp add: getElement_def)

lemma construct_data:
  assumes "bs_ok s" "construct h json cls (JElem e) config s = Inr (i, s')"
    and "\<And>k. Data_get (bs_data s) e k = None"
  shows "Data_get (bs_data s') e (DATA_KEY cls) = Some i" "el (objects s' i) = Some e" "bs_page s' = bs_page s"
    "bs_events s' = bs_events s"
  using assms(2,3) data.bind_free(1) [of "bs_data s" e "DATA_KEY cls" i] assms(1)
  by (auto simp: construct_def Let_def bs_ok_def split: sum.splits)

text \<open>
  \<open>getOrCreateInstance\<close> yields one instance per element.  On an element that carries no other
  component the second call returns the instance of the first and changes nothing, whatever
  configuration it is given.
\<close>

theorem get_or_create_idempotent:
  assumes "bs_ok s" and "\<And>k. Data_get (bs_data s) e k = None"
    and "getOrCreateInstance h json cls (JElem e) config s = Inr (i, s')"
  shows "getOrCreateInstance h json cls (JElem e) config' s' = Inr (i, s')"
proof -
  have "construct h json cls (JElem e) (if typeof_object config then config else JNull) s = Inr (i, s')"
    using assms(2,3) by (simp add: getOrCreateInstance_def getInstance_def)
  from construct_data(1) [OF assms(1) this assms(2)] show ?thesis
    by (simp add: getOrCreateInstance_def getInstance_def)
qed

definition alert_class :: component_class where
  "alert_class = \<lparr>NAME = ''alert'', Default = [], DefaultType = [], configAfterMerge = id\<rparr>"

definition demo_bs :: bs_state where
  "demo_bs = \<lparr>bs_page = click_page, bs_data = empty_data, bs_events = no_events, objects = (\<lambda>_. null_object), next_object = 5\<rparr>"

lemma bs_ok_demo: "bs_ok demo_bs"
  by (simp add: bs_ok_def demo_bs_def one_instance_empty ev_inv_no_events)

lemma demo_create:
  "\<exists>s'. getOrCreateInstance h (\<lambda>_. None) alert_class (JElem 3) JUndef demo_bs = Inr (5, s')"
  by (simp add: getOrCreateInstance_def getInstance_def demo_bs_def Data_get_def empty_data_def construct_def
      getConfig_def alert_class_def Let_def)

theorem get_or_create_idempotent_witness:
  "\<exists>s'. getOrCreateInstance quiet_host (\<lambda>_. None) alert_class (JElem 3) JNull s' = Inr (5, s')"
proof -
  obtain s' where c: "getOrCreateInstance quiet_host (\<lambda>_. None) alert_class (JElem 3) JUndef demo_bs = Inr (5, s')"
    using demo_create by blast
  have "Data_get (bs_data demo_bs) 3 k = None" for k by (simp add: demo_bs_def Data_get_def empty_data_def)
  from get_or_create_idempotent [OF bs_ok_demo this c] show ?thesis by blast
qed

text \<open>
  \<open>dispose\<close> leaves no trace of the component on its element.  Afterwards the element has no
  instance of the class, none of its handlers' keys contains the component's key, and a new
  instance of any class can be created there.
\<close>

theorem dispose_leaves_no_trace:
  assumes "bs_ok s" and "el (objects s i) = Some e" and "Data_get (bs_data s) e (DATA_KEY cls) = Some i"
    and "handlers_of (bs_events s) e (EVENT_KEY cls) = []"
  shows "Data_get (bs_data (dispose cls i s)) e k = None
    \<and> list_all (\<lambda>kf. \<not> str_includes (fst kf) (DATA_KEY cls)) (handlers_of (bs_events (dispose cls i s)) e t)
    \<and> el (objects (dispose cls i s) i) = None"
proof -
  have d: "one_instance (bs_data s)" and v: "ev_inv (bs_events s)" using assms(1) by (simp_all add: bs_ok_def)
  have "Data_get (bs_data (dispose cls i s)) e k = None"
    using data.get_remove [OF d, of e "DATA_KEY cls" e k] data.exclusive [OF d, of e k "DATA_KEY cls"] assms(2,3)
    by (cases "Data_get (bs_data s) e k") (auto simp: dispose_def)
  moreover have "EVENT_KEY cls = CHR ''.'' # DATA_KEY cls" by (simp add: EVENT_KEY_def)
  ultimately show ?thesis
    using off_namespace_handlers [OF v, of e "DATA_KEY cls" e t] assms(2,4)
    by (simp add: dispose_def list_all_iff null_object_def)
qed

definition busy_bs :: bs_state where
  "busy_bs = demo_bs\<lparr>bs_data := Data_set 3 ''bs.alert'' 5 empty_data,
     bs_events := EventHandler_on 3 ''click.bs.alert'' (Callable (Fn 7)) None no_events,
     objects := (\<lambda>_. \<lparr>el = Some 3, cfg = []\<rparr>)\<rparr>"

theorem dispose_leaves_no_trace_witness:
  "Data_get (bs_data (dispose alert_class 5 busy_bs)) 3 ''bs.alert'' = None
   \<and> list_all (\<lambda>kf. \<not> str_includes (fst kf) (DATA_KEY alert_class)) (handlers_of (bs_events (dispose alert_class 5 busy_bs)) 3 ''click'')
   \<and> el (objects (dispose alert_class 5 busy_bs) 5) = None"
proof (rule dispose_leaves_no_trace)
  show "bs_ok busy_bs"
    by (simp add: bs_ok_def busy_bs_def data.inv_set one_instance_empty EventHandler_on_def ev_inv_addHandler ev_inv_no_events)
  show "el (objects busy_bs 5) = Some 3" by (simp add: busy_bs_def)
  show "Data_get (bs_data busy_bs) 3 (DATA_KEY alert_class) = Some 5" by code_simp
  show "handlers_of (bs_events busy_bs) 3 (EVENT_KEY alert_class) = []" by code_simp
qed

end
