(* ===== verification/Bs_Alert.thy ===== *)
theory Bs_Alert
  imports Bs_Base
begin

text \<open>
  Bootstrap's \<open>alert.js\<close> and \<open>button.js\<close> in \<open>bootstrap.bundle.js\<close>: closing an alert, with the
  veto, the fade and the removal of the element, and toggling a button.
\<close>

section \<open>Alert\<close>

text \<open>The one callback an alert queues is \<open>_destroyElement\<close> of the instance.\<close>

datatype alert_callback = DestroyElement nat

record alert_state =
  a_bs :: bs_state
  a_pending :: "alert_callback pending"

definition destroyElement :: "host \<Rightarrow> nat \<Rightarrow> bs_state \<Rightarrow> bs_state" where
  "destroyElement h i s =
     (case el (objects s i) of
        None \<Rightarrow> s
      | Some e \<Rightarrow> dispose alert_class i (s\<lparr>bs_page := triggering h e ''closed.bs.alert'' (remove_el e (bs_page s))\<rparr>))"

fun alert_call :: "host \<Rightarrow> alert_state \<Rightarrow> alert_callback \<Rightarrow> alert_state" where
  "alert_call h a (DestroyElement i) = a\<lparr>a_bs := destroyElement h i (a_bs a)\<rparr>"

definition alert_queue :: "host \<Rightarrow> alert_callback \<Rightarrow> elem \<Rightarrow> bool \<Rightarrow> alert_state \<Rightarrow> alert_state" where
  "alert_queue h cb e isAnimated a =
     (if isAnimated then a\<lparr>a_pending := a_pending a @ [(e, cb)]\<rparr> else alert_call h a cb)"

definition alert_close :: "host \<Rightarrow> nat \<Rightarrow> alert_state \<Rightarrow> alert_state" where
  "alert_close h i a =
     (case el (objects (a_bs a) i) of
        None \<Rightarrow> a
      | Some e \<Rightarrow>
          (let s = a_bs a; p1 = triggering h e ''close.bs.alert'' (bs_page s)
           in if prevented_by h e ''close.bs.alert'' (bs_page s) then a\<lparr>a_bs := s\<lparr>bs_page := p1\<rparr>\<rparr>
              else (let p2 = remove_class e ''show'' p1
                    in alert_queue h (DestroyElement i) e (has_class p2 e ''fade'') (a\<lparr>a_bs := s\<lparr>bs_page := p2\<rparr>\<rparr>))))"

definition alert_transition_end :: "host \<Rightarrow> elem \<Rightarrow> alert_state \<Rightarrow> alert_state" where
  "alert_transition_end h e a =
     foldl (alert_call h) (a\<lparr>a_pending := not_due e (a_pending a)\<rparr>) (due e (a_pending a))"

text \<open>
  Closing an alert removes it unless a listener objects.  With no veto the element is out of
  its parent's children, at once without the fade and after the transition with it, the
  instance is gone from the table, and the \<open>close\<close> and \<open>closed\<close> events were sent in this order;
  with a veto the page keeps the alert shown.
\<close>

theorem alert_close_removes:
  assumes "bs_ok (a_bs a)" "el (objects (a_bs a) i) = Some e" "a_pending a = []" "jquery h = None"
    and "q \<noteq> e" "e \<notin> set (chain q (tree (bs_page (a_bs a))))"
    and "Data_get (bs_data (a_bs a)) e (DATA_KEY alert_class) = Some i"
    and "final = alert_transition_end h e (alert_close h i a)"
  shows "if cancels h e ''close.bs.alert''
     then children (bs_page (a_bs final)) q = children (bs_page (a_bs a)) q
       \<and> has_class (bs_page (a_bs final)) e ''show'' = has_class (bs_page (a_bs a)) e ''show''
       \<and> Data_get (bs_data (a_bs final)) e (DATA_KEY alert_class) = Some i
     else children (bs_page (a_bs final)) q = filter (\<lambda>x. x \<noteq> e) (children (bs_page (a_bs a)) q)
       \<and> Data_get (bs_data (a_bs final)) e k = None
       \<and> ev_log (bs_page (a_bs final)) = ev_log (bs_page (a_bs a)) @ [(e, ''close.bs.alert''), (e, ''closed.bs.alert'')]"
proof -
  let ?s = "a_bs a"
  have trig: "prevented_by h e ev p = cancels h e ev" "triggering h e ev p = p\<lparr>ev_log := ev_log p @ [(e, ev)]\<rparr>" for e ev p
    using assms(4) by (simp_all add: trigger_def Let_def)
  show ?thesis
  proof (cases "cancels h e ''close.bs.alert''")
    case True
    then show ?thesis using assms(2,3,7,8)
      by (simp add: alert_close_def trig Let_def alert_transition_end_def not_due_def due_def children_def has_class_def)
  next
    case False
    let ?p = "remove_class e ''show'' (triggering h e ''close.bs.alert'' (bs_page ?s))"
    let ?d = "destroyElement h i (?s\<lparr>bs_page := ?p\<rparr>)"
    have "final = a\<lparr>a_bs := ?d\<rparr>"
      using False assms(2,3,8)
      by (auto simp: alert_close_def trig Let_def alert_transition_end_def not_due_def due_def alert_queue_def)
    then have f: "a_bs final = ?d" by simp
    have page: "bs_page ?d = triggering h e ''closed.bs.alert'' (remove_el e ?p)"
      using assms(2) by (simp add: destroyElement_def dispose_def)
    have d: "one_instance (bs_data ?s)" using assms(1) by (simp add: bs_ok_def)
    have "bs_data ?d = Data_remove e (DATA_KEY alert_class) (bs_data ?s)"
      using assms(2) by (simp add: destroyElement_def dispose_def)
    then have "Data_get (bs_data ?d) e k = None"
      using data.get_remove [OF d, of e "DATA_KEY alert_class" e k] data.exclusive [OF d, of e k "DATA_KEY alert_class"] assms(7)
      by (cases "Data_get (bs_data ?s) e k") auto
    moreover have "children (bs_page ?d) q = filter (\<lambda>x. x \<noteq> e) (children (bs_page ?s) q)"
    proof -
      have t: "tree ?p = tree (bs_page ?s)" by (simp add: dom_simps)
      then have "children (remove_el e ?p) q = filter (\<lambda>x. x \<noteq> e) (children ?p q)"
        using assms(6) by (simp add: children_remove_el)
      then show ?thesis using t by (simp add: page children_def dom_simps)
    qed
    moreover have "ev_log (bs_page ?d) = ev_log (bs_page ?s) @ [(e, ''close.bs.alert''), (e, ''closed.bs.alert'')]"
      unfolding page by (simp add: trig dom_simps)
    ultimately show ?thesis using False by (simp add: f)
  qed
qed

definition alert_demo :: alert_state where
  "alert_demo = \<lparr>a_bs = busy_bs, a_pending = []\<rparr>"

theorem alert_close_removes_witness:
  "children (bs_page (a_bs (alert_transition_end quiet_host 3 (alert_close quiet_host 5 alert_demo)))) 2 = [5]"
proof -
  have ok: "bs_ok (a_bs alert_demo)"
    by (simp add: alert_demo_def bs_ok_def busy_bs_def data.inv_set one_instance_empty EventHandler_on_def ev_inv_addHandler ev_inv_no_events)
  have "el (objects (a_bs alert_demo) 5) = Some 3" "a_pending alert_demo = []" "jquery quiet_host = None"
    "3 \<notin> set (chain 2 (tree (bs_page (a_bs alert_demo))))"
    "Data_get (bs_data (a_bs alert_demo)) 3 (DATA_KEY alert_class) = Some 5"
    by code_simp+
  from alert_close_removes [OF ok this(1-3) _ this(4,5) refl, of "[]"]
  have "children (bs_page (a_bs (alert_transition_end quiet_host 3 (alert_close quiet_host 5 alert_demo)))) 2
      = filter (\<lambda>x. x \<noteq> 3) (children (bs_page (a_bs alert_demo)) 2)"
    by (simp add: quiet_host_def)
  moreover have "children (bs_page (a_bs alert_demo)) 2 = [3, 5]" by code_simp
  ultimately show ?thesis by simp
qed

section \<open>Button\<close>

definition button_sel :: selector where
  "button_sel = [[[SelAttr ''data-bs-toggle'' ''button'']]]"

definition button_toggle :: "elem \<Rightarrow> page \<Rightarrow> page" where
  "button_toggle e p =
     (let (active, p1) = toggle_class e ''active'' p in setAttribute e ''aria-pressed'' (bool_str active) p1)"

definition button_class :: component_class where
  "button_class = \<lparr>NAME = ''button'', Default = [], DefaultType = [], configAfterMerge = id\<rparr>"

text \<open>The click handler: the delegated event's target lies inside a toggle button.\<close>

definition button_click :: "host \<Rightarrow> (string \<Rightarrow> jsval option) \<Rightarrow> elem \<Rightarrow> bs_state \<Rightarrow> js_error + bs_state" where
  "button_click h json target s =
     (let button = (case closest (bs_page s) button_sel target of None \<Rightarrow> JNull | Some b \<Rightarrow> JElem b)
      in (case getOrCreateInstance h json button_class button (JObj []) s of
            Inl err \<Rightarrow> Inl err
          | Inr (i, s1) \<Rightarrow>
              (case el (objects s1 i) of
                 None \<Rightarrow> Inl (TypeError ''Cannot read properties of undefined'')
               | Some e \<Rightarrow> Inr (s1\<lparr>bs_page := button_toggle e (bs_page s1)\<rparr>))))"

text \<open>
  A toggle button's \<open>aria-pressed\<close> always tells the truth.  After a toggle the attribute is
  "true" exactly when the button has the class \<open>active\<close>, and a second toggle restores the class.
\<close>

theorem button_toggle_in_sync:
  "getAttribute (button_toggle e p) e ''aria-pressed'' = Some (bool_str (has_class (button_toggle e p) e ''active''))
   \<and> has_class (button_toggle e p) e ''active'' = (\<not> has_class p e ''active'')
   \<and> has_class (button_toggle e (button_toggle e p)) e ''active'' = has_class p e ''active''"
  by (simp add: button_toggle_def toggle_class_def Let_def dom_simps)

end
