(* ===== verification/Bs_Carousel.thy ===== *)
theory Bs_Carousel
  imports Bs_Base
begin

text \<open>
  Bootstrap's \<open>util/swipe.js\<close> and \<open>carousel.js\<close> in \<open>bootstrap.bundle.js\<close>.  The swipe helper turns
  pointer and touch events into swipes.  The carousel is a state machine: a slide is vetoable, runs
  behind a transition, and operations that arrive while it slides are dropped or postponed to
  the \<open>slid\<close> event.  Timers and transitions are steps of their own.
\<close>

section \<open>Swipe\<close>

record swipe =
  deltaX :: rat
  supportPointerEvents :: bool

record touch_event =
  pointerType :: string
  clientX :: rat
  touches :: "rat list"

datatype swipe_call = LeftCallback | RightCallback | EndCallback

definition SWIPE_THRESHOLD :: rat where
  "SWIPE_THRESHOLD = 40"

definition eventIsPointerPenTouch :: "touch_event \<Rightarrow> swipe \<Rightarrow> bool" where
  "eventIsPointerPenTouch event sw = (supportPointerEvents sw \<and> (pointerType event = ''pen'' \<or> pointerType event = ''touch''))"

text \<open>A touch event has at least one touch, the first one here.\<close>

definition swipe_start :: "touch_event \<Rightarrow> swipe \<Rightarrow> swipe" where
  "swipe_start event sw =
     (if \<not> supportPointerEvents sw then sw\<lparr>deltaX := hd (touches event)\<rparr>
      else if eventIsPointerPenTouch event sw then sw\<lparr>deltaX := clientX event\<rparr> else sw)"

definition swipe_move :: "touch_event \<Rightarrow> swipe \<Rightarrow> swipe" where
  "swipe_move event sw =
     sw\<lparr>deltaX := (if length (touches event) > 1 then 0 else hd (touches event) - deltaX sw)\<rparr>"

definition handleSwipe :: "swipe \<Rightarrow> swipe_call list \<times> swipe" where
  "handleSwipe sw =
     (let absDeltaX = abs (deltaX sw)
      in if absDeltaX \<le> SWIPE_THRESHOLD then ([], sw)
         else (let direction = absDeltaX / deltaX sw; sw1 = sw\<lparr>deltaX := 0\<rparr>
               in if direction = 0 then ([], sw1)
                  else ([if direction > 0 then RightCallback else LeftCallback], sw1)))"

definition swipe_end :: "touch_event \<Rightarrow> swipe \<Rightarrow> swipe_call list \<times> swipe" where
  "swipe_end event sw =
     (let sw1 = (if eventIsPointerPenTouch event sw then sw\<lparr>deltaX := clientX event - deltaX sw\<rparr> else sw);
          (calls, sw2) = handleSwipe sw1
      in (calls @ [EndCallback], sw2))"

text \<open>The listeners \<open>_initEvents\<close> installs, by event name.\<close>

definition swipe_initEvents :: "elem \<Rightarrow> nat \<Rightarrow> nat \<Rightarrow> nat \<Rightarrow> swipe \<Rightarrow> ev_state \<times> page \<Rightarrow> ev_state \<times> page" where
  "swipe_initEvents element start_fn move_fn end_fn sw sp =
     (let (s, p) = sp
      in if supportPointerEvents sw
         then (EventHandler_on element ''pointerup.bs.swipe'' (Callable (Fn end_fn)) None
                (EventHandler_on element ''pointerdown.bs.swipe'' (Callable (Fn start_fn)) None s),
               add_class element ''pointer-event'' p)
         else (EventHandler_on element ''touchend.bs.swipe'' (Callable (Fn end_fn)) None
                (EventHandler_on element ''touchmove.bs.swipe'' (Callable (Fn move_fn)) None
                  (EventHandler_on element ''touchstart.bs.swipe'' (Callable (Fn start_fn)) None s)), p))"

definition swipe_dispose :: "elem \<Rightarrow> ev_state \<Rightarrow> ev_state" where
  "swipe_dispose element s = EventHandler_off element ''.bs.swipe'' NoHandler None s"

text \<open>
  With pointer events a swipe is the displacement between pointer-down and pointer-up: more
  than 40 pixels to the right calls the right callback, to the left the left one, anything
  shorter neither, and the end callback always comes last.
\<close>

theorem swipe_is_displacement:
  assumes "supportPointerEvents sw" "pointerType down = ''touch''" "pointerType up = ''touch''"
  shows "fst (swipe_end up (swipe_start down sw)) =
     (if clientX up - clientX down > 40 then [RightCallback]
      else if clientX up - clientX down < -40 then [LeftCallback] else []) @ [EndCallback]"
proof -
  let ?d = "clientX up - clientX down"
  have d: "deltaX (swipe_start down sw) = clientX down" "eventIsPointerPenTouch up (swipe_start down sw)"
    using assms by (simp_all add: swipe_start_def eventIsPointerPenTouch_def)
  have "abs ?d / ?d = (if ?d > 0 then 1 else -1)" if "abs ?d > 40" using that by (auto simp: field_simps)
  then have "fst (handleSwipe (swipe_start down sw\<lparr>deltaX := ?d\<rparr>)) =
      (if ?d > 40 then [RightCallback] else if ?d < -40 then [LeftCallback] else [])"
    by (auto simp: handleSwipe_def Let_def SWIPE_THRESHOLD_def)
  then show ?thesis by (simp add: swipe_end_def d Let_def case_prod_unfold)
qed

theorem swipe_is_displacement_witness:
  "fst (swipe_end \<lparr>pointerType = ''touch'', clientX = 20, touches = []\<rparr>
     (swipe_start \<lparr>pointerType = ''touch'', clientX = 100, touches = []\<rparr> \<lparr>deltaX = 0, supportPointerEvents = True\<rparr>))
   = [LeftCallback, EndCallback]"
  using swipe_is_displacement [of "\<lparr>deltaX = 0, supportPointerEvents = True\<rparr>" "\<lparr>pointerType = ''touch'', clientX = 100, touches = []\<rparr>"
      "\<lparr>pointerType = ''touch'', clientX = 20, touches = []\<rparr>"] by simp

text \<open>
  Without pointer events the second \<open>touchmove\<close> corrupts the displacement.  \<open>_move\<close> subtracts
  the previous difference instead of the start position, so a finger that moves from x to
  x + d and on to x + 2d ends with x + d recorded: any touch beyond the first 40 pixels of the
  screen is taken for a swipe to the right, even one that does not move at all (d = 0).
\<close>

theorem touchmove_corrupts_displacement:
  "x + d > 40 \<longrightarrow>
   fst (swipe_end ev (swipe_move \<lparr>pointerType = [], clientX = 0, touches = [x + 2 * d]\<rparr>
     (swipe_move \<lparr>pointerType = [], clientX = 0, touches = [x + d]\<rparr>
       (swipe_start \<lparr>pointerType = [], clientX = 0, touches = [x]\<rparr> \<lparr>deltaX = 0, supportPointerEvents = False\<rparr>))))
   = [RightCallback, EndCallback]"
  by (auto simp: swipe_start_def swipe_move_def swipe_end_def handleSwipe_def eventIsPointerPenTouch_def SWIPE_THRESHOLD_def Let_def
      field_simps)

theorem touchmove_corrupts_displacement_witness:
  "fst (swipe_end \<lparr>pointerType = [], clientX = 0, touches = []\<rparr> (swipe_move \<lparr>pointerType = [], clientX = 0, touches = [100 + 2 * 0]\<rparr>
     (swipe_move \<lparr>pointerType = [], clientX = 0, touches = [100 + 0]\<rparr>
       (swipe_start \<lparr>pointerType = [], clientX = 0, touches = [100]\<rparr> \<lparr>deltaX = 0, supportPointerEvents = False\<rparr>))))
   = [RightCallback, EndCallback]"
  using touchmove_corrupts_displacement [of 100 0] by simp

section \<open>The carousel\<close>

text \<open>The argument of \<open>to\<close>: a number, or the text of \<open>data-bs-slide-to\<close>.\<close>

datatype slide_index = IdxNum rat | IdxText string

text \<open>\<open>Number(s)\<close> for decimal texts, \<open>None\<close> for \<open>NaN\<close>.\<close>

definition js_Number :: "string \<Rightarrow> rat option" where
  "js_Number s =
     (let t = str_trim s; u = snd (read_sign t); r = dropWhile is_digit u;
          frac = (if startsWith r ''.'' then dropWhile is_digit (drop 1 r) else r)
      in if t = [] then Some 0 else if frac = [] then parseFloat t else None)"

definition idx_value :: "slide_index \<Rightarrow> rat option" where
  "idx_value i = (case i of IdxNum r \<Rightarrow> Some r | IdxText s \<Rightarrow> js_Number s)"

text \<open>\<open>items[index]\<close>: only the canonical text of an array index finds an item.\<close>

definition idx_at :: "elem list \<Rightarrow> slide_index \<Rightarrow> elem option" where
  "idx_at items i =
     (case i of
        IdxNum r \<Rightarrow> if r = of_int (floor r) then at_index items (floor r) else None
      | IdxText s \<Rightarrow> if s \<noteq> [] \<and> list_all is_digit s \<and> digits (digits_value s) = s
                     then at_index items (int (digits_value s)) else None)"

datatype slid_action = DoCycle | DoTo slide_index

text \<open>\<open>completeCallBack\<close> of a slide, with what it closes over.\<close>

datatype completion = Complete (to_item: elem) (from_item: elem) (forward: bool)

record carousel =
  cp :: page
  c_element :: elem
  wrap :: bool
  ride :: jsval
  keyboard :: bool
  pause_mode :: jsval
  interval :: jsval
  defaultInterval :: jsval
  c_interval :: "jsval option"
  activeElement :: "elem option"
  isSliding :: bool
  indicatorsElement :: "elem option"
  c_pending :: "completion pending"
  slid_handlers :: "slid_action list"
  touchTimeout :: bool
  thrown :: bool

definition SELECTOR_ITEM :: selector where
  "SELECTOR_ITEM = [[[SelClass ''carousel-item'']]]"

definition SELECTOR_ACTIVE_ITEM :: selector where
  "SELECTOR_ACTIVE_ITEM = [[[SelClass ''active'', SelClass ''carousel-item'']]]"

definition getItems :: "carousel \<Rightarrow> elem list" where
  "getItems c = querySelectorAll (cp c) (c_element c) SELECTOR_ITEM"

definition getActive :: "carousel \<Rightarrow> elem option" where
  "getActive c = querySelector (cp c) (c_element c) SELECTOR_ACTIVE_ITEM"

definition getItemIndex :: "carousel \<Rightarrow> elem option \<Rightarrow> int" where
  "getItemIndex c e = indexOf (map Some (getItems c)) e"

definition isAnimated :: "carousel \<Rightarrow> bool" where
  "isAnimated c = has_class (cp c) (c_element c) ''slide''"

definition clearInterval :: "carousel \<Rightarrow> carousel" where
  "clearInterval c = c\<lparr>c_interval := None\<rparr>"

definition updateInterval :: "carousel \<Rightarrow> carousel" where
  "updateInterval c =
     (case (case activeElement c of Some e \<Rightarrow> Some e | None \<Rightarrow> getActive c) of
        None \<Rightarrow> c
      | Some e \<Rightarrow>
          (case Option.bind (getAttribute (cp c) e ''data-bs-interval'') parseInt of
             None \<Rightarrow> c\<lparr>interval := defaultInterval c\<rparr>
           | Some n \<Rightarrow> c\<lparr>interval := (if n = 0 then defaultInterval c else JNum (of_int n))\<rparr>))"

definition cycle :: "carousel \<Rightarrow> carousel" where
  "cycle c = (let c1 = updateInterval (clearInterval c) in c1\<lparr>c_interval := Some (interval c1)\<rparr>)"

definition maybeEnableCycle :: "carousel \<Rightarrow> carousel" where
  "maybeEnableCycle c =
     (if \<not> js_truthy (ride c) then c
      else if isSliding c then c\<lparr>slid_handlers := slid_handlers c @ [DoCycle]\<rparr>
      else cycle c)"

definition int_text :: "int \<Rightarrow> string" where
  "int_text i = (if i < 0 then ''-'' @ digits (nat (- i)) else digits (nat i))"

text \<open>\<open>_setActiveIndicatorElement\<close>; \<open>False\<close> is the exception when no indicator is active.\<close>

definition setActiveIndicatorElement :: "int \<Rightarrow> carousel \<Rightarrow> bool \<times> carousel" where
  "setActiveIndicatorElement index c =
     (case indicatorsElement c of
        None \<Rightarrow> (True, c)
      | Some ind \<Rightarrow>
          (case querySelector (cp c) ind [[[SelClass ''active'']]] of
             None \<Rightarrow> (False, c)
           | Some activeIndicator \<Rightarrow>
               (let p1 = removeAttribute activeIndicator ''aria-current'' (remove_class activeIndicator ''active'' (cp c))
                in (True, c\<lparr>cp := (case querySelector p1 ind [[[SelAttr ''data-bs-slide-to'' (int_text index)]]] of
                      None \<Rightarrow> p1
                    | Some new \<Rightarrow> setAttribute new ''aria-current'' ''true'' (add_class new ''active'' p1))\<rparr>))))"

definition directional_class :: "bool \<Rightarrow> string" where
  "directional_class isNext = (if isNext then ''carousel-item-start'' else ''carousel-item-end'')"

definition order_class :: "bool \<Rightarrow> string" where
  "order_class isNext = (if isNext then ''carousel-item-next'' else ''carousel-item-prev'')"

text \<open>The part of \<open>completeCallBack\<close> before the listeners of \<open>slid\<close> run.\<close>

definition complete_core :: "host \<Rightarrow> completion \<Rightarrow> carousel \<Rightarrow> carousel" where
  "complete_core h cb c =
     (let d = directional_class (forward cb); r = order_class (forward cb); nxt = to_item cb; act = from_item cb;
          p1 = add_class nxt ''active'' (remove_class nxt r (remove_class nxt d (cp c)));
          p2 = remove_class act d (remove_class act r (remove_class act ''active'' p1))
      in c\<lparr>cp := triggering h (c_element c) ''slid.bs.carousel'' p2, isSliding := False\<rparr>)"

definition begin_slide :: "bool \<Rightarrow> elem \<Rightarrow> elem \<Rightarrow> carousel \<Rightarrow> carousel" where
  "begin_slide isNext nxt act c =
     c\<lparr>activeElement := Some nxt,
       cp := add_class nxt (directional_class isNext) (add_class act (directional_class isNext)
               (add_class nxt (order_class isNext) (cp c)))\<rparr>"

text \<open>
  \<open>_slide\<close>, \<open>to\<close>, the completion and the one-off listeners of \<open>slid\<close> call one another, so \<open>_slide\<close>
  and \<open>to\<close> take the completion as an argument and the recursion is tied in \<open>slid_listeners\<close>.  A
  listener runs once and is taken off the list before it runs, so the nesting is no deeper than
  the number of listeners, which is the fuel.  \<open>_slide\<close> calls \<open>pause\<close> only while nothing slides,
  where it is \<open>_clearInterval\<close>.
\<close>

definition start_slide :: "(completion \<Rightarrow> carousel \<Rightarrow> carousel) \<Rightarrow> bool \<Rightarrow> elem \<Rightarrow> elem \<Rightarrow> int \<Rightarrow> carousel \<Rightarrow> carousel" where
  "start_slide finish isNext a e nextElementIndex c =
     (let isCycling = (c_interval c \<noteq> None);
          (ok, c2) = setActiveIndicatorElement nextElementIndex ((clearInterval c)\<lparr>isSliding := True\<rparr>)
      in if \<not> ok then c2\<lparr>thrown := True\<rparr>
         else (let c3 = begin_slide isNext e a c2; cb = Complete e a isNext;
                   c4 = (if isAnimated c3 then c3\<lparr>c_pending := c_pending c3 @ [(a, cb)]\<rparr> else finish cb c3)
               in if isCycling then cycle c4 else c4))"

text \<open>\<open>element || getNextActiveElement(...)\<close>; indexing an empty list of items gives no element.\<close>

definition next_element :: "carousel \<Rightarrow> bool \<Rightarrow> elem option \<Rightarrow> elem option" where
  "next_element c isNext element =
     (case element of Some e \<Rightarrow> Some e
      | None \<Rightarrow> Option.bind (getNextActiveElement (map Some (getItems c)) (getActive c) isNext (wrap c)) id)"

definition slide_with :: "(completion \<Rightarrow> carousel \<Rightarrow> carousel) \<Rightarrow> host \<Rightarrow> bool \<Rightarrow> elem option \<Rightarrow> carousel \<Rightarrow> carousel" where
  "slide_with finish h isNext element c =
     (if isSliding c then c
      else (let act = getActive c;
                nxt = next_element c isNext element
            in if nxt \<noteq> None \<and> nxt = act then c
               else (let nextElementIndex = getItemIndex c nxt;
                         c1 = c\<lparr>cp := triggering h (c_element c) ''slide.bs.carousel'' (cp c)\<rparr>
                     in if prevented_by h (c_element c) ''slide.bs.carousel'' (cp c) then c1
                        else (case (act, nxt) of
                                (Some a, Some e) \<Rightarrow> start_slide finish isNext a e nextElementIndex c1
                              | _ \<Rightarrow> c1))))"

definition to_with :: "(completion \<Rightarrow> carousel \<Rightarrow> carousel) \<Rightarrow> host \<Rightarrow> slide_index \<Rightarrow> carousel \<Rightarrow> carousel" where
  "to_with finish h index c =
     (let items = getItems c; v = idx_value index
      in if (case v of None \<Rightarrow> False | Some x \<Rightarrow> x > of_int (int (length items) - 1) \<or> x < 0) then c
         else if isSliding c then c\<lparr>slid_handlers := slid_handlers c @ [DoTo index]\<rparr>
         else (let activeIndex = getItemIndex c (getActive c)
               in if index = IdxNum (of_int activeIndex) then c
                  else slide_with finish h (case v of None \<Rightarrow> False | Some x \<Rightarrow> x > of_int activeIndex) (idx_at items index) c))"

definition complete_with :: "(nat \<Rightarrow> carousel \<Rightarrow> carousel) \<Rightarrow> host \<Rightarrow> completion \<Rightarrow> carousel \<Rightarrow> carousel" where
  "complete_with run_listeners h cb c =
     (let c1 = complete_core h cb c in run_listeners (length (slid_handlers c1)) c1)"

primrec slid_listeners :: "nat \<Rightarrow> host \<Rightarrow> nat \<Rightarrow> carousel \<Rightarrow> carousel" where
  "slid_listeners 0 = (\<lambda>h k c. c)"
| "slid_listeners (Suc n) =
     (\<lambda>h k c. case k of
        0 \<Rightarrow> c
      | Suc j \<Rightarrow>
          (case slid_handlers c of
             [] \<Rightarrow> c
           | a # rest \<Rightarrow>
               (let c1 = c\<lparr>slid_handlers := rest\<rparr>
                in slid_listeners n h j
                     (case a of DoCycle \<Rightarrow> cycle c1
                      | DoTo i \<Rightarrow> to_with (complete_with (slid_listeners n h) h) h i c1))))"

definition completeCallBack :: "host \<Rightarrow> nat \<Rightarrow> completion \<Rightarrow> carousel \<Rightarrow> carousel" where
  "completeCallBack h n = complete_with (slid_listeners n h) h"

definition slide_fuel_bound :: "carousel \<Rightarrow> nat" where
  "slide_fuel_bound c = Suc (length (slid_handlers c))"

definition slide :: "host \<Rightarrow> bool \<Rightarrow> elem option \<Rightarrow> carousel \<Rightarrow> carousel" where
  "slide h isNext element c = slide_with (completeCallBack h (slide_fuel_bound c)) h isNext element c"

definition carousel_next :: "host \<Rightarrow> carousel \<Rightarrow> carousel" where
  "carousel_next h c = slide h True None c"

definition carousel_prev :: "host \<Rightarrow> carousel \<Rightarrow> carousel" where
  "carousel_prev h c = slide h False None c"

definition carousel_to :: "host \<Rightarrow> slide_index \<Rightarrow> carousel \<Rightarrow> carousel" where
  "carousel_to h index c = to_with (completeCallBack h (slide_fuel_bound c)) h index c"

definition nextWhenVisible :: "host \<Rightarrow> carousel \<Rightarrow> carousel" where
  "nextWhenVisible h c =
     (if \<not> hidden_doc h \<and> isVisible h (cp c) (JElem (c_element c)) then carousel_next h c else c)"

text \<open>A \<open>transitionend\<close> event at an element, from the browser or from \<open>triggerTransitionEnd\<close>.\<close>

definition carousel_transition_end :: "host \<Rightarrow> elem \<Rightarrow> carousel \<Rightarrow> carousel" where
  "carousel_transition_end h e c =
     foldl (\<lambda>d cb. completeCallBack h (slide_fuel_bound d) cb d) (c\<lparr>c_pending := not_due e (c_pending c)\<rparr>) (due e (c_pending c))"

definition carousel_pause :: "host \<Rightarrow> carousel \<Rightarrow> carousel" where
  "carousel_pause h c = clearInterval (if isSliding c then carousel_transition_end h (c_element c) c else c)"

datatype direction = DirLeft | DirRight

definition directionToOrder :: "host \<Rightarrow> direction \<Rightarrow> bool" where
  "directionToOrder h d = (if rtl h then d \<noteq> DirLeft else d = DirLeft)"

definition orderToDirection :: "host \<Rightarrow> bool \<Rightarrow> direction" where
  "orderToDirection h isNext = (if rtl h then (if \<not> isNext then DirLeft else DirRight) else (if \<not> isNext then DirRight else DirLeft))"

definition key_to_direction :: "string \<Rightarrow> direction option" where
  "key_to_direction key = (if key = ''ArrowLeft'' then Some DirRight else if key = ''ArrowRight'' then Some DirLeft else None)"

definition carousel_keydown :: "host \<Rightarrow> string \<Rightarrow> string \<Rightarrow> carousel \<Rightarrow> bool \<times> carousel" where
  "carousel_keydown h target_tag key c =
     (let t = map to_lower_char target_tag
      in if str_includes t ''input'' \<or> str_includes t ''textarea'' then (False, c)
         else (case key_to_direction key of
                 None \<Rightarrow> (False, c)
               | Some d \<Rightarrow> (True, slide h (directionToOrder h d) None c)))"

definition swipe_endCallBack :: "host \<Rightarrow> carousel \<Rightarrow> carousel" where
  "swipe_endCallBack h c = (if pause_mode c \<noteq> JStr ''hover'' then c else (carousel_pause h c)\<lparr>touchTimeout := True\<rparr>)"

text \<open>The click handler on \<open>[data-bs-slide], [data-bs-slide-to]\<close> once the carousel is found.\<close>

definition carousel_click :: "host \<Rightarrow> (string \<Rightarrow> jsval option) \<Rightarrow> elem \<Rightarrow> carousel \<Rightarrow> carousel" where
  "carousel_click h json this c =
     (let slideIndex = getAttribute (cp c) this ''data-bs-slide-to'';
          c1 = (if slideIndex \<noteq> None \<and> slideIndex \<noteq> Some [] then carousel_to h (IdxText (the slideIndex)) c
                else if getDataAttribute json (cp c) this ''slide'' = JStr ''next'' then carousel_next h c
                else carousel_prev h c)
      in if thrown c1 then c1 else maybeEnableCycle c1)"

datatype carousel_event =
    CNext | CPrev | CTo slide_index | CPause | CCycle | CMaybeCycle | CTick | CTransitionEnd elem
  | CKey string string | CSwipe swipe_call | CTouchTimeout | CClick elem

fun carousel_step :: "host \<Rightarrow> (string \<Rightarrow> jsval option) \<Rightarrow> carousel \<Rightarrow> carousel_event \<Rightarrow> carousel" where
  "carousel_step h json c CNext = carousel_next h c"
| "carousel_step h json c CPrev = carousel_prev h c"
| "carousel_step h json c (CTo i) = carousel_to h i c"
| "carousel_step h json c CPause = carousel_pause h c"
| "carousel_step h json c CCycle = cycle c"
| "carousel_step h json c CMaybeCycle = maybeEnableCycle c"
| "carousel_step h json c CTick = (if c_interval c \<noteq> None then nextWhenVisible h c else c)"
| "carousel_step h json c (CTransitionEnd e) = carousel_transition_end h e c"
| "carousel_step h json c (CKey tag key) = (if keyboard c then snd (carousel_keydown h tag key c) else c)"
| "carousel_step h json c (CSwipe LeftCallback) = slide h (directionToOrder h DirLeft) None c"
| "carousel_step h json c (CSwipe RightCallback) = slide h (directionToOrder h DirRight) None c"
| "carousel_step h json c (CSwipe EndCallback) = swipe_endCallBack h c"
| "carousel_step h json c CTouchTimeout = (if touchTimeout c then maybeEnableCycle (c\<lparr>touchTimeout := False\<rparr>) else c)"
| "carousel_step h json c (CClick e) = carousel_click h json e c"

section \<open>One active item\<close>

definition actives :: "carousel \<Rightarrow> elem list" where
  "actives c = filter (\<lambda>x. has_class (cp c) x ''active'') (getItems c)"

lemma getItems_filter: "getItems c = filter (\<lambda>x. has_class (cp c) x ''carousel-item'') (descendants (cp c) (c_element c))"
  by (simp add: getItems_def SELECTOR_ITEM_def querySelectorAll_compound)

lemma getActive_first: "getActive c = first_of (actives c)"
  by (simp add: getActive_def SELECTOR_ACTIVE_ITEM_def querySelector_def querySelectorAll_compound actives_def getItems_filter conj_commute)

text \<open>Indicators are not items.\<close>

definition indicators_apart :: "carousel \<Rightarrow> bool" where
  "indicators_apart c = (\<forall>ind. indicatorsElement c = Some ind \<longrightarrow>
     (\<forall>x \<in> set (descendants (cp c) ind). \<not> has_class (cp c) x ''carousel-item''))"

text \<open>What no operation of the carousel touches.\<close>

definition same_frame :: "carousel \<Rightarrow> carousel \<Rightarrow> bool" where
  "same_frame c d = (tree (cp d) = tree (cp c) \<and> c_element d = c_element c \<and> indicatorsElement d = indicatorsElement c
     \<and> (\<forall>x. has_class (cp d) x ''carousel-item'' = has_class (cp c) x ''carousel-item''))"

lemma same_frame_refl [simp]: "same_frame c c"
  by (simp add: same_frame_def)

lemma same_frame_trans: "same_frame c d \<Longrightarrow> same_frame d e \<Longrightarrow> same_frame c e"
  by (simp add: same_frame_def)

lemma same_frame_items: "same_frame c d \<Longrightarrow> getItems d = getItems c"
  unfolding getItems_filter same_frame_def using descendants_tree [of "cp d" "cp c"] by auto

lemma same_frame_static: "same_frame c d \<Longrightarrow> wf_page (cp d) = wf_page (cp c) \<and> indicators_apart d = indicators_apart c"
  unfolding same_frame_def wf_page_def indicators_apart_def using descendants_tree [of "cp d" "cp c"] by auto

text \<open>
  Exactly one item is active; a pending completion is the only one, moves the active item to
  another item, and exists only while the carousel slides.
\<close>

definition slide_ok :: "carousel \<Rightarrow> elem \<Rightarrow> bool" where
  "slide_ok c a = (c_pending c = [] \<or>
     (isSliding c \<and> (\<exists>e f. c_pending c = [(a, Complete e a f)] \<and> e \<in> set (getItems c) \<and> e \<noteq> a)))"

definition car_inv :: "carousel \<Rightarrow> bool" where
  "car_inv c = (wf_page (cp c) \<and> indicators_apart c \<and> (\<exists>a. actives c = [a] \<and> slide_ok c a))"

lemma car_inv_transfer:
  assumes "car_inv c" "same_frame c d" "actives d = actives c" "c_pending d = c_pending c" "isSliding c \<longrightarrow> isSliding d"
  shows "car_inv d"
  using assms same_frame_static [OF assms(2)] same_frame_items [OF assms(2)]
  unfolding car_inv_def slide_ok_def by auto

lemma actives_cong:
  assumes "same_frame c d" "\<And>x. x \<in> set (getItems c) \<Longrightarrow> has_class (cp d) x ''active'' = has_class (cp c) x ''active''"
  shows "actives d = actives c"
  unfolding actives_def same_frame_items [OF assms(1)] by (rule filter_cong) (use assms(2) in auto)

lemma trivial_updates:
  "cp d = cp c \<Longrightarrow> c_element d = c_element c \<Longrightarrow> indicatorsElement d = indicatorsElement c \<Longrightarrow>
     same_frame c d \<and> actives d = actives c"
  by (simp add: same_frame_def actives_def getItems_def)

lemma cycle_keeps [simp]:
  "cp (cycle c) = cp c" "c_element (cycle c) = c_element c" "indicatorsElement (cycle c) = indicatorsElement c"
  "c_pending (cycle c) = c_pending c" "isSliding (cycle c) = isSliding c" "slid_handlers (cycle c) = slid_handlers c"
  by (auto simp: cycle_def updateInterval_def clearInterval_def Let_def split: option.splits)

lemma car_inv_trivial:
  assumes "car_inv c" "cp d = cp c" "c_element d = c_element c" "indicatorsElement d = indicatorsElement c"
    "c_pending d = c_pending c" "isSliding d = isSliding c"
  shows "car_inv d \<and> same_frame c d"
  using assms trivial_updates [of d c] car_inv_transfer [of c d] by auto

lemma same_frame_trigger:
  "same_frame c (c\<lparr>cp := triggering h e ev (cp c)\<rparr>)" "actives (c\<lparr>cp := triggering h e ev (cp c)\<rparr>) = actives c"
proof -
  show f: "same_frame c (c\<lparr>cp := triggering h e ev (cp c)\<rparr>)" by (simp add: same_frame_def dom_simps)
  show "actives (c\<lparr>cp := triggering h e ev (cp c)\<rparr>) = actives c"
    by (rule actives_cong [OF f]) (simp add: dom_simps)
qed

lemma setActiveIndicator_keeps:
  assumes "setActiveIndicatorElement i c = (ok, d)" "indicators_apart c"
  shows "same_frame c d" "actives d = actives c" "c_pending d = c_pending c" "isSliding d = isSliding c"
    "slid_handlers d = slid_handlers c"
proof -
  have f: "same_frame c d \<and> c_pending d = c_pending c \<and> isSliding d = isSliding c \<and> slid_handlers d = slid_handlers c"
    using assms(1)
    by (auto simp: setActiveIndicatorElement_def Let_def same_frame_def dom_simps split: option.splits)
  have "has_class (cp d) x ''active'' = has_class (cp c) x ''active''" if "x \<in> set (getItems c)" for x
  proof (cases "indicatorsElement c")
    case None
    with assms(1) show ?thesis by (simp add: setActiveIndicatorElement_def)
  next
    case (Some ind)
    have item: "has_class (cp c) x ''carousel-item''" using that by (simp add: getItems_filter)
    have ne: "y \<noteq> x" if "querySelector q ind sel = Some y" "tree q = tree (cp c)" for q sel y
      using querySelector_Some [OF that(1)] that(2) item assms(2) Some descendants_tree [of q "cp c" ind]
      by (auto simp: indicators_apart_def querySelectorAll_def)
    have "querySelector (cp c) ind sel \<noteq> Some x"
        "querySelector (removeAttribute y k (remove_class y k' (cp c))) ind sel \<noteq> Some x" for sel y k k'
      using ne [of "cp c" sel x] ne [of "removeAttribute y k (remove_class y k' (cp c))" sel x] by (auto simp: dom_simps)
    with assms(1) Some show ?thesis
      by (auto simp: setActiveIndicatorElement_def Let_def dom_simps split: option.splits)
  qed
  with f show "same_frame c d" "actives d = actives c" "c_pending d = c_pending c" "isSliding d = isSliding c"
      "slid_handlers d = slid_handlers c"
    using actives_cong by auto
qed

lemma begin_slide_keeps:
  "same_frame c (begin_slide b e a c)" "actives (begin_slide b e a c) = actives c"
proof -
  show f: "same_frame c (begin_slide b e a c)"
    by (auto simp: same_frame_def begin_slide_def dom_simps directional_class_def order_class_def)
  show "actives (begin_slide b e a c) = actives c"
    by (rule actives_cong [OF f]) (auto simp: begin_slide_def dom_simps directional_class_def order_class_def)
qed

lemma filter_eq_one: "distinct xs \<Longrightarrow> e \<in> set xs \<Longrightarrow> filter (\<lambda>x. x = e) xs = [e]"
  by (induction xs) (auto simp: filter_empty_conv)

lemma complete_core_moves:
  assumes "wf_page (cp c)" "actives c = [a]" "e \<in> set (getItems c)" "e \<noteq> a"
  shows "same_frame c (complete_core h (Complete e a f) c)" "actives (complete_core h (Complete e a f) c) = [e]"
    "c_pending (complete_core h (Complete e a f) c) = c_pending c" "\<not> isSliding (complete_core h (Complete e a f) c)"
proof -
  let ?d = "complete_core h (Complete e a f) c"
  show fr: "same_frame c ?d"
    by (auto simp: same_frame_def complete_core_def Let_def dom_simps directional_class_def order_class_def)
  have cls: "has_class (cp ?d) x ''active'' = (x \<noteq> a \<and> (x = e \<or> has_class (cp c) x ''active''))" for x
    using assms(4) by (auto simp: complete_core_def Let_def dom_simps directional_class_def order_class_def)
  have "x = a" if "x \<in> set (getItems c)" "has_class (cp c) x ''active''" for x
    using arg_cong [OF assms(2), of set] that by (auto simp: actives_def)
  then have "actives ?d = filter (\<lambda>x. x = e) (getItems c)"
    unfolding actives_def same_frame_items [OF fr] cls using assms(4) by (intro filter_cong) auto
  also have "\<dots> = [e]"
    using filter_eq_one [OF _ assms(3)] distinct_querySelectorAll [OF assms(1)] by (simp add: getItems_def)
  finally show "actives ?d = [e]" .
  show "c_pending ?d = c_pending c" "\<not> isSliding ?d" by (simp_all add: complete_core_def Let_def)
qed

text \<open>The contract of a completion: it turns a settled slide into a settled carousel.\<close>

definition ready :: "carousel \<Rightarrow> elem \<Rightarrow> elem \<Rightarrow> bool" where
  "ready c e a = (wf_page (cp c) \<and> indicators_apart c \<and> actives c = [a] \<and> e \<in> set (getItems c) \<and> e \<noteq> a \<and> c_pending c = [])"

definition completes :: "(completion \<Rightarrow> carousel \<Rightarrow> carousel) \<Rightarrow> bool" where
  "completes finish = (\<forall>c e a f. ready c e a \<longrightarrow> car_inv (finish (Complete e a f) c) \<and> same_frame c (finish (Complete e a f) c))"

lemma next_item_mem:
  assumes "next_element c b element = Some e" and "element \<noteq> None \<longrightarrow> the element \<in> set (getItems c)"
  shows "e \<in> set (getItems c)"
proof (cases element)
  case None
  with assms(1) have "getNextActiveElement (map Some (getItems c)) (getActive c) b (wrap c) = Some (Some e)"
    by (cases "getNextActiveElement (map Some (getItems c)) (getActive c) b (wrap c)") (auto simp: next_element_def)
  from getNextActiveElement_mem [OF this] show ?thesis by auto
qed (use assms in \<open>auto simp: next_element_def\<close>)

lemma ready_frame: "ready c e a \<Longrightarrow> same_frame c d \<Longrightarrow> actives d = [a] \<Longrightarrow> c_pending d = [] \<Longrightarrow> ready d e a"
  using same_frame_static same_frame_items by (auto simp: ready_def)

lemma ready_inv: "ready c e a \<Longrightarrow> car_inv c"
  by (auto simp: ready_def car_inv_def slide_ok_def)

lemma ready_queue:
  assumes "ready c e a" "isSliding c"
  shows "car_inv (c\<lparr>c_pending := c_pending c @ [(a, Complete e a b)]\<rparr>) \<and> same_frame c (c\<lparr>c_pending := c_pending c @ [(a, Complete e a b)]\<rparr>)"
proof -
  let ?d = "c\<lparr>c_pending := c_pending c @ [(a, Complete e a b)]\<rparr>"
  have t: "same_frame c ?d \<and> actives ?d = actives c" by (rule trivial_updates) simp_all
  then have "slide_ok ?d a" using assms same_frame_items [of c ?d] by (auto simp: slide_ok_def ready_def)
  then show ?thesis using t assms(1) same_frame_static [of c ?d] by (auto simp: car_inv_def ready_def)
qed

lemma start_slide_keeps:
  assumes fin: "completes finish" and r: "ready c e a"
  shows "car_inv (start_slide finish b a e i c) \<and> same_frame c (start_slide finish b a e i c)"
proof -
  define c2 where "c2 = (clearInterval c)\<lparr>isSliding := True\<rparr>"
  obtain ok c3 where c3: "setActiveIndicatorElement i c2 = (ok, c3)" by force
  have t2: "same_frame c c2 \<and> actives c2 = actives c" by (rule trivial_updates) (simp_all add: c2_def clearInterval_def)
  then have r2: "ready c2 e a" using r by (intro ready_frame [OF r]) (simp_all add: ready_def c2_def clearInterval_def)
  then have ap2: "indicators_apart c2" by (simp add: ready_def)
  note k3 = setActiveIndicator_keeps [OF c3 ap2]
  have r3: "ready c3 e a" using k3 r2 by (intro ready_frame [OF r2]) (simp_all add: ready_def)
  have f3: "same_frame c c3" using t2 k3(1) same_frame_trans by blast
  show ?thesis
  proof (cases ok)
    case False
    have "car_inv (c3\<lparr>thrown := True\<rparr>) \<and> same_frame c3 (c3\<lparr>thrown := True\<rparr>)"
      by (rule car_inv_trivial [OF ready_inv [OF r3]]) simp_all
    with False f3 c3 show ?thesis by (auto simp: start_slide_def c2_def intro: same_frame_trans)
  next
    case True
    let ?c4 = "begin_slide b e a c3"
    have f4: "same_frame c3 ?c4" "actives ?c4 = actives c3" by (rule begin_slide_keeps)+
    have r4: "ready ?c4 e a" using r3 f4 by (intro ready_frame [OF r3]) (simp_all add: ready_def begin_slide_def)
    have s4: "isSliding ?c4" using k3(4) by (simp add: begin_slide_def c2_def)
    let ?c5 = "if isAnimated ?c4 then ?c4\<lparr>c_pending := c_pending ?c4 @ [(a, Complete e a b)]\<rparr> else finish (Complete e a b) ?c4"
    have "car_inv ?c5 \<and> same_frame ?c4 ?c5"
      using ready_queue [OF r4 s4, of b] fin r4 by (simp add: completes_def)
    then have i5: "car_inv ?c5" "same_frame c ?c5" using f3 f4(1) same_frame_trans by blast+
    have "car_inv (cycle ?c5) \<and> same_frame ?c5 (cycle ?c5)" by (rule car_inv_trivial [OF i5(1)]) simp_all
    moreover have "start_slide finish b a e i c = (if c_interval c \<noteq> None then cycle ?c5 else ?c5)"
      using True c3 by (simp add: start_slide_def c2_def Let_def)
    ultimately show ?thesis using i5 by (auto intro: same_frame_trans)
  qed
qed

lemma slide_with_keeps:
  assumes fin: "completes finish" and inv: "car_inv c" and el: "element \<noteq> None \<longrightarrow> the element \<in> set (getItems c)"
  shows "car_inv (slide_with finish h b element c) \<and> same_frame c (slide_with finish h b element c)"
proof (cases "isSliding c")
  case True
  with inv show ?thesis by (simp add: slide_with_def)
next
  case False
  obtain a where a: "actives c = [a]" and pend: "c_pending c = []" and wf: "wf_page (cp c)" and ap: "indicators_apart c"
    using inv False by (auto simp: car_inv_def slide_ok_def)
  have act: "getActive c = Some a" by (simp add: getActive_first a first_of_def)
  let ?nxt = "next_element c b element"
  define c1 where "c1 = c\<lparr>cp := triggering h (c_element c) ''slide.bs.carousel'' (cp c)\<rparr>"
  have f1: "same_frame c c1" "actives c1 = actives c" using same_frame_trigger by (simp_all add: c1_def)
  have i1: "car_inv c1" by (rule car_inv_transfer [OF inv f1]) (simp_all add: c1_def)
  have go: "car_inv (start_slide finish b a e i c1) \<and> same_frame c (start_slide finish b a e i c1)" if "?nxt = Some e" "e \<noteq> a" for e i
  proof -
    have "e \<in> set (getItems c)" by (rule next_item_mem [OF that(1) el])
    then have "ready c e a" using a pend wf ap that(2) by (simp add: ready_def)
    from ready_frame [OF this f1(1)] have "ready c1 e a" using f1(2) a pend by (simp add: c1_def)
    note k = start_slide_keeps [OF fin this, of b i]
    show ?thesis using k same_frame_trans [OF f1(1) conjunct2 [OF k]] by blast
  qed
  have eq: "slide_with finish h b element c =
      (if ?nxt = Some a then c
       else if prevented_by h (c_element c) ''slide.bs.carousel'' (cp c) then c1
       else (case ?nxt of None \<Rightarrow> c1 | Some e \<Rightarrow> start_slide finish b a e (getItemIndex c ?nxt) c1))"
    using False by (cases ?nxt) (simp_all add: slide_with_def act c1_def)
  show ?thesis
  proof (cases ?nxt)
    case None
    with i1 f1(1) inv show ?thesis by (simp add: eq)
  next
    case (Some e)
    with go [OF Some] i1 f1(1) inv show ?thesis by (simp add: eq)
  qed
qed

lemma to_with_keeps:
  assumes "completes finish" "car_inv c"
  shows "car_inv (to_with finish h i c) \<and> same_frame c (to_with finish h i c)"
proof -
  have "the (idx_at (getItems c) i) \<in> set (getItems c)" if "idx_at (getItems c) i \<noteq> None"
    using that by (auto simp: idx_at_def split: slide_index.splits if_splits dest: at_index_Some_mem)
  then have "car_inv (slide_with finish h b (idx_at (getItems c) i) c) \<and> same_frame c (slide_with finish h b (idx_at (getItems c) i) c)" for b
    using slide_with_keeps [OF assms] by simp
  moreover have "car_inv (c\<lparr>slid_handlers := hs\<rparr>) \<and> same_frame c (c\<lparr>slid_handlers := hs\<rparr>)" for hs
    by (rule car_inv_trivial [OF assms(2)]) simp_all
  ultimately show ?thesis using assms(2) by (simp add: to_with_def Let_def)
qed

lemma complete_with_completes:
  assumes "\<And>k c. car_inv c \<Longrightarrow> car_inv (run k c) \<and> same_frame c (run k c)"
  shows "completes (complete_with run h)"
  unfolding completes_def
proof (intro allI impI)
  fix c e a f
  assume r: "ready c e a"
  let ?d = "complete_core h (Complete e a f) c"
  have m: "same_frame c ?d" "actives ?d = [e]" "c_pending ?d = []"
    using complete_core_moves [of c a e h f] r by (simp_all add: ready_def)
  then have "car_inv ?d" using r same_frame_static [OF m(1)] by (simp add: car_inv_def slide_ok_def ready_def)
  from assms [OF this, of "length (slid_handlers ?d)"] m(1)
  show "car_inv (complete_with run h (Complete e a f) c) \<and> same_frame c (complete_with run h (Complete e a f) c)"
    by (auto simp: complete_with_def Let_def intro: same_frame_trans)
qed

lemma slid_listeners_keeps: "car_inv c \<Longrightarrow> car_inv (slid_listeners n h k c) \<and> same_frame c (slid_listeners n h k c)"
proof (induction n arbitrary: k c)
  case 0
  then show ?case by simp
next
  case (Suc n)
  show ?case
  proof (cases k)
    case 0
    with Suc.prems show ?thesis by simp
  next
    case k: (Suc j)
    show ?thesis
    proof (cases "slid_handlers c")
      case Nil
      with k Suc.prems show ?thesis by simp
    next
      case (Cons a rest)
      let ?c1 = "c\<lparr>slid_handlers := rest\<rparr>"
      let ?c2 = "case a of DoCycle \<Rightarrow> cycle ?c1 | DoTo i \<Rightarrow> to_with (complete_with (slid_listeners n h) h) h i ?c1"
      have c1: "car_inv ?c1 \<and> same_frame c ?c1" by (rule car_inv_trivial [OF Suc.prems]) simp_all
      have "completes (complete_with (slid_listeners n h) h)"
        by (rule complete_with_completes) (rule Suc.IH)
      then have "car_inv (to_with (complete_with (slid_listeners n h) h) h i ?c1) \<and> same_frame ?c1 (to_with (complete_with (slid_listeners n h) h) h i ?c1)" for i
        using c1 by (intro to_with_keeps) simp_all
      moreover have "car_inv (cycle ?c1) \<and> same_frame ?c1 (cycle ?c1)" using c1 by (intro car_inv_trivial) simp_all
      ultimately have c2: "car_inv ?c2 \<and> same_frame ?c1 ?c2" by (cases a) simp_all
      then have "car_inv (slid_listeners n h j ?c2) \<and> same_frame ?c2 (slid_listeners n h j ?c2)" using Suc.IH by blast
      with c1 c2 k Cons show ?thesis by (simp add: Let_def) (meson same_frame_trans)
    qed
  qed
qed

lemma completeCallBack_completes: "completes (completeCallBack h n)"
  unfolding completeCallBack_def by (rule complete_with_completes) (rule slid_listeners_keeps)

lemma slide_keeps: "car_inv c \<Longrightarrow> car_inv (slide h b None c) \<and> same_frame c (slide h b None c)"
  unfolding slide_def by (rule slide_with_keeps [OF completeCallBack_completes]) simp_all

lemma carousel_to_keeps: "car_inv c \<Longrightarrow> car_inv (carousel_to h i c) \<and> same_frame c (carousel_to h i c)"
  unfolding carousel_to_def by (rule to_with_keeps [OF completeCallBack_completes])

lemma transition_end_keeps:
  assumes "car_inv c"
  shows "car_inv (carousel_transition_end h e c) \<and> same_frame c (carousel_transition_end h e c)"
proof (cases "due e (c_pending c)")
  case Nil
  let ?d = "c\<lparr>c_pending := not_due e (c_pending c)\<rparr>"
  have "filter (\<lambda>x. fst x \<noteq> e) (c_pending c) = c_pending c"
    using Nil by (auto simp: due_def filter_id_conv filter_empty_conv)
  then have "?d = c" by (simp add: not_due_def)
  with Nil assms show ?thesis by (simp add: carousel_transition_end_def)
next
  case (Cons cb cbs)
  obtain a where a: "actives c = [a]" "slide_ok c a" using assms by (auto simp: car_inv_def)
  with Cons obtain e' f where p: "c_pending c = [(a, Complete e' a f)]" "e' \<in> set (getItems c)" "e' \<noteq> a"
    by (auto simp: slide_ok_def due_def)
  then have e: "e = a" "cb = Complete e' a f" "cbs = []" using Cons by (auto simp: due_def split: if_splits)
  let ?d = "c\<lparr>c_pending := []\<rparr>"
  have t: "same_frame c ?d \<and> actives ?d = actives c" by (rule trivial_updates) simp_all
  then have "ready ?d e' a"
    using assms a p same_frame_static [of c ?d] same_frame_items [of c ?d] by (auto simp: ready_def car_inv_def)
  then have "car_inv (completeCallBack h (slide_fuel_bound ?d) cb ?d) \<and> same_frame ?d (completeCallBack h (slide_fuel_bound ?d) cb ?d)"
    using completeCallBack_completes by (simp add: completes_def e)
  moreover have "carousel_transition_end h e c = completeCallBack h (slide_fuel_bound ?d) cb ?d"
    using Cons p e by (simp add: carousel_transition_end_def not_due_def)
  ultimately show ?thesis using t by (auto intro: same_frame_trans)
qed

lemma pause_keeps: "car_inv c \<Longrightarrow> car_inv (carousel_pause h c) \<and> same_frame c (carousel_pause h c)"
proof -
  assume c: "car_inv c"
  let ?d = "if isSliding c then carousel_transition_end h (c_element c) c else c"
  have d: "car_inv ?d \<and> same_frame c ?d" using c transition_end_keeps by simp
  then have "car_inv (clearInterval ?d) \<and> same_frame ?d (clearInterval ?d)"
    by (intro car_inv_trivial) (simp_all add: clearInterval_def)
  with d show ?thesis by (auto simp: carousel_pause_def intro: same_frame_trans)
qed

lemma maybe_cycle_keeps: "car_inv c \<Longrightarrow> car_inv (maybeEnableCycle c) \<and> same_frame c (maybeEnableCycle c)"
  by (rule car_inv_trivial) (simp_all add: maybeEnableCycle_def)

lemma flag_keeps: "car_inv c \<Longrightarrow> car_inv (c\<lparr>touchTimeout := b\<rparr>) \<and> same_frame c (c\<lparr>touchTimeout := b\<rparr>)"
  by (rule car_inv_trivial) simp_all

lemma carousel_step_keeps:
  assumes "car_inv c"
  shows "car_inv (carousel_step h json c ev) \<and> same_frame c (carousel_step h json c ev)"
proof (cases ev)
  case CCycle
  then show ?thesis using car_inv_trivial [OF assms] by simp
next
  case CTick
  then show ?thesis using assms slide_keeps by (simp add: nextWhenVisible_def carousel_next_def)
next
  case (CKey tag key)
  then show ?thesis using assms slide_keeps by (auto simp: carousel_keydown_def Let_def split: option.splits)
next
  case (CSwipe call)
  have "car_inv (swipe_endCallBack h c) \<and> same_frame c (swipe_endCallBack h c)"
    using pause_keeps [OF assms, of h] flag_keeps [of "carousel_pause h c" True] assms
    by (auto simp: swipe_endCallBack_def intro: same_frame_trans)
  with CSwipe assms slide_keeps show ?thesis by (cases call) simp_all
next
  case CTouchTimeout
  then show ?thesis using assms flag_keeps [OF assms, of False] maybe_cycle_keeps [of "c\<lparr>touchTimeout := False\<rparr>"]
    by (auto intro: same_frame_trans)
next
  case (CClick e)
  let ?s = "getAttribute (cp c) e ''data-bs-slide-to''"
  let ?c1 = "if ?s \<noteq> None \<and> ?s \<noteq> Some [] then carousel_to h (IdxText (the ?s)) c
             else if getDataAttribute json (cp c) e ''slide'' = JStr ''next'' then carousel_next h c else carousel_prev h c"
  have "car_inv ?c1 \<and> same_frame c ?c1"
    using assms by (simp add: carousel_to_keeps slide_keeps carousel_next_def carousel_prev_def)
  with maybe_cycle_keeps [of ?c1] CClick show ?thesis
    by (auto simp: carousel_click_def Let_def intro: same_frame_trans)
qed (use assms in \<open>simp_all add: carousel_next_def carousel_prev_def slide_keeps carousel_to_keeps pause_keeps
      maybe_cycle_keeps transition_end_keeps\<close>)

interpretation carousel: event_machine "carousel_step h json" "\<lambda>_ _. True" "\<lambda>c. car_inv c \<and> same_frame c0 c" for h json c0
  by unfold_locales (use carousel_step_keeps same_frame_trans in blast)

text \<open>
  C14: a carousel always shows exactly one item.  Whatever happens, in whatever order (calls of
  \<open>next\<close>, \<open>prev\<close> and \<open>to\<close>, timer ticks, keys, swipes, clicks, pauses, and \<open>transitionend\<close> events at
  any element), exactly one item carries the class \<open>active\<close>, and the items stay the same.
\<close>

theorem carousel_one_active:
  assumes "wf_page (cp c)" "indicators_apart c" "length (actives c) = 1" "c_pending c = []"
  shows "length (actives (foldl (carousel_step h json) c evs)) = 1
    \<and> getItems (foldl (carousel_step h json) c evs) = getItems c"
proof -
  from assms(3) obtain a where "actives c = [a]" by (auto simp: length_Suc_conv)
  with assms have "car_inv c" by (simp add: car_inv_def slide_ok_def)
  with same_frame_refl have "car_inv c \<and> same_frame c c" by blast
  from carousel.run_keeps [OF this allowed_run_always, of evs h json] show ?thesis
    using same_frame_items by (auto simp: car_inv_def)
qed

definition item_node :: "string list \<Rightarrow> node" where
  "item_node cs = \<lparr>tagName = ''div'', classList = cs, attributes = [], style = (\<lambda>_. []), textContent = []\<rparr>"

definition demo_carousel :: carousel where
  "demo_carousel = \<lparr>cp = \<lparr>tree = Elem 2 [Elem 3 [], Elem 4 [], Elem 5 [], Elem 6 [Elem 7 []]],
        nodes = (\<lambda>e. if e = 2 then item_node [''carousel'', ''slide''] else if e = 3 then item_node [''carousel-item'', ''active'']
                     else if e = 4 \<or> e = 5 then item_node [''carousel-item''] else item_node []),
        focused = None, ev_log = []\<rparr>,
     c_element = 2, wrap = True, ride = JBool False, keyboard = True, pause_mode = JStr ''hover'', interval = JNum 5000,
     defaultInterval = JNum 5000, c_interval = None, activeElement = None, isSliding = False, indicatorsElement = None,
     c_pending = [], slid_handlers = [], touchTimeout = False, thrown = False\<rparr>"

lemma demo_carousel_ok:
  "wf_page (cp demo_carousel)" "indicators_apart demo_carousel" "actives demo_carousel = [3]" "c_pending demo_carousel = []"
  "getItems demo_carousel = [3, 4, 5]"
  by (code_simp, simp add: indicators_apart_def demo_carousel_def, code_simp, code_simp, code_simp)

theorem carousel_one_active_witness:
  "length (actives (foldl (carousel_step quiet_host (\<lambda>_. None)) demo_carousel [CNext, CTransitionEnd 3, CPrev])) = 1"
  using carousel_one_active [of demo_carousel quiet_host "\<lambda>_. None" "[CNext, CTransitionEnd 3, CPrev]"] demo_carousel_ok by simp

subsection \<open>A slide reaches its item\<close>

lemma trigger_plain: "jquery h = None \<Longrightarrow> prevented_by h e ev p = cancels h e ev"
  by (simp add: trigger_def Let_def)

lemma complete_actives:
  assumes "ready c e a" "slid_handlers c = []"
  shows "actives (completeCallBack h n (Complete e a f) c) = [e]"
proof -
  have "slid_listeners n h 0 d = d" for d by (cases n) simp_all
  then have "completeCallBack h n (Complete e a f) c = complete_core h (Complete e a f) c"
    using assms(2) by (simp add: completeCallBack_def complete_with_def Let_def complete_core_def)
  then show ?thesis using complete_core_moves(2) [of c a e h f] assms(1) by (simp add: ready_def)
qed

lemma transition_end_queued:
  assumes "ready c e a" "slid_handlers c = []" "cp d = cp c" "c_element d = c_element c" "indicatorsElement d = indicatorsElement c"
    "c_pending d = [(a, Complete e a b)]" "slid_handlers d = []"
  shows "actives (carousel_transition_end h a d) = [e]"
proof -
  let ?d = "d\<lparr>c_pending := []\<rparr>"
  have t: "same_frame c ?d \<and> actives ?d = actives c" by (rule trivial_updates) (use assms in simp_all)
  then have "ready ?d e a" using assms(1) by (intro ready_frame [OF assms(1)]) (simp_all add: ready_def)
  moreover have "carousel_transition_end h a d = completeCallBack h (slide_fuel_bound ?d) (Complete e a b) ?d"
    using assms(6) by (simp add: carousel_transition_end_def due_def not_due_def)
  ultimately show ?thesis using assms(7) by (simp add: complete_actives)
qed

lemma transition_end_idle: "c_pending c = [] \<Longrightarrow> carousel_transition_end h e c = c"
  by (simp add: carousel_transition_end_def due_def not_due_def)

lemma start_slide_reaches:
  assumes r: "ready c e a" and no: "indicatorsElement c = None" "slid_handlers c = []"
  shows "actives (carousel_transition_end h a (start_slide (completeCallBack h n) b a e i c)) = [e]"
proof -
  let ?c2 = "(clearInterval c)\<lparr>isSliding := True\<rparr>"
  let ?c3 = "begin_slide b e a ?c2"
  have ind: "setActiveIndicatorElement i ?c2 = (True, ?c2)"
    using no by (simp add: setActiveIndicatorElement_def clearInterval_def)
  have "same_frame c ?c2 \<and> actives ?c2 = actives c" by (rule trivial_updates) (simp_all add: clearInterval_def)
  then have f3: "same_frame c ?c3" "actives ?c3 = [a]"
    using r begin_slide_keeps [where c = ?c2 and b = b and e = e and a = a] by (auto simp: ready_def intro: same_frame_trans)
  have r3: "ready ?c3 e a" using r f3 by (intro ready_frame [OF r]) (simp_all add: ready_def begin_slide_def clearInterval_def)
  have h3: "slid_handlers ?c3 = []" using no by (simp add: begin_slide_def clearInterval_def)
  let ?q = "?c3\<lparr>c_pending := c_pending ?c3 @ [(a, Complete e a b)]\<rparr>" and ?f = "completeCallBack h n (Complete e a b) ?c3"
  have p3: "c_pending ?c3 = []" using r3 by (simp add: ready_def)
  have q: "actives (carousel_transition_end h a ?q) = [e]" "actives (carousel_transition_end h a (cycle ?q)) = [e]"
    using p3 h3 by (auto intro!: transition_end_queued [OF r3 h3])
  have fa: "actives ?f = [e]" by (rule complete_actives [OF r3 h3])
  have "slid_listeners n h 0 d = d" for d by (cases n) simp_all
  then have fp: "c_pending ?f = []"
    using h3 p3 by (simp add: completeCallBack_def complete_with_def Let_def complete_core_def)
  have "actives (cycle ?f) = [e]" using fa trivial_updates [of "cycle ?f" ?f] by simp
  with q fa fp show ?thesis
    by (simp add: start_slide_def ind Let_def transition_end_idle)
qed

text \<open>
  \<open>next\<close> shows the next item.  From item i of n, without a veto and with wrapping, the item
  \<open>(i + 1) mod n\<close> is the active one once the transition of the old item has ended, and at once
  when the carousel is not animated.
\<close>

theorem carousel_next_advances:
  assumes "wf_page (cp c)" "indicatorsElement c = None" "c_pending c = []" "\<not> isSliding c" "slid_handlers c = []" "wrap c"
    and "actives c = [getItems c ! i]" "i < length (getItems c)" "1 < length (getItems c)"
    and "jquery h = None" "\<not> cancels h (c_element c) ''slide.bs.carousel''"
  shows "actives (carousel_transition_end h (getItems c ! i) (carousel_next h c))
    = [getItems c ! ((i + 1) mod length (getItems c))]"
proof -
  let ?items = "getItems c" and ?a = "getItems c ! i" and ?e = "getItems c ! ((i + 1) mod length (getItems c))"
  let ?c1 = "c\<lparr>cp := triggering h (c_element c) ''slide.bs.carousel'' (cp c)\<rparr>"
  have d: "distinct ?items" using distinct_querySelectorAll [OF assms(1)] by (simp add: getItems_def)
  have act: "getActive c = Some ?a" by (simp add: getActive_first assms(7) first_of_def)
  have j: "(i + 1) mod length ?items < length ?items" using assms(9) by (intro mod_less_divisor) linarith
  have "getNextActiveElement (map Some ?items) (Some ?a) True True = Some (Some ?e)"
    using getNextActiveElement_next [of "map Some ?items" i] d assms(8) j by (simp add: distinct_map)
  then have nxt: "next_element c True None = Some ?e" using assms(6) by (simp add: next_element_def act)
  have "(i + 1) mod length ?items \<noteq> i" using assms(8,9) by (cases "i + 1 = length ?items") auto
  then have ne: "?e \<noteq> ?a" using d assms(8) j by (simp add: nth_eq_iff_index_eq)
  have rc: "ready c ?e ?a" using assms ne j by (simp add: ready_def indicators_apart_def)
  have r: "ready ?c1 ?e ?a"
    by (rule ready_frame [OF rc same_frame_trigger(1)]) (simp_all add: same_frame_trigger(2) assms(3,7))
  have "carousel_next h c = start_slide (completeCallBack h (slide_fuel_bound c)) True ?a ?e (getItemIndex c (Some ?e)) ?c1"
    using assms(4,10,11) ne nxt by (simp add: carousel_next_def slide_def slide_with_def act trigger_plain Let_def)
  then show ?thesis using start_slide_reaches [OF r] assms(2,5) by simp
qed

theorem carousel_next_advances_witness:
  "actives (carousel_transition_end quiet_host 3 (carousel_next quiet_host demo_carousel)) = [4]"
  using carousel_next_advances [of demo_carousel 0 quiet_host] demo_carousel_ok
  by (simp add: demo_carousel_def quiet_host_def)

subsection \<open>A carousel that can get stuck\<close>

definition stuck :: "carousel \<Rightarrow> bool" where
  "stuck c = (isSliding c \<and> c_pending c = [])"

lemma stuck_step:
  assumes "stuck c"
  shows "stuck (carousel_step h json c ev) \<and> cp (carousel_step h json c ev) = cp c
    \<and> c_element (carousel_step h json c ev) = c_element c"
proof -
  have slide: "slide_with fin h b el c = c" for fin b el using assms by (simp add: slide_with_def stuck_def)
  have to: "stuck (to_with fin h i c) \<and> cp (to_with fin h i c) = cp c \<and> c_element (to_with fin h i c) = c_element c" for fin i
    using assms by (simp add: to_with_def Let_def stuck_def)
  have mc: "stuck (maybeEnableCycle d) \<and> cp (maybeEnableCycle d) = cp d \<and> c_element (maybeEnableCycle d) = c_element d" if "stuck d" for d
    using that by (simp add: maybeEnableCycle_def stuck_def)
  have pause: "carousel_pause h c = clearInterval c"
    using assms by (simp add: carousel_pause_def transition_end_idle stuck_def)
  show ?thesis
  proof (cases ev)
    case (CSwipe call)
    then show ?thesis using assms slide pause
      by (cases call) (simp_all add: slide_def swipe_endCallBack_def stuck_def clearInterval_def)
  next
    case (CClick e)
    have "stuck (carousel_to h i c) \<and> cp (carousel_to h i c) = cp c \<and> c_element (carousel_to h i c) = c_element c" for i
      using to by (simp add: carousel_to_def)
    with CClick assms slide mc show ?thesis
      by (simp add: carousel_click_def Let_def carousel_next_def carousel_prev_def slide_def)
  next
    case (CKey t k)
    then show ?thesis using assms slide by (simp add: carousel_keydown_def slide_def Let_def split: option.splits)
  qed (use assms slide to mc pause in \<open>simp_all add: carousel_next_def carousel_prev_def slide_def carousel_to_def
        nextWhenVisible_def transition_end_idle stuck_def clearInterval_def\<close>)
qed

interpretation stuck: event_machine "carousel_step h json" "\<lambda>_ _. True" "\<lambda>c. stuck c \<and> cp c = p \<and> c_element c = e" for h json p e
  by unfold_locales (use stuck_step in blast)

lemma stuck_run:
  "stuck c \<Longrightarrow> stuck (foldl (carousel_step h json) c evs) \<and> cp (foldl (carousel_step h json) c evs) = cp c
     \<and> c_element (foldl (carousel_step h json) c evs) = c_element c"
  by (rule stuck.run_keeps) (simp_all add: allowed_run_always)

text \<open>
  A carousel whose indicators include no active one never slides again.  \<open>_slide\<close> sets
  \<open>_isSliding\<close> before it looks for the active indicator and throws when there is none; the flag
  is never reset, so from then on every operation leaves the page as it is.
\<close>

theorem carousel_stuck_without_active_indicator:
  assumes "\<not> isSliding c" "c_pending c = []" "indicatorsElement c = Some ind"
    and "\<And>p. tree p = tree (cp c) \<Longrightarrow> nodes p = nodes (cp c) \<Longrightarrow> querySelector p ind [[[SelClass ''active'']]] = None"
    and "getActive c = Some a" "next_element c True None = Some e" "e \<noteq> a"
    and "jquery h = None" "\<not> cancels h (c_element c) ''slide.bs.carousel''"
  shows "thrown (carousel_next h c)
    \<and> nodes (cp (foldl (carousel_step h json) (carousel_next h c) evs)) = nodes (cp c)"
proof -
  let ?c1 = "c\<lparr>cp := triggering h (c_element c) ''slide.bs.carousel'' (cp c)\<rparr>"
  have n: "nodes (cp ?c1) = nodes (cp c)" "tree (cp ?c1) = tree (cp c)" by (simp_all add: dom_simps)
  have eq: "carousel_next h c = (clearInterval ?c1)\<lparr>isSliding := True, thrown := True\<rparr>"
    using assms(1,3,5-9) assms(4) [OF n(2,1)]
    by (simp add: carousel_next_def slide_def slide_with_def start_slide_def Let_def trigger_plain setActiveIndicatorElement_def clearInterval_def)
  then have "stuck (carousel_next h c)" "cp (carousel_next h c) = cp ?c1" using assms(2) by (simp_all add: stuck_def clearInterval_def)
  with stuck_run [of "carousel_next h c" h json evs] n eq show ?thesis by simp
qed

definition no_indicator_carousel :: carousel where
  "no_indicator_carousel = demo_carousel\<lparr>indicatorsElement := Some 6\<rparr>"

theorem carousel_stuck_without_active_indicator_witness:
  "nodes (cp (foldl (carousel_step quiet_host (\<lambda>_. None)) (carousel_next quiet_host no_indicator_carousel) [CTransitionEnd 3, CNext]))
     = nodes (cp no_indicator_carousel)"
proof -
  have "querySelector p 6 [[[SelClass ''active'']]] = None"
    if "tree p = tree (cp no_indicator_carousel)" "nodes p = nodes (cp no_indicator_carousel)" for p
  proof -
    have "descendants p 6 = [7]" using descendants_tree [OF that(1)] by (simp add: descendants_def no_indicator_carousel_def demo_carousel_def)
    then show ?thesis using that(2)
      by (simp add: querySelector_def querySelectorAll_compound has_class_def first_of_def no_indicator_carousel_def demo_carousel_def item_node_def)
  qed
  moreover have "getActive no_indicator_carousel = Some 3" "next_element no_indicator_carousel True None = Some 4" by code_simp+
  ultimately show ?thesis
    using carousel_stuck_without_active_indicator [of no_indicator_carousel 6 3 4 quiet_host "\<lambda>_. None" "[CTransitionEnd 3, CNext]"]
    by (simp add: no_indicator_carousel_def demo_carousel_def quiet_host_def)
qed

section \<open>Construction, start-up and disposal\<close>

definition car_default :: config where
  "car_default = [(''interval'', JNum 5000), (''keyboard'', JBool True), (''pause'', JStr ''hover''), (''ride'', JBool False), (''touch'', JBool True),
     (''wrap'', JBool True)]"

definition car_defaultType :: "(string \<times> string) list" where
  "car_defaultType = [(''interval'', ''(number|boolean)''), (''keyboard'', ''boolean''), (''pause'', ''(string|boolean)''), (''ride'', ''(boolean|string)''),
     (''touch'', ''boolean''), (''wrap'', ''boolean'')]"

definition car_configAfterMerge :: "config \<Rightarrow> config" where
  "car_configAfterMerge c = AList.update ''defaultInterval'' (js_get c ''interval'') c"

definition swipe_isSupported :: "host \<Rightarrow> nat \<Rightarrow> bool" where
  "swipe_isSupported h maxTouchPoints = (touch h \<or> 0 < maxTouchPoints)"

text \<open>\<open>points\<close> is \<open>navigator.maxTouchPoints\<close>, \<open>pointers\<close> whether the browser has pointer events; a swipe helper marks the element then.\<close>

definition carousel_new :: "(string \<Rightarrow> jsval option) \<Rightarrow> host \<Rightarrow> nat \<Rightarrow> bool \<Rightarrow> page \<Rightarrow> elem \<Rightarrow> jsval \<Rightarrow> string + carousel" where
  "carousel_new json h points pointers p e config =
     (case getConfig h json p ''carousel'' car_default car_defaultType car_configAfterMerge config (Some e) of
        Inl err \<Rightarrow> Inl err
      | Inr k \<Rightarrow>
          (let p1 = (if js_truthy (js_get k ''touch'') \<and> swipe_isSupported h points \<and> pointers then add_class e ''pointer-event'' p else p);
               c = \<lparr>cp = p1, c_element = e, wrap = js_truthy (js_get k ''wrap''), ride = js_get k ''ride'', keyboard = js_truthy (js_get k ''keyboard''),
                    pause_mode = js_get k ''pause'', interval = js_get k ''interval'', defaultInterval = js_get k ''defaultInterval'', c_interval = None,
                    activeElement = None, isSliding = False, indicatorsElement = querySelector p e [[[SelClass ''carousel-indicators'']]],
                    c_pending = [], slid_handlers = [], touchTimeout = False, thrown = False\<rparr>
           in Inr (if js_get k ''ride'' = JStr ''carousel'' then cycle c else c)))"

definition SELECTOR_DATA_RIDE :: selector where
  "SELECTOR_DATA_RIDE = [[[SelAttr ''data-bs-ride'' ''carousel'']]]"

text \<open>The load handler: the carousels of the page are made one after the other, until one throws.\<close>

fun carousel_load_all ::
  "(string \<Rightarrow> jsval option) \<Rightarrow> host \<Rightarrow> nat \<Rightarrow> bool \<Rightarrow> elem list \<Rightarrow> page \<times> (elem \<Rightarrow> carousel option) \<Rightarrow> (page \<times> (elem \<Rightarrow> carousel option)) \<times> string option" where
  "carousel_load_all json h points pointers [] pm = (pm, None)"
| "carousel_load_all json h points pointers (e # es) pm =
     (if snd pm e \<noteq> None then carousel_load_all json h points pointers es pm
      else (case carousel_new json h points pointers (fst pm) e (JObj []) of
              Inl err \<Rightarrow> (pm, Some err)
            | Inr c \<Rightarrow> carousel_load_all json h points pointers es (cp c, (snd pm)(e \<mapsto> c))))"

definition carousel_load ::
  "(string \<Rightarrow> jsval option) \<Rightarrow> host \<Rightarrow> nat \<Rightarrow> bool \<Rightarrow> page \<times> (elem \<Rightarrow> carousel option) \<Rightarrow> (page \<times> (elem \<Rightarrow> carousel option)) \<times> string option" where
  "carousel_load json h points pointers pm =
     carousel_load_all json h points pointers (querySelectorAll (fst pm) (doc_root (fst pm)) SELECTOR_DATA_RIDE) pm"

text \<open>
  Disposal takes the listeners and the instance away.  The interval is not cleared: it goes on firing,
  and finds no element.
\<close>

definition carousel_dispose :: "bool \<Rightarrow> elem \<Rightarrow> ev_state \<times> (elem \<Rightarrow> carousel option) \<Rightarrow> ev_state \<times> (elem \<Rightarrow> carousel option)" where
  "carousel_dispose has_swipe e em =
     (let s1 = (if has_swipe then swipe_dispose e (fst em) else fst em)
      in (EventHandler_off e ''.bs.carousel'' NoHandler None s1, (snd em)(e := None)))"

text \<open>A new carousel is at rest, and cycles exactly when it was asked to; \<open>carousel_one_active\<close> applies to it.\<close>

lemma carousel_new_ready:
  assumes "carousel_new json h points pointers p e config = Inr c"
  shows "c_pending c = []" "c_element c = e" "tree (cp c) = tree p" "c_interval c \<noteq> None \<longleftrightarrow> ride c = JStr ''carousel''"
    "indicatorsElement c = querySelector p e [[[SelClass ''carousel-indicators'']]]"
    "cls \<noteq> ''pointer-event'' \<Longrightarrow> has_class (cp c) x cls = has_class p x cls"
proof -
  have keeps: "ride (cycle d) = ride d" "c_interval (cycle d) \<noteq> None" for d
    by (auto simp: cycle_def updateInterval_def clearInterval_def Let_def split: option.splits)
  from assms obtain c0 k p1 where c: "c = (if js_get k ''ride'' = JStr ''carousel'' then cycle c0 else c0)"
    and c0: "cp c0 = p1" "c_element c0 = e" "ride c0 = js_get k ''ride''" "c_interval c0 = None" "c_pending c0 = []"
      "indicatorsElement c0 = querySelector p e [[[SelClass ''carousel-indicators'']]]"
    and p1: "p1 = p \<or> p1 = add_class e ''pointer-event'' p"
    unfolding carousel_new_def Let_def by (force split: sum.splits)
  show "c_pending c = []" "c_element c = e" "indicatorsElement c = querySelector p e [[[SelClass ''carousel-indicators'']]]"
    unfolding c by (simp_all add: c0)
  show "tree (cp c) = tree p" unfolding c using p1 by (auto simp: c0 dom_simps)
  show "c_interval c \<noteq> None \<longleftrightarrow> ride c = JStr ''carousel''"
    by (cases "js_get k ''ride'' = JStr ''carousel''") (use keeps c0 in \<open>simp_all add: c\<close>)
  show "has_class (cp c) x cls = has_class p x cls" if "cls \<noteq> ''pointer-event''"
    unfolding c using p1 that by (auto simp: c0 dom_simps)
qed

end
