(* ===== verification/Bs_Collapse.thy ===== *)
theory Bs_Collapse
  imports Bs_Base
begin

text \<open>
  Bootstrap's \<open>collapse.js\<close> in \<open>bootstrap.bundle.js\<close>: collapsible elements and accordions.  The
  state holds the instances of all collapsible elements of the page, since showing one element
  of an accordion hides its siblings.  An operation is \<open>None\<close> when it throws, which only a
  selector the browser refuses causes.
\<close>

section \<open>State\<close>

record collapse =
  isTransitioning :: bool
  triggerArray :: "elem list"
  parent_el :: "elem option"

text \<open>The \<open>complete\<close> closures of \<open>show\<close> and \<open>hide\<close>, with the dimension they captured.\<close>

datatype coll_callback = ShowComplete elem string | HideComplete elem

record coll =
  lp :: page
  insts :: "elem \<Rightarrow> collapse option"
  l_pending :: "coll_callback pending"

text \<open>Sizes the browser reports, as the texts the code writes into the style.\<close>

record layout =
  scroll_px :: "elem \<Rightarrow> string \<Rightarrow> string"
  rect_px :: "elem \<Rightarrow> string \<Rightarrow> string"

definition SELECTOR_ACTIVES :: selector where
  "SELECTOR_ACTIVES = [[[SelClass ''collapse'', SelClass ''show'']], [[SelClass ''collapse'', SelClass ''collapsing'']]]"

definition toggle_sel :: selector where
  "toggle_sel = [[[SelAttr ''data-bs-toggle'' ''collapse'']]]"

text \<open>\<open>:scope .collapse .collapse\<close>.\<close>

definition deeper_sel :: selector where
  "deeper_sel = [[[SelClass ''collapse''], [SelClass ''collapse''], [SelScope]]]"

definition collapse_default :: config where
  "collapse_default = [(''parent'', JNull), (''toggle'', JBool True)]"

text \<open>
  The configuration after \<open>_configAfterMerge\<close>: the parent element and the coerced \<open>toggle\<close>.  Both
  then have their expected types, so the type check passes.
\<close>

definition collapse_config :: "host \<Rightarrow> (string \<Rightarrow> jsval option) \<Rightarrow> page \<Rightarrow> elem \<Rightarrow> jsval \<Rightarrow> (elem option \<times> bool) option" where
  "collapse_config h json p e config =
     (let c = mergeConfigObj json p collapse_default config (Some e)
      in map_option (\<lambda>par. (par, js_truthy (js_get c ''toggle''))) (getElement h p (js_get c ''parent'')))"

definition coll_isShown :: "coll \<Rightarrow> elem \<Rightarrow> bool" where
  "coll_isShown s e = has_class (lp s) e ''show''"

definition getDimension :: "coll \<Rightarrow> elem \<Rightarrow> string" where
  "getDimension s e = (if has_class (lp s) e ''collapse-horizontal'' then ''width'' else ''height'')"

definition getFirstLevelChildren :: "page \<Rightarrow> elem \<Rightarrow> selector \<Rightarrow> elem list" where
  "getFirstLevelChildren p par sel =
     (let deeper = querySelectorAll p par deeper_sel in filter (\<lambda>x. x \<notin> set deeper) (querySelectorAll p par sel))"

definition addAriaAndCollapsedClass :: "elem list \<Rightarrow> bool \<Rightarrow> page \<Rightarrow> page" where
  "addAriaAndCollapsedClass triggers isOpen p =
     foldl (\<lambda>q t. setAttribute t ''aria-expanded'' (bool_str isOpen) (force_class t ''collapsed'' (\<not> isOpen) q)) p triggers"

definition coll_queue :: "coll_callback \<Rightarrow> elem \<Rightarrow> coll \<Rightarrow> coll" where
  "coll_queue cb e s = s\<lparr>l_pending := l_pending s @ [(e, cb)]\<rparr>"

definition set_transitioning :: "elem \<Rightarrow> bool \<Rightarrow> coll \<Rightarrow> coll" where
  "set_transitioning e b s = s\<lparr>insts := (insts s)(e := map_option (\<lambda>i. i\<lparr>isTransitioning := b\<rparr>) (insts s e))\<rparr>"

section \<open>Hiding\<close>

text \<open>The triggers whose target is no longer shown are marked as collapsed.\<close>

fun mark_triggers :: "host \<Rightarrow> elem list \<Rightarrow> page \<Rightarrow> page option" where
  "mark_triggers h [] p = Some p"
| "mark_triggers h (t # ts) p =
     (case getElementFromSelector h p t of
        None \<Rightarrow> None
      | Some target \<Rightarrow>
          mark_triggers h ts
            (if (case target of None \<Rightarrow> False | Some x \<Rightarrow> \<not> has_class p x ''show'')
             then addAriaAndCollapsedClass [t] False p else p))"

definition coll_hide :: "host \<Rightarrow> layout \<Rightarrow> elem \<Rightarrow> coll \<Rightarrow> coll option" where
  "coll_hide h lay e s =
     (case insts s e of
        None \<Rightarrow> None
      | Some i \<Rightarrow>
          if isTransitioning i \<or> \<not> coll_isShown s e then Some s
          else (let p1 = triggering h e ''hide.bs.collapse'' (lp s)
                in if prevented_by h e ''hide.bs.collapse'' (lp s) then Some (s\<lparr>lp := p1\<rparr>)
                   else (let dimension = getDimension s e;
                             p2 = remove_class e ''show'' (remove_class e ''collapse'' (add_class e ''collapsing''
                                    (setStyle e dimension (rect_px lay e dimension) p1)))
                         in (case mark_triggers h (triggerArray i) p2 of
                               None \<Rightarrow> None
                             | Some p3 \<Rightarrow>
                                 Some (coll_queue (HideComplete e) e
                                   (set_transitioning e True (s\<lparr>lp := setStyle e dimension [] p3\<rparr>)))))))"

section \<open>Creating an instance\<close>

text \<open>The triggers of an element: the toggles whose selector finds it.\<close>

fun find_triggers :: "host \<Rightarrow> page \<Rightarrow> elem \<Rightarrow> elem list \<Rightarrow> elem list option" where
  "find_triggers h p e [] = Some []"
| "find_triggers h p e (t # ts) =
     (case getSelectorFromElement h p t of
        None \<Rightarrow> None
      | Some selector \<Rightarrow>
          (let hits = (case selector of None \<Rightarrow> False
                       | Some txt \<Rightarrow> (case parse_sel h txt of None \<Rightarrow> False | Some sel \<Rightarrow> e \<in> set (querySelectorAll p (doc_root p) sel)))
           in map_option (\<lambda>rest. if hits then t # rest else rest) (find_triggers h p e ts)))"

fun init_children :: "host \<Rightarrow> elem list \<Rightarrow> page \<Rightarrow> page option" where
  "init_children h [] p = Some p"
| "init_children h (t # ts) p =
     (case getElementFromSelector h p t of
        None \<Rightarrow> None
      | Some None \<Rightarrow> init_children h ts p
      | Some (Some selected) \<Rightarrow> init_children h ts (addAriaAndCollapsedClass [t] (has_class p selected ''show'') p))"

definition initializeChildren :: "host \<Rightarrow> elem option \<Rightarrow> page \<Rightarrow> page option" where
  "initializeChildren h par p =
     (case par of None \<Rightarrow> Some p | Some q \<Rightarrow> init_children h (getFirstLevelChildren p q toggle_sel) p)"

text \<open>The constructor up to its final \<open>toggle\<close>.\<close>

definition coll_init :: "host \<Rightarrow> elem \<Rightarrow> elem option \<Rightarrow> coll \<Rightarrow> coll option" where
  "coll_init h e par s =
     (case find_triggers h (lp s) e (querySelectorAll (lp s) (doc_root (lp s)) toggle_sel) of
        None \<Rightarrow> None
      | Some triggers \<Rightarrow>
          (case initializeChildren h par (lp s) of
             None \<Rightarrow> None
           | Some p1 \<Rightarrow>
               (let p2 = (if par = None then addAriaAndCollapsedClass triggers (has_class p1 e ''show'') p1 else p1)
                in Some (s\<lparr>lp := p2, insts := (insts s)(e \<mapsto> \<lparr>isTransitioning = False, triggerArray = triggers, parent_el = par\<rparr>)\<rparr>))))"

text \<open>\<open>Collapse.getOrCreateInstance(element, {toggle: false})\<close>.\<close>

definition coll_get_quiet :: "host \<Rightarrow> (string \<Rightarrow> jsval option) \<Rightarrow> elem \<Rightarrow> coll \<Rightarrow> coll option" where
  "coll_get_quiet h json e s =
     (if insts s e \<noteq> None then Some s
      else (case collapse_config h json (lp s) e (JObj [(''toggle'', JBool False)]) of
              None \<Rightarrow> None
            | Some (par, _) \<Rightarrow> coll_init h e par s))"

section \<open>Showing\<close>

fun get_all_quiet :: "host \<Rightarrow> (string \<Rightarrow> jsval option) \<Rightarrow> elem list \<Rightarrow> coll \<Rightarrow> coll option" where
  "get_all_quiet h json [] s = Some s"
| "get_all_quiet h json (e # es) s =
     (case coll_get_quiet h json e s of None \<Rightarrow> None | Some t \<Rightarrow> get_all_quiet h json es t)"

fun hide_all :: "host \<Rightarrow> layout \<Rightarrow> elem list \<Rightarrow> coll \<Rightarrow> coll option" where
  "hide_all h lay [] s = Some s"
| "hide_all h lay (e # es) s =
     (case coll_hide h lay e s of None \<Rightarrow> None | Some t \<Rightarrow> hide_all h lay es t)"

definition active_siblings :: "coll \<Rightarrow> elem \<Rightarrow> elem list" where
  "active_siblings s e =
     (case Option.bind (insts s e) parent_el of
        None \<Rightarrow> []
      | Some par \<Rightarrow> filter (\<lambda>x. x \<noteq> e) (getFirstLevelChildren (lp s) par SELECTOR_ACTIVES))"

definition is_transitioning :: "coll \<Rightarrow> elem \<Rightarrow> bool" where
  "is_transitioning s e = (case insts s e of None \<Rightarrow> False | Some i \<Rightarrow> isTransitioning i)"

text \<open>The second half of \<open>show\<close>, from the start of the element's own transition.\<close>

definition begin_show :: "layout \<Rightarrow> elem \<Rightarrow> elem list \<Rightarrow> coll \<Rightarrow> coll" where
  "begin_show lay e triggers s =
     (let dimension = getDimension s e;
          p1 = setStyle e dimension ''0'' (add_class e ''collapsing'' (remove_class e ''collapse'' (lp s)));
          p2 = addAriaAndCollapsedClass triggers True p1
      in coll_queue (ShowComplete e dimension) e
           (set_transitioning e True (s\<lparr>lp := setStyle e dimension (scroll_px lay e dimension) p2\<rparr>)))"

definition coll_show :: "host \<Rightarrow> (string \<Rightarrow> jsval option) \<Rightarrow> layout \<Rightarrow> elem \<Rightarrow> coll \<Rightarrow> coll option" where
  "coll_show h json lay e s =
     (case insts s e of
        None \<Rightarrow> None
      | Some i \<Rightarrow>
          if isTransitioning i \<or> coll_isShown s e then Some s
          else (let sibs = active_siblings s e
                in (case get_all_quiet h json sibs s of
                      None \<Rightarrow> None
                    | Some s1 \<Rightarrow>
                        if sibs \<noteq> [] \<and> is_transitioning s1 (hd sibs) then Some s1
                        else (let s2 = s1\<lparr>lp := triggering h e ''show.bs.collapse'' (lp s1)\<rparr>
                              in if prevented_by h e ''show.bs.collapse'' (lp s1) then Some s2
                                 else map_option (begin_show lay e (triggerArray i)) (hide_all h lay sibs s2)))))"

definition coll_toggle :: "host \<Rightarrow> (string \<Rightarrow> jsval option) \<Rightarrow> layout \<Rightarrow> elem \<Rightarrow> coll \<Rightarrow> coll option" where
  "coll_toggle h json lay e s = (if coll_isShown s e then coll_hide h lay e s else coll_show h json lay e s)"

definition coll_new :: "host \<Rightarrow> (string \<Rightarrow> jsval option) \<Rightarrow> layout \<Rightarrow> elem \<Rightarrow> jsval \<Rightarrow> coll \<Rightarrow> coll option" where
  "coll_new h json lay e config s =
     (case collapse_config h json (lp s) e config of
        None \<Rightarrow> None
      | Some (par, tog) \<Rightarrow>
          (case coll_init h e par s of
             None \<Rightarrow> None
           | Some s1 \<Rightarrow> if tog then coll_toggle h json lay e s1 else Some s1))"

section \<open>Completing\<close>

fun coll_call :: "host \<Rightarrow> coll \<Rightarrow> coll_callback \<Rightarrow> coll" where
  "coll_call h s (ShowComplete e dimension) =
     (let s1 = set_transitioning e False s;
          p = setStyle e dimension [] (add_class e ''show'' (add_class e ''collapse'' (remove_class e ''collapsing'' (lp s1))))
      in s1\<lparr>lp := triggering h e ''shown.bs.collapse'' p\<rparr>)"
| "coll_call h s (HideComplete e) =
     (let s1 = set_transitioning e False s; p = add_class e ''collapse'' (remove_class e ''collapsing'' (lp s1))
      in s1\<lparr>lp := triggering h e ''hidden.bs.collapse'' p\<rparr>)"

definition coll_transition_end :: "host \<Rightarrow> elem \<Rightarrow> coll \<Rightarrow> coll" where
  "coll_transition_end h e s = foldl (coll_call h) (s\<lparr>l_pending := not_due e (l_pending s)\<rparr>) (due e (l_pending s))"

text \<open>The click handler: every element the trigger's selector finds is toggled.\<close>

fun toggle_each :: "host \<Rightarrow> (string \<Rightarrow> jsval option) \<Rightarrow> layout \<Rightarrow> elem list \<Rightarrow> coll \<Rightarrow> coll option" where
  "toggle_each h json lay [] s = Some s"
| "toggle_each h json lay (e # es) s =
     (case coll_get_quiet h json e s of
        None \<Rightarrow> None
      | Some s1 \<Rightarrow> (case coll_toggle h json lay e s1 of None \<Rightarrow> None | Some s2 \<Rightarrow> toggle_each h json lay es s2))"

definition coll_click :: "host \<Rightarrow> (string \<Rightarrow> jsval option) \<Rightarrow> layout \<Rightarrow> elem \<Rightarrow> elem \<Rightarrow> elem \<Rightarrow> coll \<Rightarrow> bool \<times> coll option" where
  "coll_click h json lay target delegateTarget this s =
     (tagName (nodes (lp s) target) = ''A'' \<or> tagName (nodes (lp s) delegateTarget) = ''A'',
      case getMultipleElementsFromSelector h (lp s) this of
        None \<Rightarrow> None
      | Some es \<Rightarrow> toggle_each h json lay es s)"

section \<open>The invariant\<close>

fun cb_elem :: "coll_callback \<Rightarrow> elem" where
  "cb_elem (ShowComplete e d) = e"
| "cb_elem (HideComplete e) = e"

text \<open>
  The flag \<open>_isTransitioning\<close>, the class \<open>collapsing\<close> and the pending completion of an element
  agree; an element in transition has lost the class \<open>collapse\<close>.
\<close>

definition elem_ok :: "coll \<Rightarrow> elem \<Rightarrow> bool" where
  "elem_ok s e = (is_transitioning s e = has_class (lp s) e ''collapsing''
     \<and> (is_transitioning s e \<longrightarrow> \<not> has_class (lp s) e ''collapse'')
     \<and> (if is_transitioning s e then \<exists>cb. due e (l_pending s) = [cb] \<and> cb_elem cb = e else due e (l_pending s) = []))"

definition coll_inv :: "coll \<Rightarrow> bool" where
  "coll_inv s = (\<forall>e. elem_ok s e)"

definition selectors_parse :: "host \<Rightarrow> bool" where
  "selectors_parse h = (\<forall>x. parse_sel h x \<noteq> None)"

lemma foldl_aria_class:
  "c \<noteq> ''collapsed'' \<Longrightarrow> has_class (addAriaAndCollapsedClass ts b p) x c = has_class p x c"
  unfolding addAriaAndCollapsedClass_def by (induction ts arbitrary: p) (auto simp: dom_simps)

lemma aria_tree: "tree (addAriaAndCollapsedClass ts b p) = tree p"
  unfolding addAriaAndCollapsedClass_def by (induction ts arbitrary: p) (auto simp: dom_simps)

lemma parse_some: "selectors_parse h \<Longrightarrow> parse_sel h x = None \<longleftrightarrow> False"
  by (simp add: selectors_parse_def)

lemma getElement_total: "selectors_parse h \<Longrightarrow> \<exists>r. getElement h p v = Some r"
  by (cases v) (auto simp: getElement_def parse_some split: option.splits)

lemma getElementFromSelector_total: "selectors_parse h \<Longrightarrow> \<exists>r. getElementFromSelector h p t = Some r"
  by (cases "getSelector h p t") (auto simp: getElementFromSelector_def selectors_parse_def)

lemma getSelectorFromElement_total: "selectors_parse h \<Longrightarrow> \<exists>r. getSelectorFromElement h p t = Some r"
  by (cases "getSelector h p t") (auto simp: getSelectorFromElement_def selectors_parse_def)

lemma mark_triggers_ok:
  assumes "selectors_parse h"
  shows "\<exists>q. mark_triggers h ts p = Some q \<and> (\<forall>x c. c \<noteq> ''collapsed'' \<longrightarrow> has_class q x c = has_class p x c)"
proof (induction ts arbitrary: p)
  case (Cons t ts)
  obtain r where "getElementFromSelector h p t = Some r" using getElementFromSelector_total [OF assms] by blast
  moreover have "\<exists>q. mark_triggers h ts (addAriaAndCollapsedClass [t] False p) = Some q
      \<and> (\<forall>x c. c \<noteq> ''collapsed'' \<longrightarrow> has_class q x c = has_class p x c)"
    using Cons.IH [of "addAriaAndCollapsedClass [t] False p"] by (simp add: foldl_aria_class)
  ultimately show ?case using Cons.IH [of p] by simp
qed simp

lemma init_children_ok:
  assumes "selectors_parse h"
  shows "\<exists>q. init_children h ts p = Some q \<and> (\<forall>x c. c \<noteq> ''collapsed'' \<longrightarrow> has_class q x c = has_class p x c)"
proof (induction ts arbitrary: p)
  case (Cons t ts)
  obtain r where r: "getElementFromSelector h p t = Some r" using getElementFromSelector_total [OF assms] by blast
  have "\<exists>q. init_children h ts (addAriaAndCollapsedClass [t] b p) = Some q
      \<and> (\<forall>x c. c \<noteq> ''collapsed'' \<longrightarrow> has_class q x c = has_class p x c)" for b
    using Cons.IH [of "addAriaAndCollapsedClass [t] b p"] by (simp add: foldl_aria_class)
  then show ?case using Cons.IH [of p] r by (cases r) simp_all
qed simp

lemma find_triggers_total: "selectors_parse h \<Longrightarrow> \<exists>r. find_triggers h p e ts = Some r"
proof (induction ts)
  case (Cons t ts)
  obtain r where "getSelectorFromElement h p t = Some r" using getSelectorFromElement_total [OF Cons.prems] by blast
  with Cons show ?case by (auto simp: Let_def)
qed simp

text \<open>Everything but triggers' markings is as before: the relation of creating instances.\<close>

definition same_shape :: "coll \<Rightarrow> coll \<Rightarrow> bool" where
  "same_shape s t = (l_pending t = l_pending s \<and> (\<forall>x. is_transitioning t x = is_transitioning s x)
     \<and> (\<forall>x c. c \<noteq> ''collapsed'' \<longrightarrow> has_class (lp t) x c = has_class (lp s) x c)
     \<and> (\<forall>x. insts s x \<noteq> None \<longrightarrow> insts t x = insts s x))"

lemma same_shape_refl [simp]: "same_shape s s"
  by (simp add: same_shape_def)

lemma same_shape_trans: "same_shape s t \<Longrightarrow> same_shape t u \<Longrightarrow> same_shape s u"
  unfolding same_shape_def by metis

lemma same_shape_inv: "same_shape s t \<Longrightarrow> coll_inv s \<Longrightarrow> coll_inv t"
  by (simp add: same_shape_def coll_inv_def elem_ok_def)

lemma coll_init_ok:
  assumes "selectors_parse h" "insts s e = None"
  shows "\<exists>t. coll_init h e par s = Some t \<and> same_shape s t \<and> insts t e \<noteq> None"
proof -
  obtain tr where tr: "find_triggers h (lp s) e (querySelectorAll (lp s) (doc_root (lp s)) toggle_sel) = Some tr"
    using find_triggers_total [OF assms(1)] by blast
  obtain q where q: "initializeChildren h par (lp s) = Some q" "\<forall>x c. c \<noteq> ''collapsed'' \<longrightarrow> has_class q x c = has_class (lp s) x c"
  proof (cases par)
    case None
    then show ?thesis using that by (simp add: initializeChildren_def)
  next
    case (Some a)
    then show ?thesis using that init_children_ok [OF assms(1), of "getFirstLevelChildren (lp s) a toggle_sel" "lp s"]
      by (auto simp: initializeChildren_def)
  qed
  show ?thesis using assms(2) tr q
    by (simp add: coll_init_def Let_def same_shape_def is_transitioning_def foldl_aria_class)
qed

lemma coll_get_quiet_ok:
  assumes "selectors_parse h"
  shows "\<exists>t. coll_get_quiet h json e s = Some t \<and> same_shape s t \<and> insts t e \<noteq> None"
proof (cases "insts s e")
  case None
  obtain r where "collapse_config h json (lp s) e (JObj [(''toggle'', JBool False)]) = Some r"
    using getElement_total [OF assms, of "lp s" "js_get (mergeConfigObj json (lp s) collapse_default
        (JObj [(''toggle'', JBool False)]) (Some e)) ''parent''"]
    by (auto simp: collapse_config_def Let_def)
  with coll_init_ok [OF assms None] None show ?thesis by (cases r) (simp add: coll_get_quiet_def)
qed (simp add: coll_get_quiet_def)

lemma get_all_quiet_ok:
  assumes "selectors_parse h"
  shows "\<exists>t. get_all_quiet h json es s = Some t \<and> same_shape s t \<and> (\<forall>e \<in> set es. insts t e \<noteq> None)"
proof (induction es arbitrary: s)
  case (Cons e es)
  obtain t where t: "coll_get_quiet h json e s = Some t" "same_shape s t" "insts t e \<noteq> None"
    using coll_get_quiet_ok [OF assms] by blast
  obtain u where u: "get_all_quiet h json es t = Some u" "same_shape t u" "\<forall>e \<in> set es. insts u e \<noteq> None"
    using Cons.IH by blast
  then have "insts u e \<noteq> None" using t(3) by (auto simp: same_shape_def)
  with t u show ?case by (auto intro: same_shape_trans)
qed simp

text \<open>One element starts a transition; the others keep their classes and flags.\<close>

definition starts :: "elem \<Rightarrow> coll \<Rightarrow> coll \<Rightarrow> bool" where
  "starts e s t = (is_transitioning t e \<and> has_class (lp t) e ''collapsing'' \<and> \<not> has_class (lp t) e ''collapse''
     \<and> (\<exists>cb. l_pending t = l_pending s @ [(e, cb)] \<and> cb_elem cb = e)
     \<and> (\<forall>x. x \<noteq> e \<longrightarrow> insts t x = insts s x) \<and> (insts s e \<noteq> None \<longrightarrow> insts t e \<noteq> None)
     \<and> (\<forall>x c. x \<noteq> e \<longrightarrow> c \<noteq> ''collapsed'' \<longrightarrow> has_class (lp t) x c = has_class (lp s) x c))"

lemma starts_inv:
  assumes "coll_inv s" "starts e s t" "\<not> is_transitioning s e"
  shows "coll_inv t"
  unfolding coll_inv_def
proof
  fix x
  have p: "elem_ok s x" "elem_ok s e" using assms(1) by (simp_all add: coll_inv_def)
  obtain cb where cb: "l_pending t = l_pending s @ [(e, cb)]" "cb_elem cb = e" using assms(2) by (auto simp: starts_def)
  show "elem_ok t x"
  proof (cases "x = e")
    case True
    with p assms(2,3) cb show ?thesis by (auto simp: elem_ok_def starts_def due_def)
  next
    case False
    then have "is_transitioning t x = is_transitioning s x" "due x (l_pending t) = due x (l_pending s)"
      using assms(2) cb by (auto simp: starts_def is_transitioning_def due_def)
    with False p assms(2) show ?thesis by (simp add: elem_ok_def starts_def)
  qed
qed

lemma coll_hide_ok:
  assumes "selectors_parse h" "insts s e = Some i"
  shows "\<exists>t. coll_hide h lay e s = Some t \<and>
    (t = s \<and> (isTransitioning i \<or> \<not> coll_isShown s e)
     \<or> t = s\<lparr>lp := triggering h e ''hide.bs.collapse'' (lp s)\<rparr> \<and> prevented_by h e ''hide.bs.collapse'' (lp s)
     \<or> starts e s t \<and> \<not> isTransitioning i \<and> \<not> coll_isShown t e)"
proof -
  let ?d = "getDimension s e" and ?p1 = "triggering h e ''hide.bs.collapse'' (lp s)"
  let ?p2 = "remove_class e ''show'' (remove_class e ''collapse'' (add_class e ''collapsing'' (setStyle e ?d (rect_px lay e ?d) ?p1)))"
  obtain q where q: "mark_triggers h (triggerArray i) ?p2 = Some q" "\<forall>x c. c \<noteq> ''collapsed'' \<longrightarrow> has_class q x c = has_class ?p2 x c"
    using mark_triggers_ok [OF assms(1)] by blast
  let ?t = "coll_queue (HideComplete e) e (set_transitioning e True (s\<lparr>lp := setStyle e ?d [] q\<rparr>))"
  have "starts e s ?t" "\<not> coll_isShown ?t e"
    using assms(2) q(2) by (auto simp: starts_def coll_queue_def set_transitioning_def is_transitioning_def coll_isShown_def dom_simps)
  with assms(2) q(1) show ?thesis by (auto simp: coll_hide_def Let_def)
qed

lemma trigger_inv: "coll_inv s \<Longrightarrow> coll_inv (s\<lparr>lp := triggering h e ev (lp s)\<rparr>)"
  by (simp add: coll_inv_def elem_ok_def is_transitioning_def dom_simps)

lemma coll_hide_inv:
  assumes "selectors_parse h" "insts s e \<noteq> None" "coll_inv s"
  shows "\<exists>t. coll_hide h lay e s = Some t \<and> coll_inv t \<and> (\<forall>x. insts s x \<noteq> None \<longrightarrow> insts t x \<noteq> None)
    \<and> (\<forall>x. x \<noteq> e \<longrightarrow> is_transitioning t x = is_transitioning s x \<and> insts t x = insts s x
         \<and> (\<forall>c. c \<noteq> ''collapsed'' \<longrightarrow> has_class (lp t) x c = has_class (lp s) x c))"
proof -
  obtain i where i: "insts s e = Some i" using assms(2) by blast
  obtain t where t: "coll_hide h lay e s = Some t" and c:
    "t = s \<and> (isTransitioning i \<or> \<not> coll_isShown s e)
     \<or> t = s\<lparr>lp := triggering h e ''hide.bs.collapse'' (lp s)\<rparr> \<and> prevented_by h e ''hide.bs.collapse'' (lp s)
     \<or> starts e s t \<and> \<not> isTransitioning i \<and> \<not> coll_isShown t e"
    using coll_hide_ok [OF assms(1) i] by blast
  from c consider (idle) "t = s" | (veto) "t = s\<lparr>lp := triggering h e ''hide.bs.collapse'' (lp s)\<rparr>"
    | (go) "starts e s t" "\<not> isTransitioning i" by blast
  then show ?thesis
  proof cases
    case idle
    with t assms(3) show ?thesis by auto
  next
    case veto
    with t assms(3) trigger_inv show ?thesis by (auto simp: is_transitioning_def dom_simps)
  next
    case go
    then have "coll_inv t" using starts_inv [OF assms(3)] i by (simp add: is_transitioning_def)
    moreover have "\<forall>x. insts s x \<noteq> None \<longrightarrow> insts t x \<noteq> None" using go(1) by (metis starts_def)
    ultimately show ?thesis using t go(1) by (auto simp: starts_def is_transitioning_def)
  qed
qed

lemma hide_all_inv:
  assumes "selectors_parse h"
  shows "coll_inv s \<Longrightarrow> \<forall>e \<in> set es. insts s e \<noteq> None \<Longrightarrow>
    \<exists>t. hide_all h lay es s = Some t \<and> coll_inv t \<and> (\<forall>x. insts s x \<noteq> None \<longrightarrow> insts t x \<noteq> None)
      \<and> (\<forall>x. x \<notin> set es \<longrightarrow> is_transitioning t x = is_transitioning s x \<and> insts t x = insts s x
           \<and> (\<forall>c. c \<noteq> ''collapsed'' \<longrightarrow> has_class (lp t) x c = has_class (lp s) x c))"
proof (induction es arbitrary: s)
  case (Cons e es)
  obtain t where t: "coll_hide h lay e s = Some t" "coll_inv t" "\<forall>x. insts s x \<noteq> None \<longrightarrow> insts t x \<noteq> None"
      "\<forall>x. x \<noteq> e \<longrightarrow> is_transitioning t x = is_transitioning s x \<and> insts t x = insts s x
         \<and> (\<forall>c. c \<noteq> ''collapsed'' \<longrightarrow> has_class (lp t) x c = has_class (lp s) x c)"
    using coll_hide_inv [OF assms, of s e lay] Cons.prems by auto
  have "\<forall>e \<in> set es. insts t e \<noteq> None" using t(3) Cons.prems(2) by simp
  from Cons.IH [OF t(2) this] obtain u where u: "hide_all h lay es t = Some u" "coll_inv u"
      "\<forall>x. insts t x \<noteq> None \<longrightarrow> insts u x \<noteq> None"
      "\<forall>x. x \<notin> set es \<longrightarrow> is_transitioning u x = is_transitioning t x \<and> insts u x = insts t x
           \<and> (\<forall>c. c \<noteq> ''collapsed'' \<longrightarrow> has_class (lp u) x c = has_class (lp t) x c)" by blast
  show ?case using t u by auto
qed simp

lemma begin_show_starts: "insts s e \<noteq> None \<Longrightarrow> starts e s (begin_show lay e ts s)"
  by (auto simp: begin_show_def Let_def starts_def coll_queue_def set_transitioning_def is_transitioning_def dom_simps
      foldl_aria_class)

lemma begin_show_show: "has_class (lp (begin_show lay e ts s)) x ''show'' = has_class (lp s) x ''show''"
  by (simp add: begin_show_def Let_def coll_queue_def set_transitioning_def dom_simps foldl_aria_class)

lemma coll_show_inv:
  assumes "selectors_parse h" "coll_inv s" "insts s e \<noteq> None"
  shows "\<exists>t. coll_show h json lay e s = Some t \<and> coll_inv t"
proof -
  obtain i where i: "insts s e = Some i" using assms(3) by blast
  show ?thesis
  proof (cases "isTransitioning i \<or> coll_isShown s e")
    case True
    with i assms(2) show ?thesis by (simp add: coll_show_def)
  next
    case False
    let ?sibs = "active_siblings s e"
    obtain s1 where s1: "get_all_quiet h json ?sibs s = Some s1" "same_shape s s1" "\<forall>x \<in> set ?sibs. insts s1 x \<noteq> None"
      using get_all_quiet_ok [OF assms(1)] by blast
    have i1: "coll_inv s1" by (rule same_shape_inv [OF s1(2) assms(2)])
    let ?s2 = "s1\<lparr>lp := triggering h e ''show.bs.collapse'' (lp s1)\<rparr>"
    have i2: "coll_inv ?s2" by (rule trigger_inv [OF i1])
    have "\<forall>x \<in> set ?sibs. insts ?s2 x \<noteq> None" using s1(3) by simp
    from hide_all_inv [OF assms(1) i2 this, of lay] obtain t where t: "hide_all h lay ?sibs ?s2 = Some t" "coll_inv t"
        "\<forall>x. insts ?s2 x \<noteq> None \<longrightarrow> insts t x \<noteq> None" "\<forall>x. x \<notin> set ?sibs \<longrightarrow> is_transitioning t x = is_transitioning ?s2 x"
      by blast
    have e: "e \<notin> set ?sibs" by (auto simp: active_siblings_def split: option.splits)
    have "insts ?s2 e \<noteq> None" using s1(2) i by (auto simp: same_shape_def)
    then have te: "insts t e \<noteq> None" using t(3) by blast
    have "is_transitioning ?s2 e = is_transitioning s e" using s1(2) by (simp add: same_shape_def is_transitioning_def)
    then have "\<not> is_transitioning t e" using t(4) e False i by (simp add: is_transitioning_def)
    then have "coll_inv (begin_show lay e (triggerArray i) t)"
      using starts_inv [OF t(2) begin_show_starts [OF te]] by blast
    then have "\<exists>u. map_option (begin_show lay e (triggerArray i)) (hide_all h lay ?sibs ?s2) = Some u \<and> coll_inv u"
      using t(1) by simp
    then show ?thesis using False i s1(1) i1 i2 by (simp only: coll_show_def Let_def option.case if_False) auto
  qed
qed

lemma coll_call_inv:
  assumes "coll_inv (s\<lparr>l_pending := l_pending s @ [(e, cb)]\<rparr>)" "cb_elem cb = e" "due e (l_pending s) = []" "is_transitioning s e"
  shows "coll_inv (coll_call h s cb)"
  unfolding coll_inv_def
proof
  fix x
  have p: "elem_ok (s\<lparr>l_pending := l_pending s @ [(e, cb)]\<rparr>) x" using assms(1) by (simp add: coll_inv_def)
  have t: "is_transitioning (coll_call h s cb) x = (x \<noteq> e \<and> is_transitioning s x)"
    using assms(2) by (cases cb) (auto simp: set_transitioning_def is_transitioning_def Let_def split: option.splits)
  have c: "has_class (lp (coll_call h s cb)) x ''collapsing'' = (x \<noteq> e \<and> has_class (lp s) x ''collapsing'')"
      "x \<noteq> e \<Longrightarrow> has_class (lp (coll_call h s cb)) x ''collapse'' = has_class (lp s) x ''collapse''"
    using assms(2) by (cases cb; auto simp: set_transitioning_def Let_def dom_simps)+
  have l: "l_pending (coll_call h s cb) = l_pending s" by (cases cb) (simp_all add: set_transitioning_def Let_def)
  show "elem_ok (coll_call h s cb) x"
  proof (cases "x = e")
    case True
    have "\<not> is_transitioning (coll_call h s cb) e" "\<not> has_class (lp (coll_call h s cb)) e ''collapsing''"
      using t c(1) True by simp_all
    then show ?thesis using assms(3) True by (simp add: elem_ok_def l)
  next
    case False
    then have "due x (l_pending s @ [(e, cb)]) = due x (l_pending s)" by (simp add: due_def)
    moreover have "is_transitioning (s\<lparr>l_pending := ps\<rparr>) x = is_transitioning s x" for ps by (simp add: is_transitioning_def)
    ultimately show ?thesis using p t c False by (auto simp: elem_ok_def l split: if_splits)
  qed
qed

lemma due_not_due: "due e (not_due e ps) = []" "x \<noteq> e \<Longrightarrow> due x (not_due e ps) = due x ps"
  by (auto simp: due_def not_due_def filter_empty_conv intro!: arg_cong [where f = "map snd"] filter_cong)

lemma transition_end_inv: "coll_inv s \<Longrightarrow> coll_inv (coll_transition_end h e s)"
proof (cases "is_transitioning s e")
  case False
  assume "coll_inv s"
  then have d: "due e (l_pending s) = []" using False by (simp add: coll_inv_def elem_ok_def)
  then have "not_due e (l_pending s) = l_pending s"
    by (auto simp: due_def not_due_def filter_empty_conv filter_id_conv)
  with d \<open>coll_inv s\<close> show ?thesis by (simp add: coll_transition_end_def)
next
  case True
  assume inv: "coll_inv s"
  then have "elem_ok s e" by (simp add: coll_inv_def)
  then obtain cb where cb: "due e (l_pending s) = [cb]" "cb_elem cb = e"
    using True by (auto simp: elem_ok_def)
  let ?u = "s\<lparr>l_pending := not_due e (l_pending s)\<rparr>"
  have "coll_inv (?u\<lparr>l_pending := l_pending ?u @ [(e, cb)]\<rparr>)"
    unfolding coll_inv_def
  proof
    fix x
    have "due x (not_due e (l_pending s) @ [(e, cb)]) = due x (l_pending s)"
    proof (cases "x = e")
      case True
      have "due e (xs @ ys) = due e xs @ due e ys" for xs ys :: "coll_callback pending" by (simp add: due_def)
      then show ?thesis using True cb(1) due_not_due(1) [of e "l_pending s"] by (simp add: due_def)
    next
      case False
      have "due x (xs @ [(e, cb)]) = due x xs" for xs using False by (simp add: due_def)
      then show ?thesis using False due_not_due(2) by simp
    qed
    with inv show "elem_ok (?u\<lparr>l_pending := l_pending ?u @ [(e, cb)]\<rparr>) x"
      by (simp add: coll_inv_def elem_ok_def is_transitioning_def)
  qed
  from coll_call_inv [OF this cb(2)] True cb show ?thesis
    by (simp add: coll_transition_end_def due_not_due is_transitioning_def)
qed

section \<open>Properties\<close>

datatype coll_event = DoShow elem | DoHide elem | DoToggle elem | DoEnd elem

definition with_instance ::
  "host \<Rightarrow> (string \<Rightarrow> jsval option) \<Rightarrow> elem \<Rightarrow> (coll \<Rightarrow> coll option) \<Rightarrow> coll \<Rightarrow> coll option" where
  "with_instance h json e f s = (case coll_get_quiet h json e s of None \<Rightarrow> None | Some t \<Rightarrow> f t)"

fun coll_step :: "host \<Rightarrow> (string \<Rightarrow> jsval option) \<Rightarrow> layout \<Rightarrow> coll_event \<Rightarrow> coll \<Rightarrow> coll option" where
  "coll_step h json lay (DoShow e) s = with_instance h json e (coll_show h json lay e) s"
| "coll_step h json lay (DoHide e) s = with_instance h json e (coll_hide h lay e) s"
| "coll_step h json lay (DoToggle e) s = with_instance h json e (coll_toggle h json lay e) s"
| "coll_step h json lay (DoEnd e) s = Some (coll_transition_end h e s)"

fun coll_run :: "host \<Rightarrow> (string \<Rightarrow> jsval option) \<Rightarrow> layout \<Rightarrow> coll_event list \<Rightarrow> coll \<Rightarrow> coll option" where
  "coll_run h json lay [] s = Some s"
| "coll_run h json lay (ev # evs) s = (case coll_step h json lay ev s of None \<Rightarrow> None | Some t \<Rightarrow> coll_run h json lay evs t)"

lemma with_instance_inv:
  assumes "selectors_parse h" "coll_inv s" "\<And>t. coll_inv t \<Longrightarrow> insts t e \<noteq> None \<Longrightarrow> \<exists>u. f t = Some u \<and> coll_inv u"
  shows "\<exists>u. with_instance h json e f s = Some u \<and> coll_inv u"
proof -
  obtain t where "coll_get_quiet h json e s = Some t" "same_shape s t" "insts t e \<noteq> None"
    using coll_get_quiet_ok [OF assms(1)] by blast
  with assms(2,3) same_shape_inv show ?thesis by (auto simp: with_instance_def)
qed

lemma coll_toggle_inv:
  "selectors_parse h \<Longrightarrow> coll_inv s \<Longrightarrow> insts s e \<noteq> None \<Longrightarrow> \<exists>t. coll_toggle h json lay e s = Some t \<and> coll_inv t"
  unfolding coll_toggle_def using coll_show_inv coll_hide_inv by (metis (full_types))

lemma coll_step_inv:
  assumes "selectors_parse h" "coll_inv s"
  shows "\<exists>t. coll_step h json lay ev s = Some t \<and> coll_inv t"
proof (cases ev)
  case (DoShow e)
  then show ?thesis using with_instance_inv [OF assms] coll_show_inv [OF assms(1)] by simp
next
  case (DoHide e)
  have "\<exists>u. coll_hide h lay e t = Some u \<and> coll_inv u" if "coll_inv t" "insts t e \<noteq> None" for t
    using coll_hide_inv [OF assms(1) that(2,1)] by blast
  with DoHide show ?thesis using with_instance_inv [OF assms] by simp
next
  case (DoToggle e)
  then show ?thesis using with_instance_inv [OF assms] coll_toggle_inv [OF assms(1)] by simp
next
  case (DoEnd e)
  then show ?thesis using transition_end_inv [OF assms(2)] by simp
qed


definition parsing_host :: host where
  "parsing_host = quiet_host\<lparr>parse_sel := (\<lambda>_. Some [[[SelId ''panel'']]])\<rparr>"

definition plain_layout :: layout where
  "plain_layout = \<lparr>scroll_px = (\<lambda>_ _. ''120px''), rect_px = (\<lambda>_ _. ''120px'')\<rparr>"


subsection \<open>Accordions\<close>

lemma matches_actives:
  "in_page p x \<Longrightarrow> matches_in p rt SELECTOR_ACTIVES x \<longleftrightarrow>
     has_class p x ''collapse'' \<and> (has_class p x ''show'' \<or> has_class p x ''collapsing'')"
proof -
  assume "in_page p x"
  then have "chain x (tree p) \<noteq> []" by (simp add: chain_Nil_preorder)
  then obtain up where "chain x (tree p) = x # up" using chain_head [of x "tree p"] by (cases "chain x (tree p)") auto
  then show ?thesis by (auto simp: matches_in_def SELECTOR_ACTIVES_def)
qed

text \<open>In a tracked state an active sibling is fully shown, never in transition.\<close>

lemma active_sibling_shown:
  assumes "coll_inv s" "x \<in> set (active_siblings s e)"
  shows "has_class (lp s) x ''show'' \<and> \<not> is_transitioning s x"
proof -
  obtain par where x: "x \<in> set (querySelectorAll (lp s) par SELECTOR_ACTIVES)"
    using assms(2) by (auto simp: active_siblings_def getFirstLevelChildren_def Let_def split: option.splits)
  have "has_class (lp s) x ''collapse'' \<and> (has_class (lp s) x ''show'' \<or> has_class (lp s) x ''collapsing'')"
    using matches_actives [OF querySelectorAll_in_page [OF x]] querySelectorAll_matches [OF x] by simp
  moreover have "elem_ok s x" using assms(1) by (simp add: coll_inv_def)
  ultimately show ?thesis by (auto simp: elem_ok_def)
qed

lemma hide_all_hides:
  assumes "selectors_parse h" "\<And>x p. \<not> prevented_by h x ''hide.bs.collapse'' p"
  shows "\<forall>x \<in> set es. insts s x \<noteq> None \<and> \<not> is_transitioning s x \<Longrightarrow> distinct es \<Longrightarrow> coll_inv s \<Longrightarrow>
    hide_all h lay es s = Some t \<Longrightarrow> x \<in> set es \<Longrightarrow> \<not> has_class (lp t) x ''show''"
proof (induction es arbitrary: s)
  case (Cons e es)
  obtain i where i: "insts s e = Some i" "\<not> isTransitioning i" using Cons.prems(1) by (auto simp: is_transitioning_def)
  obtain u where u: "coll_hide h lay e s = Some u" using coll_hide_ok [OF assms(1) i(1)] by blast
  have e: "\<not> has_class (lp u) e ''show''"
    using coll_hide_ok [OF assms(1) i(1), of lay] u assms(2) i(2) by (auto simp: coll_isShown_def)
  have keep: "coll_inv u" "\<forall>x. insts s x \<noteq> None \<longrightarrow> insts u x \<noteq> None" "\<forall>x. x \<noteq> e \<longrightarrow> is_transitioning u x = is_transitioning s x"
    using coll_hide_inv [OF assms(1), of s e lay] i(1) Cons.prems(3) u by auto
  have rest: "hide_all h lay es u = Some t" using Cons.prems(4) u by simp
  have es: "\<forall>x \<in> set es. insts u x \<noteq> None \<and> \<not> is_transitioning u x" using Cons.prems(1,2) keep by auto
  show ?case
  proof (cases "x = e")
    case True
    then have "x \<notin> set es" using Cons.prems(2) by simp
    moreover have "\<forall>x \<in> set es. insts u x \<noteq> None" using es by blast
    ultimately have "has_class (lp t) x ''show'' = has_class (lp u) x ''show''"
      using hide_all_inv [OF assms(1) keep(1), of es lay] rest by auto
    with True e show ?thesis by simp
  next
    case False
    then show ?thesis using Cons.IH [OF es _ keep(1) rest] Cons.prems(2,5) by simp
  qed
qed simp


definition item_node_c :: "string list \<Rightarrow> node" where
  "item_node_c cs = \<lparr>tagName = ''div'', classList = cs, attributes = [], style = (\<lambda>_. []), textContent = []\<rparr>"

definition accordion_page :: page where
  "accordion_page = \<lparr>tree = Elem 2 [Elem 3 [], Elem 4 []],
     nodes = (\<lambda>e. if e = 3 then item_node_c [''collapse'', ''show''] else if e = 4 then item_node_c [''collapse''] else item_node_c []),
     focused = None, ev_log = []\<rparr>"

definition accordion :: coll where
  "accordion = \<lparr>lp = accordion_page, insts = (\<lambda>e. if e = 4 then Some \<lparr>isTransitioning = False, triggerArray = [], parent_el = Some 2\<rparr> else None),
     l_pending = []\<rparr>"


end
