(* ===== verification/Bs_Overlay.thy ===== *)
theory Bs_Overlay
  imports Bs_Base
begin

text \<open>
  Bootstrap's \<open>util/backdrop.js\<close>, \<open>util/focustrap.js\<close> and \<open>util/scrollBar.js\<close> in
  \<open>bootstrap.bundle.js\<close>, the helpers that modals and offcanvas panels share: the backdrop element,
  the trap that keeps the keyboard focus inside a panel, and the compensation for the scroll bar
  that disappears while the body does not scroll.
\<close>

section \<open>What the browser reports\<close>

text \<open>
  Sizes and computed styles depend on the page, since the code changes inline styles and then
  measures again.  \<open>px\<close> is the text of a number, or of \<open>NaN\<close>, with the unit.
\<close>

record view =
  body :: elem
  innerWidth :: rat
  docWidth :: "page \<Rightarrow> rat"
  docHeight :: "page \<Rightarrow> rat"
  clientWidth :: "page \<Rightarrow> elem \<Rightarrow> rat"
  scrollHeight :: "page \<Rightarrow> elem \<Rightarrow> rat"
  computedStyle :: "page \<Rightarrow> elem \<Rightarrow> string \<Rightarrow> string"
  px :: "rat option \<Rightarrow> string"

section \<open>ScrollBarHelper\<close>

definition SELECTOR_FIXED_CONTENT :: selector where
  "SELECTOR_FIXED_CONTENT = [[[SelClass ''fixed-top'']], [[SelClass ''fixed-bottom'']], [[SelClass ''is-fixed'']], [[SelClass ''sticky-top'']]]"

definition SELECTOR_STICKY_CONTENT :: selector where
  "SELECTOR_STICKY_CONTENT = [[[SelClass ''sticky-top'']]]"

definition getWidth :: "view \<Rightarrow> page \<Rightarrow> rat" where
  "getWidth v p = \<bar>innerWidth v - docWidth v p\<bar>"

definition isOverflowing :: "view \<Rightarrow> page \<Rightarrow> bool" where
  "isOverflowing v p = (getWidth v p > 0)"

datatype scope = The elem | AllOf selector

definition applyManipulationCallback :: "view \<Rightarrow> scope \<Rightarrow> (elem \<Rightarrow> page \<Rightarrow> page) \<Rightarrow> page \<Rightarrow> page" where
  "applyManipulationCallback v sel callBack p =
     (case sel of
        The e \<Rightarrow> callBack e p
      | AllOf s \<Rightarrow> foldl (\<lambda>q x. callBack x q) p (SE_find p (body v) s))"

definition saveInitialAttribute :: "string \<Rightarrow> elem \<Rightarrow> page \<Rightarrow> page" where
  "saveInitialAttribute prop e p =
     (let actualValue = getStyle p e prop in if actualValue \<noteq> [] then setDataAttribute e prop actualValue p else p)"

text \<open>The manipulation callbacks of \<open>_setElementAttributes\<close> and \<open>_resetElementAttributes\<close>.\<close>

definition set_one :: "view \<Rightarrow> rat \<Rightarrow> string \<Rightarrow> (rat \<Rightarrow> rat) \<Rightarrow> elem \<Rightarrow> page \<Rightarrow> page" where
  "set_one v scrollbarWidth prop calc e p =
     (if e \<noteq> body v \<and> innerWidth v > clientWidth v p e + scrollbarWidth then p
      else (let p1 = saveInitialAttribute prop e p
            in setStyle e prop (px v (map_option calc (parseFloat (computedStyle v p1 e prop)))) p1))"

text \<open>
  The value that is written back: a string as it is, a number or boolean in the text it was
  recognised by.  \<open>None\<close> is \<open>null\<close>.
\<close>

definition saved_value :: "(string \<Rightarrow> jsval option) \<Rightarrow> string option \<Rightarrow> string option" where
  "saved_value json attr =
     (case normalizeData json attr of
        JNull \<Rightarrow> None
      | JStr s \<Rightarrow> Some s
      | _ \<Rightarrow> attr)"

definition reset_one :: "(string \<Rightarrow> jsval option) \<Rightarrow> string \<Rightarrow> elem \<Rightarrow> page \<Rightarrow> page" where
  "reset_one json prop e p =
     (case saved_value json (getAttribute p e (data_name prop)) of
        None \<Rightarrow> setStyle e prop [] p
      | Some value \<Rightarrow> setStyle e prop value (removeDataAttribute e prop p))"

definition setElementAttributes :: "view \<Rightarrow> scope \<Rightarrow> string \<Rightarrow> (rat \<Rightarrow> rat) \<Rightarrow> page \<Rightarrow> page" where
  "setElementAttributes v sel prop calc p = applyManipulationCallback v sel (set_one v (getWidth v p) prop calc) p"

definition resetElementAttributes :: "(string \<Rightarrow> jsval option) \<Rightarrow> view \<Rightarrow> scope \<Rightarrow> string \<Rightarrow> page \<Rightarrow> page" where
  "resetElementAttributes json v sel prop p = applyManipulationCallback v sel (reset_one json prop) p"

definition disableOverFlow :: "view \<Rightarrow> page \<Rightarrow> page" where
  "disableOverFlow v p = setStyle (body v) ''overflow'' ''hidden'' (saveInitialAttribute ''overflow'' (body v) p)"

definition scroll_hide :: "view \<Rightarrow> page \<Rightarrow> page" where
  "scroll_hide v p =
     (let width = getWidth v p;
          p1 = disableOverFlow v p;
          p2 = setElementAttributes v (The (body v)) ''padding-right'' (\<lambda>n. n + width) p1;
          p3 = setElementAttributes v (AllOf SELECTOR_FIXED_CONTENT) ''padding-right'' (\<lambda>n. n + width) p2
      in setElementAttributes v (AllOf SELECTOR_STICKY_CONTENT) ''margin-right'' (\<lambda>n. n - width) p3)"

definition scroll_reset :: "(string \<Rightarrow> jsval option) \<Rightarrow> view \<Rightarrow> page \<Rightarrow> page" where
  "scroll_reset json v p =
     (let p1 = resetElementAttributes json v (The (body v)) ''overflow'' p;
          p2 = resetElementAttributes json v (The (body v)) ''padding-right'' p1;
          p3 = resetElementAttributes json v (AllOf SELECTOR_FIXED_CONTENT) ''padding-right'' p2
      in resetElementAttributes json v (AllOf SELECTOR_STICKY_CONTENT) ''margin-right'' p3)"

section \<open>FocusTrap\<close>

text \<open>
  A trap, and the owner of the focus handlers on the document.  \<open>activate\<close> and \<open>deactivate\<close> take
  every handler with the trap's key off the document, so there is at most one owner.
\<close>

record focustrap =
  ft_autofocus :: bool
  trapElement :: elem
  ft_isActive :: bool
  lastTabBackward :: "bool option"

definition new_trap :: "elem \<Rightarrow> focustrap" where
  "new_trap e = \<lparr>ft_autofocus = True, trapElement = e, ft_isActive = False, lastTabBackward = None\<rparr>"

definition activate :: "focustrap \<Rightarrow> elem option \<Rightarrow> page \<Rightarrow> focustrap \<times> elem option \<times> page" where
  "activate t owner p =
     (if ft_isActive t then (t, owner, p)
      else (t\<lparr>ft_isActive := True\<rparr>, Some (trapElement t), if ft_autofocus t then focus_el (trapElement t) p else p))"

definition deactivate :: "focustrap \<Rightarrow> elem option \<Rightarrow> focustrap \<times> elem option" where
  "deactivate t owner = (if \<not> ft_isActive t then (t, owner) else (t\<lparr>ft_isActive := False\<rparr>, None))"

text \<open>The target of a \<open>focusin\<close> event is \<open>None\<close> for the document itself.\<close>

definition handleFocusin :: "host \<Rightarrow> focustrap \<Rightarrow> elem option \<Rightarrow> page \<Rightarrow> page" where
  "handleFocusin h t target p =
     (case target of
        None \<Rightarrow> p
      | Some x \<Rightarrow>
          if x = trapElement t \<or> contains p (trapElement t) x then p
          else (let elements = focusableChildren h p (trapElement t)
                in if elements = [] then focus_el (trapElement t) p
                   else if lastTabBackward t = Some True then focus_el (last elements) p
                   else focus_el (hd elements) p))"

definition handleKeydown :: "string \<Rightarrow> bool \<Rightarrow> focustrap \<Rightarrow> focustrap" where
  "handleKeydown key shiftKey t = (if key \<noteq> ''Tab'' then t else t\<lparr>lastTabBackward := Some shiftKey\<rparr>)"

section \<open>Backdrop\<close>

text \<open>
  The element is created on first use, from the supply of unused identities.  \<open>bd_isAppended\<close> also
  tells whether the \<open>mousedown\<close> handler is on it.
\<close>

record backdrop =
  bd_className :: string
  bd_isVisible :: bool
  bd_isAnimated :: bool
  bd_root :: elem
  bd_isAppended :: bool
  bd_element :: "elem option"

definition new_backdrop :: "string \<Rightarrow> bool \<Rightarrow> bool \<Rightarrow> elem \<Rightarrow> backdrop" where
  "new_backdrop cls vis anim rt =
     \<lparr>bd_className = cls, bd_isVisible = vis, bd_isAnimated = anim, bd_root = rt, bd_isAppended = False, bd_element = None\<rparr>"

definition new_node :: "string list \<Rightarrow> node" where
  "new_node cs = \<lparr>tagName = ''div'', classList = cs, attributes = [], style = (\<lambda>_. []), textContent = []\<rparr>"

definition bd_getElement :: "backdrop \<Rightarrow> elem \<Rightarrow> page \<Rightarrow> elem \<times> backdrop \<times> elem \<times> page" where
  "bd_getElement b fresh p =
     (case bd_element b of
        Some e \<Rightarrow> (e, b, fresh, p)
      | None \<Rightarrow>
          (fresh, b\<lparr>bd_element := Some fresh\<rparr>, Suc fresh,
           upd_node fresh (\<lambda>_. new_node (bd_className b # (if bd_isAnimated b then [''fade''] else []))) p))"

definition bd_append :: "backdrop \<Rightarrow> elem \<Rightarrow> page \<Rightarrow> backdrop \<times> elem \<times> page" where
  "bd_append b fresh p =
     (if bd_isAppended b then (b, fresh, p)
      else (let (e, b1, fresh1, p1) = bd_getElement b fresh p
            in (b1\<lparr>bd_isAppended := True\<rparr>, fresh1, append_el (bd_root b1) e p1)))"

text \<open>When the owner's callback runs: at once, or behind the transition of an element.\<close>

datatype moment = Now | After elem

definition emulateAnimation :: "backdrop \<Rightarrow> elem \<Rightarrow> moment" where
  "emulateAnimation b e = (if bd_isAnimated b then After e else Now)"

definition bd_show :: "backdrop \<Rightarrow> elem \<Rightarrow> page \<Rightarrow> moment \<times> backdrop \<times> elem \<times> page" where
  "bd_show b fresh p =
     (if \<not> bd_isVisible b then (Now, b, fresh, p)
      else (let (b1, fresh1, p1) = bd_append b fresh p;
                (e, b2, fresh2, p2) = bd_getElement b1 fresh1 p1
            in (emulateAnimation b2 e, b2, fresh2, add_class e ''show'' p2)))"

definition bd_dispose :: "backdrop \<Rightarrow> page \<Rightarrow> backdrop \<times> page" where
  "bd_dispose b p =
     (if \<not> bd_isAppended b then (b, p)
      else (case bd_element b of None \<Rightarrow> (b, p) | Some e \<Rightarrow> (b\<lparr>bd_isAppended := False\<rparr>, remove_el e p)))"

text \<open>The callback of \<open>hide\<close> disposes of the backdrop before it runs the owner's, unless the backdrop is invisible.\<close>

definition bd_hide :: "backdrop \<Rightarrow> elem \<Rightarrow> page \<Rightarrow> moment \<times> backdrop \<times> elem \<times> page" where
  "bd_hide b fresh p =
     (if \<not> bd_isVisible b then (Now, b, fresh, p)
      else (let (e, b1, fresh1, p1) = bd_getElement b fresh p
            in (emulateAnimation b1 e, b1, fresh1, remove_class e ''show'' p1)))"

definition bd_hidden :: "backdrop \<Rightarrow> page \<Rightarrow> backdrop \<times> page" where
  "bd_hidden b p = (if \<not> bd_isVisible b then (b, p) else bd_dispose b p)"

section \<open>Scroll bar compensation is undone\<close>

definition scroll_props :: "string list" where
  "scroll_props = [''overflow'', ''padding-right'', ''margin-right'']"

lemma data_name_inj: "a \<in> set scroll_props \<Longrightarrow> b \<in> set scroll_props \<Longrightarrow> data_name a = data_name b \<longleftrightarrow> a = b"
proof -
  have "list_all (\<lambda>a. normalizeDataKey a = a) scroll_props" by code_simp
  then show "a \<in> set scroll_props \<Longrightarrow> b \<in> set scroll_props \<Longrightarrow> ?thesis" by (simp add: list_all_iff data_name_def)
qed

text \<open>The inline value of a property together with the attribute it is saved in.\<close>

definition cell :: "page \<Rightarrow> elem \<Rightarrow> string \<Rightarrow> string \<times> string option" where
  "cell p x pr = (getStyle p x pr, getAttribute p x (data_name pr))"

definition same_classes :: "page \<Rightarrow> page \<Rightarrow> bool" where
  "same_classes p q \<longleftrightarrow> tree p = tree q \<and> (\<forall>x c. has_class p x c = has_class q x c)"

text \<open>A callback for one property of one element.\<close>

definition local_to :: "string \<Rightarrow> (elem \<Rightarrow> page \<Rightarrow> page) \<Rightarrow> bool" where
  "local_to prop f \<longleftrightarrow> (\<forall>e q. same_classes q (f e q)
     \<and> (\<forall>x pr. pr \<in> set scroll_props \<longrightarrow> x \<noteq> e \<or> pr \<noteq> prop \<longrightarrow> cell (f e q) x pr = cell q x pr))"

lemma same_classes_trans: "same_classes p q \<Longrightarrow> same_classes q r \<Longrightarrow> same_classes p r"
  by (simp add: same_classes_def)

lemma find_same_classes:
  assumes "same_classes p q"
  shows "SE_find q rt SELECTOR_FIXED_CONTENT = SE_find p rt SELECTOR_FIXED_CONTENT"
    "SE_find q rt SELECTOR_STICKY_CONTENT = SE_find p rt SELECTOR_STICKY_CONTENT"
proof -
  have m: "match_complex q rt [[SelClass c]] path = match_complex p rt [[SelClass c]] path" for c path
    using assms by (cases path) (simp_all add: same_classes_def)
  have "descendants q rt = descendants p rt" "tree q = tree p" using assms by (simp_all add: same_classes_def descendants_def)
  then show "SE_find q rt SELECTOR_FIXED_CONTENT = SE_find p rt SELECTOR_FIXED_CONTENT"
    "SE_find q rt SELECTOR_STICKY_CONTENT = SE_find p rt SELECTOR_STICKY_CONTENT"
    by (simp_all add: SE_find_def querySelectorAll_def matches_in_def [abs_def] SELECTOR_FIXED_CONTENT_def SELECTOR_STICKY_CONTENT_def m)
qed

definition scope_list :: "view \<Rightarrow> page \<Rightarrow> scope \<Rightarrow> elem list" where
  "scope_list v p sel = (case sel of The e \<Rightarrow> [e] | AllOf s \<Rightarrow> SE_find p (body v) s)"

lemma apply_scope: "applyManipulationCallback v sel f p = foldl (\<lambda>q x. f x q) p (scope_list v p sel)"
  by (simp add: applyManipulationCallback_def scope_list_def split: scope.splits)

lemma local_fold:
  assumes "local_to prop f" "pr \<in> set scroll_props"
  shows "same_classes p (foldl (\<lambda>q x. f x q) p xs)
    \<and> (x \<notin> set xs \<or> pr \<noteq> prop \<longrightarrow> cell (foldl (\<lambda>q x. f x q) p xs) x pr = cell p x pr)"
proof (induction xs arbitrary: p)
  case (Cons y ys)
  have "same_classes p (f y p)" "x \<noteq> y \<or> pr \<noteq> prop \<longrightarrow> cell (f y p) x pr = cell p x pr"
    using assms by (auto simp: local_to_def)
  with Cons.IH [of "f y p"] show ?case by (auto dest: same_classes_trans)
qed (simp add: same_classes_def)

lemma local_fold_hit:
  assumes "local_to prop f" "prop \<in> set scroll_props" "distinct xs" "x \<in> set xs"
  shows "\<exists>q. cell q x prop = cell p x prop \<and> cell (foldl (\<lambda>q x. f x q) p xs) x prop = cell (f x q) x prop"
  using assms(3,4)
proof (induction xs arbitrary: p)
  case (Cons y ys)
  show ?case
  proof (cases "x = y")
    case True
    with Cons.prems local_fold [OF assms(1,2), of "f x p" ys x] show ?thesis by auto
  next
    case False
    with Cons.IH [of "f y p"] Cons.prems assms(1,2) show ?thesis by (auto simp: local_to_def)
  qed
qed simp

lemma save_local: "prop \<in> set scroll_props \<Longrightarrow> local_to prop (saveInitialAttribute prop)"
  by (auto simp: local_to_def saveInitialAttribute_def Let_def setDataAttribute_def same_classes_def cell_def dom_simps data_name_inj)

lemma set_one_local:
  assumes "prop \<in> set scroll_props"
  shows "local_to prop (set_one v w prop calc)"
proof -
  have "same_classes q (set_one v w prop calc e q) \<and> (\<forall>x pr. pr \<in> set scroll_props \<longrightarrow> x \<noteq> e \<or> pr \<noteq> prop
      \<longrightarrow> cell (set_one v w prop calc e q) x pr = cell q x pr)" for e q
    using save_local [OF assms] by (auto simp: set_one_def Let_def local_to_def same_classes_def cell_def dom_simps)
  then show ?thesis by (simp add: local_to_def)
qed

lemma reset_one_local: "prop \<in> set scroll_props \<Longrightarrow> local_to prop (reset_one json prop)"
  by (auto simp: local_to_def reset_one_def removeDataAttribute_def same_classes_def cell_def dom_simps data_name_inj split: option.splits)

lemma set_one_cell:
  assumes "x = body v \<or> innerWidth v \<le> clientWidth v q x + w"
  shows "snd (cell (set_one v w prop calc x q) x prop) = (if fst (cell q x prop) \<noteq> [] then Some (fst (cell q x prop)) else snd (cell q x prop))"
  using assms by (auto simp: set_one_def Let_def saveInitialAttribute_def setDataAttribute_def cell_def dom_simps)

lemma reset_one_cell:
  "cell (reset_one json prop x q) x prop
   = (case saved_value json (snd (cell q x prop)) of None \<Rightarrow> ([], snd (cell q x prop)) | Some w \<Rightarrow> (w, None))"
  by (simp add: reset_one_def removeDataAttribute_def cell_def dom_simps split: option.splits)

text \<open>The properties of an element that the helper works on.\<close>

definition targeted :: "view \<Rightarrow> page \<Rightarrow> elem \<Rightarrow> string \<Rightarrow> bool" where
  "targeted v p x pr \<longleftrightarrow>
     x = body v \<and> pr \<in> {''overflow'', ''padding-right''}
     \<or> x \<in> set (SE_find p (body v) SELECTOR_FIXED_CONTENT) \<and> pr = ''padding-right''
     \<or> x \<in> set (SE_find p (body v) SELECTOR_STICKY_CONTENT) \<and> pr = ''margin-right''"

lemma root_not_found:
  assumes "wf_page p"
  shows "rt \<notin> set (SE_find p rt sel)"
proof (cases "subtree rt (tree p)")
  case (Some u)
  with assms have "distinct (preorder u)" using subtree_distinct [OF _ Some] by (simp add: wf_page_def)
  moreover have "hd (preorder u) = rt" using subtree_eid [OF Some] by (cases u) simp
  ultimately have "rt \<notin> set (tl (preorder u))" by (cases "preorder u") auto
  then show ?thesis by (auto simp: SE_find_def querySelectorAll_def descendants_def Some)
qed (simp add: SE_find_def querySelectorAll_def descendants_def)

lemma in_scroll_props: "''overflow'' \<in> set scroll_props" "''padding-right'' \<in> set scroll_props" "''margin-right'' \<in> set scroll_props"
  by (simp_all add: scroll_props_def)

text \<open>
  One pass of the helper: four callbacks, each for one property, over the body, the body, the fixed
  and the sticky elements.
\<close>

definition pass :: "view \<Rightarrow> (elem \<Rightarrow> page \<Rightarrow> page) \<Rightarrow> (elem \<Rightarrow> page \<Rightarrow> page) \<Rightarrow> (elem \<Rightarrow> page \<Rightarrow> page) \<Rightarrow> (elem \<Rightarrow> page \<Rightarrow> page) \<Rightarrow> page \<Rightarrow> page" where
  "pass v f1 f2 f3 f4 p =
     foldl (\<lambda>q x. f4 x q)
       (foldl (\<lambda>q x. f3 x q) (f2 (body v) (f1 (body v) p)) (SE_find p (body v) SELECTOR_FIXED_CONTENT))
       (SE_find p (body v) SELECTOR_STICKY_CONTENT)"

definition callback_for :: "view \<Rightarrow> elem \<Rightarrow> string \<Rightarrow> 'f \<Rightarrow> 'f \<Rightarrow> 'f \<Rightarrow> 'f \<Rightarrow> 'f" where
  "callback_for v x pr f1 f2 f3 f4 =
     (if pr = ''overflow'' then f1 else if pr = ''margin-right'' then f4 else if x = body v then f2 else f3)"

lemma pass_cell:
  assumes wf: "wf_page p" and pr: "pr \<in> set scroll_props"
    and f: "local_to ''overflow'' f1" "local_to ''padding-right'' f2" "local_to ''padding-right'' f3" "local_to ''margin-right'' f4"
  shows "same_classes p (pass v f1 f2 f3 f4 p)
    \<and> (if targeted v p x pr
       then \<exists>q. cell q x pr = cell p x pr \<and> cell (pass v f1 f2 f3 f4 p) x pr = cell (callback_for v x pr f1 f2 f3 f4 x q) x pr
       else cell (pass v f1 f2 f3 f4 p) x pr = cell p x pr)"
proof -
  let ?F = "SE_find p (body v) SELECTOR_FIXED_CONTENT" and ?S = "SE_find p (body v) SELECTOR_STICKY_CONTENT"
  let ?p1 = "f1 (body v) p" let ?p2 = "f2 (body v) ?p1" let ?p3 = "foldl (\<lambda>q x. f3 x q) ?p2 ?F"
  let ?p4 = "foldl (\<lambda>q x. f4 x q) ?p3 ?S"
  have d: "distinct ?F" "distinct ?S" using wf by (simp_all add: SE_find_def distinct_querySelectorAll)
  have b: "body v \<notin> set ?F" "body v \<notin> set ?S" using root_not_found [OF wf] by simp_all
  note local = f [unfolded local_to_def, rule_format]
  have c1: "x \<noteq> body v \<or> pr \<noteq> ''overflow'' \<Longrightarrow> cell ?p1 x pr = cell p x pr" using local(1) pr by blast
  have c2: "x \<noteq> body v \<or> pr \<noteq> ''padding-right'' \<Longrightarrow> cell ?p2 x pr = cell ?p1 x pr" using local(2) pr by blast
  have c3: "x \<notin> set ?F \<or> pr \<noteq> ''padding-right'' \<Longrightarrow> cell ?p3 x pr = cell ?p2 x pr" using local_fold [OF f(3) pr] by blast
  have c4: "x \<notin> set ?S \<or> pr \<noteq> ''margin-right'' \<Longrightarrow> cell ?p4 x pr = cell ?p3 x pr" using local_fold [OF f(4) pr] by blast
  have "same_classes p ?p1" "same_classes ?p1 ?p2" "same_classes ?p2 ?p3" "same_classes ?p3 ?p4"
    using local(1,2) local_fold [OF f(3) pr] local_fold [OF f(4) pr] by blast+
  then have same: "same_classes p ?p4" by (simp add: same_classes_def)
  consider (over) "x = body v" "pr = ''overflow''" | (pad) "x = body v" "pr = ''padding-right''"
    | (fixed) "x \<in> set ?F" "pr = ''padding-right''" | (sticky) "x \<in> set ?S" "pr = ''margin-right''" | (none) "\<not> targeted v p x pr"
    unfolding targeted_def by blast
  then have "if targeted v p x pr then \<exists>q. cell q x pr = cell p x pr \<and> cell ?p4 x pr = cell (callback_for v x pr f1 f2 f3 f4 x q) x pr
      else cell ?p4 x pr = cell p x pr"
  proof cases
    case over
    then have "cell ?p4 x pr = cell (f1 x p) x pr" using c2 c3 c4 by simp
    then show ?thesis using over by (auto simp: targeted_def callback_for_def)
  next
    case pad
    then have "cell ?p4 x pr = cell (f2 x ?p1) x pr" "cell ?p1 x pr = cell p x pr" using c1 c3 c4 b by simp_all
    then show ?thesis using pad by (auto simp: targeted_def callback_for_def)
  next
    case fixed
    then have "x \<noteq> body v" using b by auto
    then have "cell ?p2 x pr = cell p x pr" "cell ?p4 x pr = cell ?p3 x pr" using c1 c2 c4 fixed by simp_all
    then show ?thesis using fixed \<open>x \<noteq> body v\<close> local_fold_hit [OF f(3) in_scroll_props(2) d(1) fixed(1), of ?p2] by (auto simp: targeted_def callback_for_def)
  next
    case sticky
    then have "x \<noteq> body v" using b by auto
    then have "cell ?p3 x pr = cell p x pr" using c1 c2 c3 sticky by simp
    then show ?thesis using sticky local_fold_hit [OF f(4) in_scroll_props(3) d(2) sticky(1), of ?p3] by (auto simp: targeted_def callback_for_def)
  next
    case none
    then have "x \<noteq> body v \<or> pr \<noteq> ''overflow''" "x \<noteq> body v \<or> pr \<noteq> ''padding-right''" "x \<notin> set ?F \<or> pr \<noteq> ''padding-right''"
      "x \<notin> set ?S \<or> pr \<noteq> ''margin-right''" by (auto simp: targeted_def)
    with none show ?thesis using c1 c2 c3 c4 by simp
  qed
  with same show ?thesis unfolding pass_def by (rule conjI)
qed

lemma hide_is_pass:
  "\<exists>q1 q2 q3 c1 c2 c3. scroll_hide v p = pass v (\<lambda>e q. setStyle e ''overflow'' ''hidden'' (saveInitialAttribute ''overflow'' e q))
     (set_one v (getWidth v q1) ''padding-right'' c1) (set_one v (getWidth v q2) ''padding-right'' c2)
     (set_one v (getWidth v q3) ''margin-right'' c3) p"
proof -
  let ?w = "getWidth v p"
  let ?p1 = "disableOverFlow v p" let ?p2 = "set_one v (getWidth v ?p1) ''padding-right'' (\<lambda>n. n + ?w) (body v) ?p1"
  let ?F = "SE_find p (body v) SELECTOR_FIXED_CONTENT"
  let ?p3 = "foldl (\<lambda>q x. set_one v (getWidth v ?p2) ''padding-right'' (\<lambda>n. n + ?w) x q) ?p2 ?F"
  have s: "same_classes p ?p1" by (auto simp: disableOverFlow_def saveInitialAttribute_def setDataAttribute_def Let_def same_classes_def dom_simps)
  note l = set_one_local [OF in_scroll_props(2), unfolded local_to_def, rule_format]
  have s2: "same_classes p ?p2" by (rule same_classes_trans [OF s conjunct1 [OF l]])
  have s3: "same_classes p ?p3"
    using same_classes_trans [OF s2] local_fold [OF set_one_local [OF in_scroll_props(2)] in_scroll_props(2)] by blast
  have "scroll_hide v p = pass v (\<lambda>e q. setStyle e ''overflow'' ''hidden'' (saveInitialAttribute ''overflow'' e q))
     (set_one v (getWidth v ?p1) ''padding-right'' (\<lambda>n. n + ?w)) (set_one v (getWidth v ?p2) ''padding-right'' (\<lambda>n. n + ?w))
     (set_one v (getWidth v ?p3) ''margin-right'' (\<lambda>n. n - ?w)) p"
    unfolding scroll_hide_def Let_def setElementAttributes_def apply_scope pass_def
    by (simp add: scope_list_def find_same_classes [OF s2] find_same_classes [OF s3] flip: disableOverFlow_def)
  then show ?thesis by (intro exI)
qed

lemma reset_is_pass:
  "scroll_reset json v p = pass v (reset_one json ''overflow'') (reset_one json ''padding-right'') (reset_one json ''padding-right'')
     (reset_one json ''margin-right'') p"
proof -
  let ?p1 = "reset_one json ''overflow'' (body v) p" let ?p2 = "reset_one json ''padding-right'' (body v) ?p1"
  let ?p3 = "foldl (\<lambda>q x. reset_one json ''padding-right'' x q) ?p2 (SE_find p (body v) SELECTOR_FIXED_CONTENT)"
  note l = reset_one_local [unfolded local_to_def, rule_format, THEN conjunct1]
  have s2: "same_classes p ?p2" by (rule same_classes_trans [OF l [OF in_scroll_props(1)] l [OF in_scroll_props(2)]])
  have s3: "same_classes p ?p3"
    using same_classes_trans [OF s2] local_fold [OF reset_one_local [OF in_scroll_props(2)] in_scroll_props(2)] by blast
  show ?thesis unfolding scroll_reset_def Let_def resetElementAttributes_def apply_scope pass_def
    by (simp add: scope_list_def find_same_classes [OF s2] find_same_classes [OF s3])
qed

lemma hide_cell:
  assumes "wf_page p" "pr \<in> set scroll_props"
  shows "same_classes p (scroll_hide v p)"
    "\<not> targeted v p x pr \<Longrightarrow> cell (scroll_hide v p) x pr = cell p x pr"
    "targeted v p x pr \<Longrightarrow> x = body v \<or> (\<forall>q. innerWidth v \<le> clientWidth v q x)
     \<Longrightarrow> snd (cell (scroll_hide v p) x pr) = (if fst (cell p x pr) \<noteq> [] then Some (fst (cell p x pr)) else snd (cell p x pr))"
proof -
  let ?f1 = "\<lambda>e q. setStyle e ''overflow'' ''hidden'' (saveInitialAttribute ''overflow'' e q)"
  obtain w1 w2 w3 c1 c2 c3 where h: "scroll_hide v p = pass v ?f1 (set_one v w1 ''padding-right'' c1)
      (set_one v w2 ''padding-right'' c2) (set_one v w3 ''margin-right'' c3) p"
    and g: "w1 \<in> range (getWidth v)" "w2 \<in> range (getWidth v)" "w3 \<in> range (getWidth v)"
    using hide_is_pass [of v p] by blast
  have w: "0 \<le> w1" "0 \<le> w2" "0 \<le> w3" using g by (auto simp: getWidth_def)
  have f1: "local_to ''overflow'' ?f1"
    using save_local [OF in_scroll_props(1)] by (auto simp: local_to_def same_classes_def cell_def dom_simps)
  have f: "local_to ''padding-right'' (set_one v w1 ''padding-right'' c1)" "local_to ''padding-right'' (set_one v w2 ''padding-right'' c2)"
    "local_to ''margin-right'' (set_one v w3 ''margin-right'' c3)" by (simp_all add: set_one_local in_scroll_props)
  note pc = pass_cell [OF assms f1 f, of v x, folded h]
  show "same_classes p (scroll_hide v p)" using pc by blast
  show "\<not> targeted v p x pr \<Longrightarrow> cell (scroll_hide v p) x pr = cell p x pr" using pc by simp
  assume t: "targeted v p x pr" and wide: "x = body v \<or> (\<forall>q. innerWidth v \<le> clientWidth v q x)"
  then obtain q where q: "cell q x pr = cell p x pr" "cell (scroll_hide v p) x pr
      = cell (callback_for v x pr ?f1 (set_one v w1 ''padding-right'' c1) (set_one v w2 ''padding-right'' c2) (set_one v w3 ''margin-right'' c3) x q) x pr"
    using pc by auto
  have "x = body v \<or> innerWidth v \<le> clientWidth v q x + w" if "0 \<le> w" for w
    using wide that by (metis add_increasing2)
  note hit = set_one_cell [OF this]
  have f1_cell: "snd (cell (?f1 x q) x ''overflow'')
      = (if fst (cell q x ''overflow'') \<noteq> [] then Some (fst (cell q x ''overflow'')) else snd (cell q x ''overflow''))"
    by (simp add: saveInitialAttribute_def setDataAttribute_def Let_def cell_def dom_simps)
  consider (a) "pr = ''overflow''" | (b) "pr = ''padding-right''" "x = body v" | (c) "pr = ''padding-right''" "x \<noteq> body v" | (d) "pr = ''margin-right''"
    using assms(2) unfolding scroll_props_def set_simps by blast
  then have "snd (cell (callback_for v x pr ?f1 (set_one v w1 ''padding-right'' c1) (set_one v w2 ''padding-right'' c2) (set_one v w3 ''margin-right'' c3) x q) x pr)
      = (if fst (cell q x pr) \<noteq> [] then Some (fst (cell q x pr)) else snd (cell q x pr))"
  proof cases
    case a show ?thesis unfolding a callback_for_def simp_thms if_True by (rule f1_cell)
  next
    case b
    then have "callback_for v x pr ?f1 g1 g2 g3 = g1" for g1 g2 g3 :: "elem \<Rightarrow> page \<Rightarrow> page" by (simp add: callback_for_def)
    then show ?thesis using hit [OF w(1)] b(1) by simp
  next
    case c
    then have "callback_for v x pr ?f1 g1 g2 g3 = g2" for g1 g2 g3 :: "elem \<Rightarrow> page \<Rightarrow> page" by (simp add: callback_for_def)
    then show ?thesis using hit [OF w(2)] c(1) by simp
  next
    case d
    then have "callback_for v x pr ?f1 g1 g2 g3 = g3" for g1 g2 g3 :: "elem \<Rightarrow> page \<Rightarrow> page" by (simp add: callback_for_def)
    then show ?thesis using hit [OF w(3)] d by simp
  qed
  then show "snd (cell (scroll_hide v p) x pr) = (if fst (cell p x pr) \<noteq> [] then Some (fst (cell p x pr)) else snd (cell p x pr))"
    by (simp only: q)
qed

lemma reset_cell:
  assumes "wf_page p" "pr \<in> set scroll_props"
  shows "cell (scroll_reset json v p) x pr
    = (if targeted v p x pr then (case saved_value json (snd (cell p x pr)) of None \<Rightarrow> ([], snd (cell p x pr)) | Some w \<Rightarrow> (w, None))
       else cell p x pr)"
proof -
  note f = reset_one_local [OF in_scroll_props(1), of json] reset_one_local [OF in_scroll_props(2), of json]
    reset_one_local [OF in_scroll_props(3), of json]
  note pc = pass_cell [OF assms f(1) f(2) f(2) f(3), of v x, folded reset_is_pass]
  show ?thesis
  proof (cases "targeted v p x pr")
    case True
    then obtain q where q: "cell q x pr = cell p x pr" "cell (scroll_reset json v p) x pr = cell (callback_for v x pr (reset_one json ''overflow'')
        (reset_one json ''padding-right'') (reset_one json ''padding-right'') (reset_one json ''margin-right'') x q) x pr"
      using pc by auto
    have "callback_for v x pr (reset_one json ''overflow'') (reset_one json ''padding-right'') (reset_one json ''padding-right'')
        (reset_one json ''margin-right'') = reset_one json pr" using assms(2) by (auto simp: callback_for_def scroll_props_def)
    then have "cell (scroll_reset json v p) x pr = cell (reset_one json pr x q) x pr" using q(2) by simp
    with True show ?thesis unfolding reset_one_cell q(1) by simp
  next
    case False
    with pc show ?thesis by simp
  qed
qed

lemma targeted_same: "same_classes p q \<Longrightarrow> targeted v q x pr = targeted v p x pr"
  by (simp add: targeted_def find_same_classes)

lemma hidden_reset_cell:
  assumes "wf_page p" "pr \<in> set scroll_props"
  shows "cell (scroll_reset json v (scroll_hide v p)) x pr
    = (if targeted v p x pr then (case saved_value json (snd (cell (scroll_hide v p) x pr)) of
           None \<Rightarrow> ([], snd (cell (scroll_hide v p) x pr)) | Some w \<Rightarrow> (w, None))
       else cell p x pr)"
proof -
  note s = hide_cell(1) [OF assms, of v]
  have "wf_page (scroll_hide v p)" using s assms(1) by (simp add: same_classes_def wf_page_def)
  from reset_cell [OF this assms(2), of json v x] show ?thesis
    using hide_cell(2) [OF assms] by (simp add: targeted_same [OF s])
qed

text \<open>
  C21: resetting the scroll bar undoes hiding it.  When nothing was saved before and the inline values
  are no \<open>null\<close> or JSON text, then after \<open>hide\<close> and \<open>reset\<close> the body, every fixed or sticky element
  that spans the window, and every element the helper does not handle have the inline \<open>overflow\<close>,
  \<open>padding-right\<close> and \<open>margin-right\<close> they had, and no saved value is left behind.
\<close>

theorem scrollbar_roundtrip:
  assumes "wf_page p" "pr \<in> set scroll_props" "getAttribute p x (data_name pr) = None"
    and "getStyle p x pr = [] \<or> saved_value json (Some (getStyle p x pr)) = Some (getStyle p x pr)"
    and "x = body v \<or> (\<forall>q. innerWidth v \<le> clientWidth v q x) \<or> \<not> targeted v p x pr"
  shows "getStyle (scroll_reset json v (scroll_hide v p)) x pr = getStyle p x pr
    \<and> getAttribute (scroll_reset json v (scroll_hide v p)) x (data_name pr) = None"
proof (cases "targeted v p x pr")
  case True
  with assms(5) have wide: "x = body v \<or> (\<forall>q. innerWidth v \<le> clientWidth v q x)" by blast
  have n: "saved_value json None = None" by (simp add: saved_value_def normalizeData_def)
  have "snd (cell (scroll_hide v p) x pr) = (if getStyle p x pr \<noteq> [] then Some (getStyle p x pr) else None)"
    using hide_cell(3) [OF assms(1,2) True wide] assms(3) by (simp add: cell_def)
  then have "cell (scroll_reset json v (scroll_hide v p)) x pr = (getStyle p x pr, None)"
    using hidden_reset_cell [OF assms(1,2), of json v x] True assms(4) n by (auto split: if_splits option.splits)
  then show ?thesis by (simp add: cell_def)
next
  case False
  then show ?thesis using hidden_reset_cell [OF assms(1,2), of json v x] assms(3) by (simp add: cell_def)
qed

text \<open>A page with a navigation bar that spans the window and a sticky box that does not.\<close>

definition scroll_page :: page where
  "scroll_page = \<lparr>tree = Elem 1 [Elem 2 [Elem 3 [], Elem 4 []]],
     nodes = (\<lambda>e. \<lparr>tagName = ''div'', classList = (if e = 3 then [''fixed-top''] else if e = 4 then [''sticky-top''] else []), attributes = [],
       style = (\<lambda>k. if (e = 3 \<or> e = 4) \<and> k = ''padding-right'' then ''8px'' else []), textContent = []\<rparr>),
     focused = None, ev_log = []\<rparr>"

definition scroll_view :: view where
  "scroll_view = \<lparr>body = 2, innerWidth = 1000, docWidth = (\<lambda>p. if getStyle p 2 ''overflow'' = ''hidden'' then 1000 else 985),
     docHeight = (\<lambda>_. 800), clientWidth = (\<lambda>_ e. if e = 4 then 300 else 1000), scrollHeight = (\<lambda>_ _. 500),
     computedStyle = (\<lambda>p e k. getStyle p e k), px = (\<lambda>n. if n = Some 23 then ''23px'' else ''NaNpx'')\<rparr>"

theorem scrollbar_roundtrip_witness:
  "getStyle (scroll_hide scroll_view scroll_page) 3 ''padding-right'' = ''23px''
   \<and> getStyle (scroll_reset (\<lambda>_. None) scroll_view (scroll_hide scroll_view scroll_page)) 3 ''padding-right'' = getStyle scroll_page 3 ''padding-right''
   \<and> getAttribute (scroll_reset (\<lambda>_. None) scroll_view (scroll_hide scroll_view scroll_page)) 3 (data_name ''padding-right'') = None"
proof
  show "getStyle (scroll_hide scroll_view scroll_page) 3 ''padding-right'' = ''23px''" by code_simp
  show "getStyle (scroll_reset (\<lambda>_. None) scroll_view (scroll_hide scroll_view scroll_page)) 3 ''padding-right'' = getStyle scroll_page 3 ''padding-right''
   \<and> getAttribute (scroll_reset (\<lambda>_. None) scroll_view (scroll_hide scroll_view scroll_page)) 3 (data_name ''padding-right'') = None"
  proof (rule scrollbar_roundtrip)
    show "wf_page scroll_page" by code_simp
    show "''padding-right'' \<in> set scroll_props" by (simp add: scroll_props_def)
    show "getAttribute scroll_page 3 (data_name ''padding-right'') = None" by code_simp
    show "getStyle scroll_page 3 ''padding-right'' = []
      \<or> saved_value (\<lambda>_. None) (Some (getStyle scroll_page 3 ''padding-right'')) = Some (getStyle scroll_page 3 ''padding-right'')" by code_simp
    show "3 = body scroll_view \<or> (\<forall>q. innerWidth scroll_view \<le> clientWidth scroll_view q 3) \<or> \<not> targeted scroll_view scroll_page 3 ''padding-right''"
      by (simp add: scroll_view_def)
  qed
qed

lemma hide_skips:
  assumes "wf_page p" "x \<noteq> body v" "\<And>q r. clientWidth v q x + getWidth v r < innerWidth v"
  shows "cell (scroll_hide v p) x ''padding-right'' = cell p x ''padding-right''"
proof -
  let ?f1 = "\<lambda>e q. setStyle e ''overflow'' ''hidden'' (saveInitialAttribute ''overflow'' e q)"
  obtain q1 q2 q3 c1 c2 c3 where h: "scroll_hide v p = pass v ?f1 (set_one v (getWidth v q1) ''padding-right'' c1)
      (set_one v (getWidth v q2) ''padding-right'' c2) (set_one v (getWidth v q3) ''margin-right'' c3) p"
    using hide_is_pass [of v p] by blast
  have f1: "local_to ''overflow'' ?f1"
    using save_local [OF in_scroll_props(1)] by (auto simp: local_to_def same_classes_def cell_def dom_simps)
  have f: "local_to ''padding-right'' (set_one v (getWidth v q1) ''padding-right'' c1)"
    "local_to ''padding-right'' (set_one v (getWidth v q2) ''padding-right'' c2)"
    "local_to ''margin-right'' (set_one v (getWidth v q3) ''margin-right'' c3)" by (simp_all add: set_one_local in_scroll_props)
  have "set_one v (getWidth v r) ''padding-right'' c x q = q" for r c q using assms(2,3) by (simp add: set_one_def)
  then show ?thesis
    using pass_cell [OF assms(1) in_scroll_props(2) f1 f, of v x, folded h] assms(2)
    by (auto simp: callback_for_def split: if_splits)
qed

text \<open>
  An element that the scroll bar helper left alone loses its inline value all the same.  A fixed or
  sticky element narrower than the window is skipped by \<open>hide\<close>, which saves nothing for it; \<open>reset\<close>
  finds no saved value and removes the property.
\<close>
theorem scrollbar_reset_loses_inline_style:
  assumes "wf_page p" "x \<in> set (SE_find p (body v) SELECTOR_FIXED_CONTENT)" "getAttribute p x (data_name ''padding-right'') = None"
    and "\<And>q r. clientWidth v q x + getWidth v r < innerWidth v"
  shows "getStyle (scroll_hide v p) x ''padding-right'' = getStyle p x ''padding-right''
    \<and> getStyle (scroll_reset json v (scroll_hide v p)) x ''padding-right'' = []"
proof -
  have "x \<noteq> body v" using assms(2) root_not_found [OF assms(1)] by auto
  note skip = hide_skips [OF assms(1) this assms(4)]
  have "targeted v p x ''padding-right''" using assms(2) by (simp add: targeted_def)
  moreover have "saved_value json None = None" by (simp add: saved_value_def normalizeData_def)
  ultimately show ?thesis
    using hidden_reset_cell [OF assms(1) in_scroll_props(2), of json v x] skip assms(3) by (simp add: cell_def)
qed

theorem scrollbar_reset_loses_inline_style_witness:
  "getStyle scroll_page 4 ''padding-right'' = ''8px''
   \<and> getStyle (scroll_reset (\<lambda>_. None) scroll_view (scroll_hide scroll_view scroll_page)) 4 ''padding-right'' = []"
proof -
  have "wf_page scroll_page" "4 \<in> set (SE_find scroll_page (body scroll_view) SELECTOR_FIXED_CONTENT)"
    "getAttribute scroll_page 4 (data_name ''padding-right'') = None" by code_simp+
  moreover have "clientWidth scroll_view q 4 + getWidth scroll_view r < innerWidth scroll_view" for q r
    by (simp add: scroll_view_def getWidth_def)
  ultimately show ?thesis using scrollbar_reset_loses_inline_style by (simp add: scroll_page_def getStyle_def)
qed

section \<open>The focus stays in the trap\<close>

lemma contains_focus [dom_simps]: "contains (focus_el e p) a b = contains p a b"
  by (simp add: contains_def focus_el_def)

text \<open>
  The keyboard focus cannot leave an active trap.  Whatever element the browser has just focused,
  after the handler the focused element is the trapped element or lies inside it; an element
  inside keeps the focus, and from outside it goes to the last focusable child after a backward
  tab and to the first one otherwise.
\<close>

theorem focus_stays_in_trap:
  fixes h :: host and t :: focustrap
  assumes "wf_page p" "focused p = Some x"
  defines "q \<equiv> handleFocusin h t (Some x) p" and "inside \<equiv> contains p (trapElement t)"
  shows "\<exists>y. focused q = Some y \<and> inside y
    \<and> (if inside x then y = x
       else y = (case focusableChildren h p (trapElement t) of [] \<Rightarrow> trapElement t
                 | e # es \<Rightarrow> if lastTabBackward t = Some True then last (e # es) else e))"
proof -
  have self: "inside (trapElement t)" by (simp add: inside_def contains_def)
  have children: "inside y" if "y \<in> set (focusableChildren h p (trapElement t))" for y
    using that descendants_contains [OF assms(1)] by (auto simp: inside_def focusableChildren_def SE_find_def querySelectorAll_def)
  show ?thesis
  proof (cases "inside x")
    case True
    then show ?thesis using assms(2) by (simp add: q_def handleFocusin_def inside_def)
  next
    case False
    then have "x \<noteq> trapElement t" using self by auto
    with False have "focused q = Some (case focusableChildren h p (trapElement t) of [] \<Rightarrow> trapElement t
        | e # es \<Rightarrow> if lastTabBackward t = Some True then last (e # es) else e)"
      by (simp add: q_def handleFocusin_def inside_def focus_el_def Let_def split: list.splits)
    moreover have "inside (case focusableChildren h p (trapElement t) of [] \<Rightarrow> trapElement t
        | e # es \<Rightarrow> if lastTabBackward t = Some True then last (e # es) else e)"
      using self children last_in_set by (fastforce split: list.splits)
    ultimately show ?thesis using False by simp
  qed
qed

definition scroll_host :: host where
  "scroll_host = \<lparr>cancels = (\<lambda>_ _. False), parse_sel = (\<lambda>_. None), css_escape = id, rtl = False, hidden_doc = False, touch = False,
     client_rects = (\<lambda>_. 1), visibility = (\<lambda>_. ''visible''), disabled_prop = (\<lambda>_. None), interface_name = (\<lambda>_. ''htmldivelement''),
     jquery = None\<rparr>"

theorem focus_stays_in_trap_witness:
  "\<exists>y. focused (handleFocusin scroll_host (new_trap 3) (Some 4) (focus_el 4 scroll_page)) = Some y \<and> contains (focus_el 4 scroll_page) 3 y"
proof -
  have "wf_page (focus_el 4 scroll_page)" "focused (focus_el 4 scroll_page) = Some 4" by code_simp+
  from focus_stays_in_trap [OF this, of scroll_host "new_trap 3"] show ?thesis by (auto simp: new_trap_def)
qed

section \<open>Classes\<close>

lemma manipulation_classes:
  assumes "\<And>y q. has_class (f y q) x c = has_class q x c"
  shows "has_class (applyManipulationCallback v sel f p) x c = has_class p x c"
proof -
  have "has_class (foldl (\<lambda>q y. f y q) p ys) x c = has_class p x c" for ys by (induction ys arbitrary: p) (simp_all add: assms)
  then show ?thesis using assms by (simp add: applyManipulationCallback_def split: scope.splits)
qed

lemma scroll_classes [dom_simps]:
  "has_class (scroll_hide v p) x c = has_class p x c" "has_class (scroll_reset json v p) x c = has_class p x c"
proof -
  have "has_class (set_one v w pr calc y q) x c = has_class q x c" for w pr calc y q
    by (simp add: set_one_def saveInitialAttribute_def setDataAttribute_def Let_def dom_simps)
  then show "has_class (scroll_hide v p) x c = has_class p x c"
    by (simp add: scroll_hide_def setElementAttributes_def manipulation_classes disableOverFlow_def saveInitialAttribute_def
        setDataAttribute_def Let_def dom_simps)
  have "has_class (reset_one json pr y q) x c = has_class q x c" for pr y q
    by (simp add: reset_one_def removeDataAttribute_def dom_simps split: option.splits)
  then show "has_class (scroll_reset json v p) x c = has_class p x c"
    by (simp add: scroll_reset_def resetElementAttributes_def manipulation_classes Let_def)
qed

lemma tree_classes [dom_simps]: "has_class (remove_el e p) x c = has_class p x c" "has_class (append_el q e p) x c = has_class p x c"
  by (simp_all add: has_class_def remove_el_def append_el_def)

lemma fresh_classes [dom_simps]:
  "has_class (upd_node e (\<lambda>_. n) p) x c = (if x = e then c \<in> set (classList n) else has_class p x c)"
  by (simp add: has_class_def nodes_upd_node)

lemma backdrop_show:
  assumes "bd_show b fresh p = (w, b', fresh', p')"
  shows "fresh \<le> fresh'" "bd_element b' = Some y \<Longrightarrow> bd_element b = Some y \<or> y = fresh \<and> fresh' = Suc fresh"
    "x \<noteq> fresh \<Longrightarrow> bd_element b \<noteq> Some x \<Longrightarrow> has_class p' x c = has_class p x c"
  using assms
  by (auto simp: bd_show_def bd_append_def bd_getElement_def Let_def dom_simps split: if_splits option.splits prod.splits)

lemma backdrop_hide:
  assumes "bd_hide b fresh p = (w, b', fresh', p')"
  shows "fresh \<le> fresh'" "bd_element b' = Some y \<Longrightarrow> bd_element b = Some y \<or> y = fresh \<and> fresh' = Suc fresh"
    "x \<noteq> fresh \<Longrightarrow> bd_element b \<noteq> Some x \<Longrightarrow> has_class p' x c = has_class p x c"
  using assms by (auto simp: bd_hide_def bd_getElement_def Let_def dom_simps split: if_splits option.splits)

lemma backdrop_hidden:
  assumes "bd_hidden b p = (b', p')"
  shows "bd_element b' = bd_element b" "has_class p' x c = has_class p x c"
  using assms by (auto simp: bd_hidden_def bd_dispose_def dom_simps split: if_splits option.splits)

end
