(* ===== verification/Popper_Dom.thy ===== *)
theory Popper_Dom
  imports Js_Value Popper_Placement
begin

text \<open>
  Popper's DOM utilities in \<open>bootstrap.bundle.js\<close>: rectangles, offset parents, containing blocks,
  scroll parents and the clipping rectangle.  What the browser reports about an element, such as its
  boxes and its computed style, is the record \<open>env\<close>, an argument of the functions.  Pages have
  no shadow trees, so the parent of a node is its parent element; the walks up the tree follow
  the list of ancestors.
\<close>

section \<open>Rectangles\<close>

record rect =
  rx :: rat
  ry :: rat
  rwidth :: rat
  rheight :: rat

record client_rect =
  cr_left :: rat
  cr_top :: rat
  cr_right :: rat
  cr_bottom :: rat
  cr_width :: rat
  cr_height :: rat

text \<open>Four numbers indexed by the sides.\<close>

record sides =
  s_top :: rat
  s_right :: rat
  s_bottom :: rat
  s_left :: rat

fun side_val :: "sides \<Rightarrow> side \<Rightarrow> rat" where
  "side_val s Top = s_top s" | "side_val s Right = s_right s" | "side_val s Bottom = s_bottom s" | "side_val s Left = s_left s"
| "side_val s Auto = 0"

definition len_of :: "axis \<Rightarrow> rect \<Rightarrow> rat" where
  "len_of a r = (if a = Y then rheight r else rwidth r)"

definition pos_of :: "axis \<Rightarrow> rect \<Rightarrow> rat" where
  "pos_of a r = (if a = Y then ry r else rx r)"

definition rectToClientRect :: "rect \<Rightarrow> client_rect" where
  "rectToClientRect r =
     \<lparr>cr_left = rx r, cr_top = ry r, cr_right = rx r + rwidth r, cr_bottom = ry r + rheight r, cr_width = rwidth r, cr_height = rheight r\<rparr>"

definition to_rect :: "client_rect \<Rightarrow> rect" where
  "to_rect r = \<lparr>rx = cr_left r, ry = cr_top r, rwidth = cr_width r, rheight = cr_height r\<rparr>"

section \<open>What the browser reports\<close>

record css =
  css_position :: string
  css_transform :: string
  css_perspective :: string
  css_contain :: string
  css_willChange :: string
  css_filter :: string
  css_overflow :: string
  css_overflowX :: string
  css_overflowY :: string
  css_direction :: string

record visual_viewport =
  vv_width :: rat
  vv_height :: rat
  vv_left :: rat
  vv_top :: rat

record env =
  e_page :: page
  e_body :: elem
  e_html :: elem
  is_html_el :: "elem \<Rightarrow> bool"
  e_css :: "elem \<Rightarrow> css"
  e_rect :: "elem \<Rightarrow> rect"
  offsetW :: "elem \<Rightarrow> rat"
  offsetH :: "elem \<Rightarrow> rat"
  offsetL :: "elem \<Rightarrow> rat"
  offsetT :: "elem \<Rightarrow> rat"
  clientW :: "elem \<Rightarrow> rat"
  clientH :: "elem \<Rightarrow> rat"
  clientL :: "elem \<Rightarrow> rat"
  clientT :: "elem \<Rightarrow> rat"
  scrollW :: "elem \<Rightarrow> rat"
  scrollH :: "elem \<Rightarrow> rat"
  scrollL :: "elem \<Rightarrow> rat"
  scrollT :: "elem \<Rightarrow> rat"
  offsetParent :: "elem \<Rightarrow> elem option"
  pageX :: rat
  pageY :: rat
  visualViewport :: "visual_viewport option"
  devicePixelRatio :: rat
  uaString :: string

text \<open>A place in the page: an element or the window.\<close>

datatype pnode = Win | El elem

section \<open>Nodes\<close>

definition getNodeName :: "env \<Rightarrow> elem \<Rightarrow> string" where
  "getNodeName v e = map to_lower_char (tagName (nodes (e_page v) e))"

definition ua_has :: "env \<Rightarrow> string \<Rightarrow> bool" where
  "ua_has v w = str_includes (map to_lower_char (uaString v)) w"

text \<open>\<open>/^((?!chrome|android).)*safari/i\<close>: a \<open>safari\<close> before which neither other name begins.\<close>

fun safari_only :: "string \<Rightarrow> bool" where
  "safari_only [] = False"
| "safari_only (c # s) =
     (startsWith (c # s) ''safari''
      \<or> \<not> startsWith (c # s) ''chrome'' \<and> \<not> startsWith (c # s) ''android'' \<and> safari_only s)"

definition isLayoutViewport :: "env \<Rightarrow> bool" where
  "isLayoutViewport v = (\<not> safari_only (map to_lower_char (uaString v)))"

text \<open>\<open>Math.round\<close>.\<close>

definition js_round :: "rat \<Rightarrow> rat" where
  "js_round x = of_int (floor (x + 1 / 2))"

definition or_one :: "rat \<Rightarrow> rat" where
  "or_one x = (if x = 0 then 1 else x)"

definition getBoundingClientRect :: "env \<Rightarrow> elem \<Rightarrow> bool \<Rightarrow> bool \<Rightarrow> client_rect" where
  "getBoundingClientRect v e includeScale isFixedStrategy =
     (let r = e_rect v e;
          (scaleX, scaleY) =
            (if includeScale \<and> is_html_el v e
             then (if offsetW v e > 0 then or_one (js_round (rwidth r) / offsetW v e) else 1,
                   if offsetH v e > 0 then or_one (js_round (rheight r) / offsetH v e) else 1)
             else (1, 1));
          addVisualOffsets = (\<not> isLayoutViewport v \<and> isFixedStrategy);
          (dx, dy) = (case visualViewport v of
                        Some vv \<Rightarrow> if addVisualOffsets then (vv_left vv, vv_top vv) else (0, 0)
                      | None \<Rightarrow> (0, 0));
          x = (rx r + dx) / scaleX; y = (ry r + dy) / scaleY;
          width = rwidth r / scaleX; height = rheight r / scaleY
      in \<lparr>cr_left = x, cr_top = y, cr_right = x + width, cr_bottom = y + height, cr_width = width, cr_height = height\<rparr>)"

definition getLayoutRect :: "env \<Rightarrow> elem \<Rightarrow> rect" where
  "getLayoutRect v e =
     (let r = getBoundingClientRect v e False False;
          width = (if abs (cr_width r - offsetW v e) \<le> 1 then cr_width r else offsetW v e);
          height = (if abs (cr_height r - offsetH v e) \<le> 1 then cr_height r else offsetH v e)
      in \<lparr>rx = offsetL v e, ry = offsetT v e, rwidth = width, rheight = height\<rparr>)"

definition isTableElement :: "env \<Rightarrow> elem \<Rightarrow> bool" where
  "isTableElement v e = (getNodeName v e \<in> {''table'', ''td'', ''th''})"

text \<open>\<open>getParentNode\<close>: the html element is its own parent, a detached element's parent is the html element.\<close>

definition getParentNode :: "env \<Rightarrow> elem \<Rightarrow> elem" where
  "getParentNode v e =
     (if getNodeName v e = ''html'' then e
      else (case parentNode (e_page v) e of Some q \<Rightarrow> q | None \<Rightarrow> e_html v))"

definition getTrueOffsetParent :: "env \<Rightarrow> elem \<Rightarrow> elem option" where
  "getTrueOffsetParent v e =
     (if \<not> is_html_el v e \<or> css_position (e_css v e) = ''fixed'' then None else offsetParent v e)"

text \<open>The properties that make an element a containing block.\<close>

definition makes_block :: "env \<Rightarrow> elem \<Rightarrow> bool" where
  "makes_block v e =
     (let c = e_css v e; isFirefox = ua_has v ''firefox''
      in css_transform c \<noteq> ''none'' \<or> css_perspective c \<noteq> ''none'' \<or> css_contain c = ''paint''
         \<or> css_willChange c \<in> {''transform'', ''perspective''}
         \<or> isFirefox \<and> css_willChange c = ''filter'' \<or> isFirefox \<and> css_filter c \<noteq> [] \<and> css_filter c \<noteq> ''none'')"

text \<open>The loop of \<open>getContainingBlock\<close> over the ancestors.\<close>

fun containing_block_from :: "env \<Rightarrow> elem list \<Rightarrow> elem option" where
  "containing_block_from v [] = None"
| "containing_block_from v (x # up) =
     (if is_html_el v x \<and> getNodeName v x \<notin> {''html'', ''body''}
      then (if makes_block v x then Some x else containing_block_from v up)
      else None)"

definition ancestors :: "env \<Rightarrow> elem \<Rightarrow> elem list" where
  "ancestors v e = drop 1 (chain e (tree (e_page v)))"

definition getContainingBlock :: "env \<Rightarrow> elem \<Rightarrow> elem option" where
  "getContainingBlock v e =
     (if ua_has v ''trident'' \<and> is_html_el v e \<and> css_position (e_css v e) = ''fixed'' then None
      else containing_block_from v
             (if getNodeName v e = ''html'' then [e]
              else (case ancestors v e of [] \<Rightarrow> [e_html v] | xs \<Rightarrow> xs)))"

text \<open>
  The loop of \<open>getOffsetParent\<close> leaves unpositioned tables behind; each offset parent is a proper
  ancestor, so the number of ancestors bounds it.
\<close>

fun skip_tables :: "env \<Rightarrow> nat \<Rightarrow> elem option \<Rightarrow> elem option" where
  "skip_tables v 0 q = q"
| "skip_tables v (Suc n) q =
     (case q of
        None \<Rightarrow> None
      | Some x \<Rightarrow> if isTableElement v x \<and> css_position (e_css v x) = ''static'' then skip_tables v n (getTrueOffsetParent v x) else q)"

definition getOffsetParent :: "env \<Rightarrow> elem \<Rightarrow> pnode" where
  "getOffsetParent v e =
     (let op = skip_tables v (length (ancestors v e)) (getTrueOffsetParent v e)
      in (case op of
            Some x \<Rightarrow>
              if getNodeName v x = ''html'' \<or> getNodeName v x = ''body'' \<and> css_position (e_css v x) = ''static'' then Win else El x
          | None \<Rightarrow> (case getContainingBlock v e of Some x \<Rightarrow> El x | None \<Rightarrow> Win)))"

section \<open>Scrolling and the viewport\<close>

definition getWindowScrollBarX :: "env \<Rightarrow> rat" where
  "getWindowScrollBarX v = cr_left (getBoundingClientRect v (e_html v) False False) + pageX v"

definition getViewportRect :: "env \<Rightarrow> bool \<Rightarrow> rect" where
  "getViewportRect v fixed =
     (let html = e_html v;
          (w, h, x, y) =
            (case visualViewport v of
               None \<Rightarrow> (clientW v html, clientH v html, 0, 0)
             | Some vv \<Rightarrow>
                 if isLayoutViewport v \<or> \<not> isLayoutViewport v \<and> fixed then (vv_width vv, vv_height vv, vv_left vv, vv_top vv)
                 else (vv_width vv, vv_height vv, 0, 0))
      in \<lparr>rx = x + getWindowScrollBarX v, ry = y, rwidth = w, rheight = h\<rparr>)"

definition max4 :: "rat \<Rightarrow> rat \<Rightarrow> rat \<Rightarrow> rat \<Rightarrow> rat" where
  "max4 a b c d = max (max a b) (max c d)"

definition getDocumentRect :: "env \<Rightarrow> rect" where
  "getDocumentRect v =
     (let html = e_html v; body = e_body v;
          width = max4 (scrollW v html) (clientW v html) (scrollW v body) (clientW v body);
          height = max4 (scrollH v html) (clientH v html) (scrollH v body) (clientH v body);
          x = - pageX v + getWindowScrollBarX v; y = - pageY v;
          x1 = (if css_direction (e_css v body) = ''rtl'' then x + max (clientW v html) (clientW v body) - width else x)
      in \<lparr>rx = x1, ry = y, rwidth = width, rheight = height\<rparr>)"

definition isScrollParent :: "env \<Rightarrow> elem \<Rightarrow> bool" where
  "isScrollParent v e =
     (let c = e_css v e; t = css_overflow c @ css_overflowY c @ css_overflowX c
      in str_includes t ''auto'' \<or> str_includes t ''scroll'' \<or> str_includes t ''overlay'' \<or> str_includes t ''hidden'')"

text \<open>\<open>getScrollParent\<close>, along the element and its ancestors; past them comes the html element, so the body.\<close>

fun scroll_parent_from :: "env \<Rightarrow> elem list \<Rightarrow> elem" where
  "scroll_parent_from v [] = e_body v"
| "scroll_parent_from v (x # up) =
     (if getNodeName v x \<in> {''html'', ''body''} then e_body v
      else if is_html_el v x \<and> isScrollParent v x then x
      else scroll_parent_from v up)"

definition getScrollParent :: "env \<Rightarrow> elem \<Rightarrow> elem" where
  "getScrollParent v e = scroll_parent_from v (e # ancestors v e)"

text \<open>
  \<open>listScrollParents\<close>: scroll parents from the inside out, the window (with the visual viewport)
  last.  The list \<open>up\<close> is the path still to walk; \<open>VV\<close> stands for the visual viewport object.
\<close>

datatype scroller = ScrollWin | ScrollVV | ScrollEl elem

fun list_scroll_parents :: "env \<Rightarrow> elem list \<Rightarrow> scroller list" where
  "list_scroll_parents v [] =
     ScrollWin # (if visualViewport v \<noteq> None then [ScrollVV] else []) @ (if isScrollParent v (e_body v) then [ScrollEl (e_body v)] else [])"
| "list_scroll_parents v (x # up) =
     (if getNodeName v x \<in> {''html'', ''body''} then list_scroll_parents v []
      else if is_html_el v x \<and> isScrollParent v x then ScrollEl x # list_scroll_parents v up
      else list_scroll_parents v up)"

definition listScrollParents :: "env \<Rightarrow> elem \<Rightarrow> scroller list" where
  "listScrollParents v e = list_scroll_parents v (e # ancestors v e)"

section \<open>Clipping\<close>

definition getInnerBoundingClientRect :: "env \<Rightarrow> elem \<Rightarrow> bool \<Rightarrow> client_rect" where
  "getInnerBoundingClientRect v e fixed =
     (let r = getBoundingClientRect v e False fixed; t = cr_top r + clientT v e; l = cr_left r + clientL v e
      in \<lparr>cr_left = l, cr_top = t, cr_right = l + clientW v e, cr_bottom = t + clientH v e, cr_width = clientW v e, cr_height = clientH v e\<rparr>)"

datatype clip_parent = ClipViewport | ClipDocument | ClipElem elem

definition getClientRectFromMixedType :: "env \<Rightarrow> clip_parent \<Rightarrow> bool \<Rightarrow> client_rect" where
  "getClientRectFromMixedType v c fixed =
     (case c of
        ClipViewport \<Rightarrow> rectToClientRect (getViewportRect v fixed)
      | ClipElem e \<Rightarrow> getInnerBoundingClientRect v e fixed
      | ClipDocument \<Rightarrow> rectToClientRect (getDocumentRect v))"

definition getClippingParents :: "env \<Rightarrow> elem \<Rightarrow> clip_parent list" where
  "getClippingParents v e =
     (let parents = listScrollParents v (getParentNode v e);
          canEscapeClipping = (css_position (e_css v e) \<in> {''absolute'', ''fixed''});
          clipperElement = (if canEscapeClipping \<and> is_html_el v e then getOffsetParent v e else El e)
      in (case clipperElement of
            Win \<Rightarrow> []
          | El c \<Rightarrow>
              concat (map (\<lambda>s. case s of
                 ScrollEl x \<Rightarrow> if contains (e_page v) x c \<and> getNodeName v x \<noteq> ''body'' then [ClipElem x] else []
               | _ \<Rightarrow> []) parents)))"

text \<open>The boundary option: the clipping parents, or boxes given by the caller.\<close>

datatype boundary = ClippingParents | Boundaries "clip_parent list"

definition meet :: "client_rect \<Rightarrow> client_rect \<Rightarrow> client_rect" where
  "meet acc r = acc\<lparr>cr_top := max (cr_top r) (cr_top acc), cr_right := min (cr_right r) (cr_right acc),
     cr_bottom := min (cr_bottom r) (cr_bottom acc), cr_left := max (cr_left r) (cr_left acc)\<rparr>"

definition getClippingRect :: "env \<Rightarrow> elem \<Rightarrow> boundary \<Rightarrow> clip_parent \<Rightarrow> bool \<Rightarrow> client_rect" where
  "getClippingRect v e bd rootBoundary fixed =
     (let mainClippingParents = (case bd of ClippingParents \<Rightarrow> getClippingParents v e | Boundaries bs \<Rightarrow> bs);
          parents = mainClippingParents @ [rootBoundary];
          r = foldl (\<lambda>acc c. meet acc (getClientRectFromMixedType v c fixed)) (getClientRectFromMixedType v (hd parents) fixed) parents
      in r\<lparr>cr_width := cr_right r - cr_left r, cr_height := cr_bottom r - cr_top r\<rparr>)"

section \<open>Composite rectangles\<close>

text \<open>\<open>round(w) / d || 1\<close> differs from 1; division by zero gives \<open>NaN\<close> or infinity.\<close>

definition scaled_by :: "rat \<Rightarrow> rat \<Rightarrow> bool" where
  "scaled_by w d = (if d = 0 then js_round w \<noteq> 0 else or_one (js_round w / d) \<noteq> 1)"

definition isElementScaled :: "env \<Rightarrow> elem \<Rightarrow> bool" where
  "isElementScaled v e =
     (let r = e_rect v e in scaled_by (rwidth r) (offsetW v e) \<or> scaled_by (rheight r) (offsetH v e))"

definition getNodeScroll :: "env \<Rightarrow> pnode \<Rightarrow> rat \<times> rat" where
  "getNodeScroll v n =
     (case n of
        Win \<Rightarrow> (pageX v, pageY v)
      | El e \<Rightarrow> if is_html_el v e then (scrollL v e, scrollT v e) else (pageX v, pageY v))"

definition getCompositeRect :: "env \<Rightarrow> elem \<Rightarrow> pnode \<Rightarrow> bool \<Rightarrow> rect" where
  "getCompositeRect v e op isFixed =
     (let anElement = (case op of El x \<Rightarrow> is_html_el v x | Win \<Rightarrow> False);
          scaled = (case op of El x \<Rightarrow> is_html_el v x \<and> isElementScaled v x | Win \<Rightarrow> False);
          r = getBoundingClientRect v e scaled isFixed;
          use = (anElement \<or> \<not> anElement \<and> \<not> isFixed);
          is_body = (case op of El x \<Rightarrow> getNodeName v x = ''body'' | Win \<Rightarrow> False);
          (sl, st) = (if use \<and> (\<not> is_body \<or> isScrollParent v (e_html v)) then getNodeScroll v op else (0, 0));
          (ox, oy) = (if \<not> use then (0, 0)
                      else (case op of
                              El x \<Rightarrow> if is_html_el v x then
                                  (let b = getBoundingClientRect v x True False in (cr_left b + clientL v x, cr_top b + clientT v x))
                                else (getWindowScrollBarX v, 0)
                            | Win \<Rightarrow> (getWindowScrollBarX v, 0)))
      in \<lparr>rx = cr_left r + sl - ox, ry = cr_top r + st - oy, rwidth = cr_width r, rheight = cr_height r\<rparr>)"

section \<open>Properties\<close>

definition inside :: "client_rect \<Rightarrow> rat \<Rightarrow> rat \<Rightarrow> bool" where
  "inside r x y = (cr_left r \<le> x \<and> x \<le> cr_right r \<and> cr_top r \<le> y \<and> y \<le> cr_bottom r)"

lemma inside_meet: "inside (meet a r) x y \<longleftrightarrow> inside a x y \<and> inside r x y"
  by (auto simp: inside_def meet_def)

lemma inside_foldl: "inside (foldl (\<lambda>acc c. meet acc (f c)) a cs) x y \<longleftrightarrow> inside a x y \<and> (\<forall>c \<in> set cs. inside (f c) x y)"
  by (induction cs arbitrary: a) (auto simp: inside_meet)

definition clip_parents :: "env \<Rightarrow> elem \<Rightarrow> boundary \<Rightarrow> clip_parent \<Rightarrow> clip_parent list" where
  "clip_parents v e bd rootBoundary =
     (case bd of ClippingParents \<Rightarrow> getClippingParents v e | Boundaries bs \<Rightarrow> bs) @ [rootBoundary]"

text \<open>
  The clipping rectangle is the intersection of the clipping parents.  A point lies in
  \<open>getClippingRect\<close> exactly when it lies in the box of every clipping parent and of the root
  boundary, and the width and height reported are those of the rectangle.
\<close>

theorem clipping_rect_is_intersection:
  "(inside (getClippingRect v e bd rootBoundary fixed) x y \<longleftrightarrow>
      list_all (\<lambda>c. inside (getClientRectFromMixedType v c fixed) x y) (clip_parents v e bd rootBoundary))
   \<and> cr_width (getClippingRect v e bd rootBoundary fixed)
       = cr_right (getClippingRect v e bd rootBoundary fixed) - cr_left (getClippingRect v e bd rootBoundary fixed)
   \<and> cr_height (getClippingRect v e bd rootBoundary fixed)
       = cr_bottom (getClippingRect v e bd rootBoundary fixed) - cr_top (getClippingRect v e bd rootBoundary fixed)"
proof -
  let ?ps = "clip_parents v e bd rootBoundary"
  have ne: "?ps \<noteq> []" by (simp add: clip_parents_def)
  let ?r = "foldl (\<lambda>acc c. meet acc (getClientRectFromMixedType v c fixed)) (getClientRectFromMixedType v (hd ?ps) fixed) ?ps"
  have eq: "getClippingRect v e bd rootBoundary fixed = ?r\<lparr>cr_width := cr_right ?r - cr_left ?r, cr_height := cr_bottom ?r - cr_top ?r\<rparr>"
    by (simp add: getClippingRect_def clip_parents_def Let_def)
  have "inside ?r x y \<longleftrightarrow> (\<forall>c \<in> set ?ps. inside (getClientRectFromMixedType v c fixed) x y)"
    using ne by (auto simp: inside_foldl)
  then show ?thesis unfolding eq by (simp add: inside_def list_all_iff)
qed

lemma listScrollParents_window: "ScrollWin \<in> set (list_scroll_parents v up)"
  by (induction v up rule: list_scroll_parents.induct) auto

text \<open>
  Scroll listeners reach exactly the scrolling ancestors.  Outside the body, an element of
  the path from the element upwards gets a scroll listener exactly when it is an HTML element that
  scrolls; the window gets one always.
\<close>

theorem scroll_listeners_on_scrolling_ancestors:
  assumes "path = takeWhile (\<lambda>x. getNodeName v x \<notin> {''html'', ''body''}) (e # ancestors v e)" "x \<noteq> e_body v"
  shows "(ScrollEl x \<in> set (listScrollParents v e) \<longleftrightarrow> x \<in> set path \<and> is_html_el v x \<and> isScrollParent v x)
    \<and> ScrollWin \<in> set (listScrollParents v e)"
proof -
  have "ScrollEl x \<in> set (list_scroll_parents v up) \<longleftrightarrow>
      x \<in> set (takeWhile (\<lambda>x. getNodeName v x \<notin> {''html'', ''body''}) up) \<and> is_html_el v x \<and> isScrollParent v x" for up
    using assms(2) by (induction v up rule: list_scroll_parents.induct) auto
  with assms(1) listScrollParents_window show ?thesis by (simp only: listScrollParents_def)
qed

definition demo_css :: css where
  "demo_css = \<lparr>css_position = ''static'', css_transform = ''none'', css_perspective = ''none'', css_contain = ''none'',
     css_willChange = ''auto'', css_filter = ''none'', css_overflow = ''visible'', css_overflowX = ''visible'', css_overflowY = ''visible'',
     css_direction = ''ltr''\<rparr>"

definition demo_env :: env where
  "demo_env = \<lparr>e_page = \<lparr>tree = Elem 2 [Elem 3 [Elem 4 [Elem 5 []]]],
       nodes = (\<lambda>e. \<lparr>tagName = (if e = 2 then ''html'' else if e = 3 then ''body'' else ''div''), classList = [], attributes = [],
                     style = (\<lambda>_. []), textContent = []\<rparr>), focused = None, ev_log = []\<rparr>,
     e_body = 3, e_html = 2, is_html_el = (\<lambda>_. True),
     e_css = (\<lambda>e. if e = 4 then demo_css\<lparr>css_overflow := ''auto''\<rparr> else demo_css),
     e_rect = (\<lambda>e. if e = 5 then \<lparr>rx = 10, ry = 20, rwidth = 30, rheight = 10\<rparr> else \<lparr>rx = 0, ry = 0, rwidth = 200, rheight = 100\<rparr>),
     offsetW = (\<lambda>_. 200), offsetH = (\<lambda>_. 100), offsetL = (\<lambda>_. 0), offsetT = (\<lambda>_. 0),
     clientW = (\<lambda>_. 200), clientH = (\<lambda>_. 100), clientL = (\<lambda>_. 0), clientT = (\<lambda>_. 0),
     scrollW = (\<lambda>_. 200), scrollH = (\<lambda>_. 100), scrollL = (\<lambda>_. 0), scrollT = (\<lambda>_. 0),
     offsetParent = (\<lambda>_. Some 3), pageX = 0, pageY = 0, visualViewport = None, devicePixelRatio = 1, uaString = ''chrome''\<rparr>"

theorem scroll_listeners_on_scrolling_ancestors_witness: "ScrollEl 4 \<in> set (listScrollParents demo_env 5)"
proof -
  have "takeWhile (\<lambda>x. getNodeName demo_env x \<notin> {''html'', ''body''}) (5 # ancestors demo_env 5) = [5, 4]" by code_simp
  moreover have "is_html_el demo_env 4 \<and> isScrollParent demo_env 4" "4 \<noteq> e_body demo_env" by code_simp+
  ultimately show ?thesis using scroll_listeners_on_scrolling_ancestors [OF refl, of 4 demo_env 5] by simp
qed

end
