(* ===== verification/Popper_Modifiers.thy ===== *)
theory Popper_Modifiers
  imports Popper_Dom
begin

text \<open>
  Popper's positioning in \<open>bootstrap.bundle.js\<close>: the offsets of a placement, overflow detection, and
  the modifiers that work on the shared state.  A modifier is a function on the state record; the
  fields of \<open>modifiersData\<close> that modifiers read from one another are fields of the state.
\<close>

section \<open>State and options\<close>

type_synonym xy = "rat \<times> rat"

record hide_data =
  referenceClippingOffsets :: sides
  popperEscapeOffsets :: sides
  isReferenceHidden :: bool
  hasPopperEscaped :: bool

text \<open>Values of style properties; \<open>Translate\<close> is a \<open>transform\<close>, in 3D on high-density screens.\<close>

datatype style_val = Text string | Px rat | Translate rat rat bool

datatype attr_val = AttrBool bool | AttrText string

type_synonym styles = "(string \<times> style_val) list"

record pstate =
  st_placement :: placement
  opt_placement :: placement
  opt_fixed :: bool
  el_reference :: elem
  el_popper :: elem
  el_arrow :: "elem option"
  r_reference :: rect
  r_popper :: rect
  md_popperOffsets :: "xy option"
  md_offset :: "(placement \<Rightarrow> xy) option"
  md_preventOverflow :: "xy option"
  md_hide :: "hide_data option"
  md_arrow :: "(rat option \<times> rat option) option"
  md_centerOffset :: "rat option"
  md_flip_skip :: bool
  styles_popper :: styles
  styles_arrow :: styles
  attributes_popper :: "(string \<times> attr_val) list"
  st_reset :: bool

text \<open>Padding: one number for all sides, or an object that may leave sides out.\<close>

datatype padding = PadNum rat | PadObj "side \<Rightarrow> rat option"

definition toPaddingObject :: "padding \<Rightarrow> sides" where
  "toPaddingObject pad =
     (case pad of
        PadNum n \<Rightarrow> \<lparr>s_top = n, s_right = n, s_bottom = n, s_left = n\<rparr>
      | PadObj f \<Rightarrow>
          (let get = (\<lambda>s. case f s of None \<Rightarrow> 0 | Some n \<Rightarrow> n)
           in \<lparr>s_top = get Top, s_right = get Right, s_bottom = get Bottom, s_left = get Left\<rparr>))"

record overflow_options =
  o_boundary :: boundary
  o_rootBoundary :: clip_parent
  o_altBoundary :: bool
  o_padding :: padding

definition default_overflow :: overflow_options where
  "default_overflow = \<lparr>o_boundary = ClippingParents, o_rootBoundary = ClipViewport, o_altBoundary = False, o_padding = PadNum 0\<rparr>"

section \<open>Offsets and overflow\<close>

definition computeOffsets :: "rect \<Rightarrow> rect \<Rightarrow> placement \<Rightarrow> xy" where
  "computeOffsets ref elt pl =
     (let commonX = rx ref + rwidth ref / 2 - rwidth elt / 2;
          commonY = ry ref + rheight ref / 2 - rheight elt / 2;
          (x, y) = (case base pl of
                      Top \<Rightarrow> (commonX, ry ref - rheight elt)
                    | Bottom \<Rightarrow> (commonX, ry ref + rheight ref)
                    | Right \<Rightarrow> (rx ref + rwidth ref, commonY)
                    | Left \<Rightarrow> (rx ref - rwidth elt, commonY)
                    | Auto \<Rightarrow> (rx ref, ry ref));
          mainAxis = main_axis (base pl);
          d = len_of mainAxis ref / 2 - len_of mainAxis elt / 2;
          shift = (case var pl of None \<Rightarrow> 0 | Some Start \<Rightarrow> - d | Some End \<Rightarrow> d)
      in if mainAxis = X then (x + shift, y) else (x, y + shift))"

text \<open>
  \<open>detectOverflow\<close>.  Its \<open>strategy\<close> defaults to \<open>state.strategy\<close>, a property nothing sets, and no
  caller passes one, so the boxes are always those of the non-fixed strategy.
\<close>

definition overflow_of :: "client_rect \<Rightarrow> client_rect \<Rightarrow> sides \<Rightarrow> sides" where
  "overflow_of clip el pad =
     \<lparr>s_top = cr_top clip - cr_top el + s_top pad, s_right = cr_right el - cr_right clip + s_right pad,
      s_bottom = cr_bottom el - cr_bottom clip + s_bottom pad, s_left = cr_left clip - cr_left el + s_left pad\<rparr>"

definition add_offset :: "xy \<Rightarrow> sides \<Rightarrow> sides" where
  "add_offset d o1 =
     \<lparr>s_top = s_top o1 - snd d, s_right = s_right o1 + fst d, s_bottom = s_bottom o1 + snd d, s_left = s_left o1 - fst d\<rparr>"

definition detectOverflow :: "env \<Rightarrow> pstate \<Rightarrow> placement \<Rightarrow> bool \<Rightarrow> overflow_options \<Rightarrow> sides" where
  "detectOverflow v st pl popperContext opts =
     (let paddingObject = toPaddingObject (o_padding opts);
          element = (if o_altBoundary opts then (if popperContext then el_reference st else el_popper st)
                     else (if popperContext then el_popper st else el_reference st));
          clip = getClippingRect v element (o_boundary opts) (o_rootBoundary opts) False;
          referenceClientRect = getBoundingClientRect v (el_reference st) False False;
          (px, py) = computeOffsets (to_rect referenceClientRect) (r_popper st) pl;
          popperClientRect = rectToClientRect ((r_popper st)\<lparr>rx := px, ry := py\<rparr>);
          elementClientRect = (if popperContext then popperClientRect else referenceClientRect);
          overflowOffsets = overflow_of clip elementClientRect paddingObject
      in (case md_offset st of
            Some data \<Rightarrow> if popperContext then add_offset (data pl) overflowOffsets else overflowOffsets
          | None \<Rightarrow> overflowOffsets))"

definition computeAutoPlacement :: "env \<Rightarrow> pstate \<Rightarrow> placement \<Rightarrow> overflow_options \<Rightarrow> bool \<Rightarrow> placement list \<Rightarrow> placement list" where
  "computeAutoPlacement v st pl opts flipVariations allowedAutoPlacements =
     (let candidates = (case var pl of
              Some vr \<Rightarrow> if flipVariations then variationPlacements else filter (\<lambda>q. var q = Some vr) variationPlacements
            | None \<Rightarrow> map (\<lambda>s. Placement s None) basePlacements);
          allowed = filter (\<lambda>q. q \<in> set allowedAutoPlacements) candidates;
          allowed1 = (if allowed = [] then candidates else allowed)
      in sort_key (\<lambda>q. side_val (detectOverflow v st q True (opts\<lparr>o_altBoundary := False\<rparr>)) (base q)) allowed1)"

section \<open>flip\<close>

record flip_options =
  f_mainAxis :: bool
  f_altAxis :: bool
  f_fallback :: "placement list option"
  f_overflow :: overflow_options
  f_flipVariations :: bool
  f_allowedAuto :: "placement list"

definition default_flip :: flip_options where
  "default_flip = \<lparr>f_mainAxis = True, f_altAxis = True, f_fallback = None, f_overflow = default_overflow,
     f_flipVariations = True, f_allowedAuto = placements\<rparr>"

definition flip_candidates :: "env \<Rightarrow> pstate \<Rightarrow> flip_options \<Rightarrow> placement list" where
  "flip_candidates v st opts =
     (let preferred = opt_placement st;
          isBasePlacement = (var preferred = None);
          fallback = (case f_fallback opts of
              Some ps \<Rightarrow> ps
            | None \<Rightarrow> if isBasePlacement \<or> \<not> f_flipVariations opts then [opposite preferred]
                      else getExpandedFallbackPlacements preferred)
      in concat (map (\<lambda>pl. if base pl = Auto
                           then computeAutoPlacement v st pl (f_overflow opts) (f_flipVariations opts) (f_allowedAuto opts)
                           else [pl]) (preferred # fallback)))"

text \<open>The checks of one candidate: its own side, then the two sides across it.\<close>

definition flip_checks :: "env \<Rightarrow> pstate \<Rightarrow> flip_options \<Rightarrow> placement \<Rightarrow> bool list" where
  "flip_checks v st opts pl =
     (let isStartVariation = (var pl = Some Start);
          isVertical = (base pl = Top \<or> base pl = Bottom);
          len = (if isVertical then rwidth else rheight);
          overflow = detectOverflow v st pl True (f_overflow opts);
          side0 = (if isVertical then (if isStartVariation then Right else Left) else (if isStartVariation then Bottom else Top));
          mainVariationSide = (if len (r_reference st) > len (r_popper st) then opposite_side side0 else side0);
          altVariationSide = opposite_side mainVariationSide
      in (if f_mainAxis opts then [side_val overflow (base pl) \<le> 0] else [])
         @ (if f_altAxis opts then [side_val overflow mainVariationSide \<le> 0, side_val overflow altVariationSide \<le> 0] else []))"

definition every :: "bool list \<Rightarrow> bool" where
  "every bs = list_all id bs"

text \<open>The fallback loop: the first candidate that passes its first n checks, for n going down.\<close>

fun flip_fallback :: "(placement \<Rightarrow> bool list) \<Rightarrow> nat \<Rightarrow> placement list \<Rightarrow> placement option" where
  "flip_fallback checks 0 ps = None"
| "flip_fallback checks (Suc n) ps =
     (case find (\<lambda>pl. every (take (Suc n) (checks pl))) ps of Some pl \<Rightarrow> Some pl | None \<Rightarrow> flip_fallback checks n ps)"

definition flip_choice :: "env \<Rightarrow> pstate \<Rightarrow> flip_options \<Rightarrow> placement" where
  "flip_choice v st opts =
     (let ps = flip_candidates v st opts; checks = flip_checks v st opts
      in (case find (\<lambda>pl. every (checks pl)) ps of
            Some pl \<Rightarrow> pl
          | None \<Rightarrow>
              (case flip_fallback checks (if f_flipVariations opts then 3 else 1) ps of
                 Some pl \<Rightarrow> pl
               | None \<Rightarrow> hd ps)))"

definition flip :: "env \<Rightarrow> flip_options \<Rightarrow> pstate \<Rightarrow> pstate" where
  "flip v opts st =
     (if md_flip_skip st then st
      else (let firstFittingPlacement = flip_choice v st opts
            in if st_placement st \<noteq> firstFittingPlacement
               then st\<lparr>md_flip_skip := True, st_placement := firstFittingPlacement, st_reset := True\<rparr>
               else st))"

section \<open>hide, offset, popperOffsets\<close>

definition getSideOffsets :: "sides \<Rightarrow> rect \<Rightarrow> xy \<Rightarrow> sides" where
  "getSideOffsets ov r prevented =
     \<lparr>s_top = s_top ov - rheight r - snd prevented, s_right = s_right ov - rwidth r + fst prevented,
      s_bottom = s_bottom ov - rheight r + snd prevented, s_left = s_left ov - rwidth r - fst prevented\<rparr>"

definition isAnySideFullyClipped :: "sides \<Rightarrow> bool" where
  "isAnySideFullyClipped ov = (s_top ov \<ge> 0 \<or> s_right ov \<ge> 0 \<or> s_bottom ov \<ge> 0 \<or> s_left ov \<ge> 0)"

definition hide :: "env \<Rightarrow> pstate \<Rightarrow> pstate" where
  "hide v st =
     (let prevented = (case md_preventOverflow st of None \<Rightarrow> (0, 0) | Some d \<Rightarrow> d);
          referenceOverflow = detectOverflow v st (st_placement st) False default_overflow;
          popperAltOverflow = detectOverflow v st (st_placement st) True (default_overflow\<lparr>o_altBoundary := True\<rparr>);
          clippingOffsets = getSideOffsets referenceOverflow (r_reference st) (0, 0);
          escapeOffsets = getSideOffsets popperAltOverflow (r_popper st) prevented;
          hidden = isAnySideFullyClipped clippingOffsets;
          escaped = isAnySideFullyClipped escapeOffsets
      in st\<lparr>md_hide := Some \<lparr>referenceClippingOffsets = clippingOffsets, popperEscapeOffsets = escapeOffsets,
                              isReferenceHidden = hidden, hasPopperEscaped = escaped\<rparr>,
            attributes_popper := AList.update ''data-popper-escaped'' (AttrBool escaped)
              (AList.update ''data-popper-reference-hidden'' (AttrBool hidden) (attributes_popper st))\<rparr>)"

text \<open>The offset option: skidding and distance for a placement, constant or computed from the rects.\<close>

type_synonym offset_option = "rect \<Rightarrow> rect \<Rightarrow> placement \<Rightarrow> rat \<times> rat"

definition distanceAndSkiddingToXY :: "placement \<Rightarrow> rect \<Rightarrow> rect \<Rightarrow> offset_option \<Rightarrow> xy" where
  "distanceAndSkiddingToXY pl ref pop off =
     (let invertDistance = (if base pl = Left \<or> base pl = Top then -1 else 1);
          (skidding, d) = off ref pop pl;
          distance = d * invertDistance
      in if base pl = Left \<or> base pl = Right then (distance, skidding) else (skidding, distance))"

definition offset :: "offset_option \<Rightarrow> pstate \<Rightarrow> pstate" where
  "offset off st =
     (let data = (\<lambda>pl. distanceAndSkiddingToXY pl (r_reference st) (r_popper st) off);
          (x, y) = data (st_placement st)
      in st\<lparr>md_popperOffsets := map_option (\<lambda>(a, b). (a + x, b + y)) (md_popperOffsets st), md_offset := Some data\<rparr>)"

definition popperOffsets :: "pstate \<Rightarrow> pstate" where
  "popperOffsets st = st\<lparr>md_popperOffsets := Some (computeOffsets (r_reference st) (r_popper st) (st_placement st))\<rparr>"

section \<open>preventOverflow\<close>

record prevent_options =
  p_mainAxis :: bool
  p_altAxis :: bool
  p_overflow :: overflow_options
  p_tether :: bool
  p_tetherMain :: rat
  p_tetherAlt :: rat
  p_arrowPadding :: sides

definition axis_val :: "axis \<Rightarrow> xy \<Rightarrow> rat" where
  "axis_val a d = (if a = X then fst d else snd d)"

definition set_axis :: "axis \<Rightarrow> rat \<Rightarrow> xy \<Rightarrow> xy" where
  "set_axis a n d = (if a = X then (n, snd d) else (fst d, n))"

definition low_side :: "axis \<Rightarrow> side" where
  "low_side a = (if a = Y then Top else Left)"

definition high_side :: "axis \<Rightarrow> side" where
  "high_side a = (if a = Y then Bottom else Right)"

definition offset_state :: "pstate \<Rightarrow> axis \<Rightarrow> rat" where
  "offset_state st a = (case md_offset st of None \<Rightarrow> 0 | Some data \<Rightarrow> axis_val a (data (st_placement st)))"

text \<open>The two tether bounds of the main axis.\<close>

definition tether_bounds :: "env \<Rightarrow> prevent_options \<Rightarrow> pstate \<Rightarrow> axis \<Rightarrow> rat \<Rightarrow> rat \<times> rat" where
  "tether_bounds v opts st a off =
     (let vr = var (st_placement st);
          refLen = len_of a (r_reference st); popLen = len_of a (r_popper st);
          additive = (if p_tether opts then - popLen / 2 else 0);
          minLen = (if vr = Some Start then refLen else popLen);
          maxLen = (if vr = Some Start then - popLen else - refLen);
          arrowRectLen = (case el_arrow st of Some ar \<Rightarrow> if p_tether opts then len_of a (getLayoutRect v ar) else 0 | None \<Rightarrow> 0);
          arrowPaddingMin = side_val (p_arrowPadding opts) (low_side a);
          arrowPaddingMax = side_val (p_arrowPadding opts) (high_side a);
          arrowLen = within_range 0 refLen arrowRectLen;
          minOffset = (if vr = None then refLen / 2 - additive - arrowLen - arrowPaddingMin - p_tetherMain opts
                       else minLen - arrowLen - arrowPaddingMin - p_tetherMain opts);
          maxOffset = (if vr = None then - refLen / 2 + additive + arrowLen + arrowPaddingMax + p_tetherMain opts
                       else maxLen + arrowLen + arrowPaddingMax + p_tetherMain opts);
          clientOffset = (case el_arrow st of
              None \<Rightarrow> 0
            | Some ar \<Rightarrow> (case getOffsetParent v ar of El x \<Rightarrow> (if a = Y then clientT v x else clientL v x) | Win \<Rightarrow> 0));
          offsetModifierValue = offset_state st a
      in (off + minOffset - offsetModifierValue - clientOffset, off + maxOffset - offsetModifierValue))"

definition prevent_main :: "env \<Rightarrow> prevent_options \<Rightarrow> pstate \<Rightarrow> sides \<Rightarrow> axis \<Rightarrow> xy \<Rightarrow> rat" where
  "prevent_main v opts st ov a offs =
     (let off = axis_val a offs;
          lo = off + side_val ov (low_side a);
          hi = off - side_val ov (high_side a);
          (tetherMin, tetherMax) = tether_bounds v opts st a off
      in within_range (if p_tether opts then min lo tetherMin else lo) off (if p_tether opts then max hi tetherMax else hi))"

definition prevent_alt :: "prevent_options \<Rightarrow> pstate \<Rightarrow> sides \<Rightarrow> axis \<Rightarrow> xy \<Rightarrow> rat" where
  "prevent_alt opts st ov a offs =
     (let off = axis_val a offs;
          lo = off + side_val ov (low_side a);
          hi = off - side_val ov (high_side a);
          isOriginSide = (base (st_placement st) = Top \<or> base (st_placement st) = Left);
          offsetModifierValue = offset_state st a;
          lens = len_of a (r_reference st) + len_of a (r_popper st);
          tetherMin = (if isOriginSide then lo else off - lens - offsetModifierValue + p_tetherAlt opts);
          tetherMax = (if isOriginSide then off + lens - offsetModifierValue - p_tetherAlt opts else hi)
      in if p_tether opts \<and> isOriginSide then withinMaxClamp tetherMin off tetherMax
         else within_range (if p_tether opts then tetherMin else lo) off (if p_tether opts then tetherMax else hi))"

definition preventOverflow :: "env \<Rightarrow> prevent_options \<Rightarrow> pstate \<Rightarrow> pstate" where
  "preventOverflow v opts st =
     (let ov = detectOverflow v st (st_placement st) True (p_overflow opts);
          mainAxis = main_axis (base (st_placement st)); altAxis = getAltAxis mainAxis
      in (case md_popperOffsets st of
            None \<Rightarrow> st
          | Some offs \<Rightarrow>
              (let (offs1, data1) =
                     (if p_mainAxis opts
                      then (let n = prevent_main v opts st ov mainAxis offs
                            in (set_axis mainAxis n offs, set_axis mainAxis (n - axis_val mainAxis offs) (0, 0)))
                      else (offs, (0, 0)));
                   (offs2, data2) =
                     (if p_altAxis opts
                      then (let n = prevent_alt opts st ov altAxis offs1
                            in (set_axis altAxis n offs1, set_axis altAxis (n - axis_val altAxis offs1) data1))
                      else (offs1, data1))
               in st\<lparr>md_popperOffsets := Some offs2, md_preventOverflow := Some data2\<rparr>)))"

section \<open>arrow\<close>

definition arrow_bounds :: "env \<Rightarrow> padding \<Rightarrow> pstate \<Rightarrow> elem \<Rightarrow> axis \<Rightarrow> xy \<Rightarrow> rat \<times> rat \<times> rat" where
  "arrow_bounds v pad st ar a offs =
     (let paddingObject = toPaddingObject pad;
          arrowLen = len_of a (getLayoutRect v ar);
          endDiff = len_of a (r_reference st) + pos_of a (r_reference st) - axis_val a offs - len_of a (r_popper st);
          startDiff = axis_val a offs - pos_of a (r_reference st);
          clientSize = (case getOffsetParent v ar of El x \<Rightarrow> (if a = Y then clientH v x else clientW v x) | Win \<Rightarrow> 0);
          centerToReference = endDiff / 2 - startDiff / 2;
          lo = side_val paddingObject (low_side a);
          hi = clientSize - arrowLen - side_val paddingObject (high_side a);
          center = clientSize / 2 - arrowLen / 2 + centerToReference
      in (lo, center, hi))"

definition arrow :: "env \<Rightarrow> padding \<Rightarrow> pstate \<Rightarrow> pstate" where
  "arrow v pad st =
     (case (el_arrow st, md_popperOffsets st) of
        (Some ar, Some offs) \<Rightarrow>
          (let a = main_axis (base (st_placement st));
               (lo, center, hi) = arrow_bounds v pad st ar a offs;
               off = within_range lo center hi
           in st\<lparr>md_arrow := Some (if a = X then (Some off, None) else (None, Some off)), md_centerOffset := Some (off - center)\<rparr>)
      | _ \<Rightarrow> st)"

text \<open>The effect that finds the arrow: a given element, or the selector's first match in the popper.\<close>

definition arrow_effect :: "env \<Rightarrow> (elem + selector) option \<Rightarrow> pstate \<Rightarrow> pstate" where
  "arrow_effect v arrowElement st =
     (case arrowElement of
        None \<Rightarrow> st
      | Some spec \<Rightarrow>
          (case (case spec of Inl e \<Rightarrow> Some e | Inr sel \<Rightarrow> querySelector (e_page v) (el_popper st) sel) of
             None \<Rightarrow> st
           | Some e \<Rightarrow> if contains (e_page v) (el_popper st) e then st\<lparr>el_arrow := Some e\<rparr> else st))"

section \<open>computeStyles and applyStyles\<close>

definition roundOffsetsByDPR :: "env \<Rightarrow> xy \<Rightarrow> xy" where
  "roundOffsetsByDPR v d =
     (let dpr = or_one (devicePixelRatio v) in (js_round (fst d * dpr) / dpr, js_round (snd d * dpr) / dpr))"

definition unsetSides :: styles where
  "unsetSides = [(''top'', Text ''auto''), (''right'', Text ''auto''), (''bottom'', Text ''auto''), (''left'', Text ''auto'')]"

definition merge_styles :: "styles \<Rightarrow> styles \<Rightarrow> styles" where
  "merge_styles a b = foldl (\<lambda>acc (k, w). AList.update k w acc) a b"

datatype rounding = RoundByDPR | NoRounding | RoundWith "xy \<Rightarrow> xy"

text \<open>The size of the box the popper's offsets are relative to.\<close>

definition containing_size :: "env \<Rightarrow> elem \<Rightarrow> bool \<Rightarrow> rat \<times> rat" where
  "containing_size v pop fixed =
     (case getOffsetParent v pop of
        El x \<Rightarrow> (clientW v x, clientH v x)
      | Win \<Rightarrow> if css_position (e_css v (e_html v)) \<noteq> ''static'' \<and> \<not> fixed then (scrollW v (e_html v), scrollH v (e_html v))
               else (clientW v (e_html v), clientH v (e_html v)))"

definition mapToStyles ::
  "env \<Rightarrow> elem \<Rightarrow> rect \<Rightarrow> placement \<Rightarrow> rat option \<times> rat option \<Rightarrow> bool \<Rightarrow> bool \<Rightarrow> bool \<Rightarrow> rounding \<Rightarrow> styles" where
  "mapToStyles v pop popperRect pl offsets fixed gpuAcceleration adaptive roundOffsets =
     (let x0 = (case fst offsets of None \<Rightarrow> 0 | Some n \<Rightarrow> n); y0 = (case snd offsets of None \<Rightarrow> 0 | Some n \<Rightarrow> n);
          (x1, y1) = (case roundOffsets of RoundWith f \<Rightarrow> f (x0, y0) | _ \<Rightarrow> (x0, y0));
          hasX = (fst offsets \<noteq> None); hasY = (snd offsets \<noteq> None);
          (w, h) = containing_size v pop fixed;
          flipY = (adaptive \<and> (base pl = Top \<or> (base pl = Left \<or> base pl = Right) \<and> var pl = Some End));
          flipX = (adaptive \<and> (base pl = Left \<or> (base pl = Top \<or> base pl = Bottom) \<and> var pl = Some End));
          sign = (if gpuAcceleration then 1 else -1);
          y2 = (if flipY then (y1 - (h - rheight popperRect)) * sign else y1);
          x2 = (if flipX then (x1 - (w - rwidth popperRect)) * sign else x1);
          sideY = (if flipY then ''bottom'' else ''top''); sideX = (if flipX then ''right'' else ''left'');
          commonStyles = (''position'', Text (if fixed then ''fixed'' else ''absolute'')) # (if adaptive then unsetSides else []);
          (x, y) = (case roundOffsets of RoundByDPR \<Rightarrow> roundOffsetsByDPR v (x2, y2) | _ \<Rightarrow> (x2, y2))
      in if gpuAcceleration
         then merge_styles commonStyles
                [(sideY, if hasY then Text ''0'' else Text []), (sideX, if hasX then Text ''0'' else Text []),
                 (''transform'', Translate x y (\<not> or_one (devicePixelRatio v) \<le> 1))]
         else merge_styles commonStyles
                [(sideY, if hasY then Px y else Text []), (sideX, if hasX then Px x else Text []), (''transform'', Text [])])"

record style_options =
  y_gpu :: bool
  y_adaptive :: bool
  y_round :: rounding

definition computeStyles :: "env \<Rightarrow> style_options \<Rightarrow> pstate \<Rightarrow> pstate" where
  "computeStyles v opts st =
     (let st1 = (case md_popperOffsets st of
              None \<Rightarrow> st
            | Some (x, y) \<Rightarrow> st\<lparr>styles_popper := merge_styles (styles_popper st)
                (mapToStyles v (el_popper st) (r_popper st) (st_placement st) (Some x, Some y) (opt_fixed st) (y_gpu opts)
                   (y_adaptive opts) (y_round opts))\<rparr>);
          st2 = (case md_arrow st1 of
              None \<Rightarrow> st1
            | Some d \<Rightarrow> st1\<lparr>styles_arrow := merge_styles (styles_arrow st1)
                (mapToStyles v (el_popper st) (r_popper st) (st_placement st) d False (y_gpu opts) False (y_round opts))\<rparr>)
      in st2\<lparr>attributes_popper := AList.update ''data-popper-placement'' (AttrText (placement_text (st_placement st))) (attributes_popper st2)\<rparr>)"

text \<open>\<open>applyStyles\<close> writes styles and attributes to one element; \<open>show_val\<close> is the text of a style value.\<close>

definition apply_attributes :: "elem \<Rightarrow> (string \<times> attr_val) list \<Rightarrow> page \<Rightarrow> page" where
  "apply_attributes e ats p =
     foldl (\<lambda>q (name, value). case value of
         AttrBool False \<Rightarrow> removeAttribute e name q
       | AttrBool True \<Rightarrow> setAttribute e name [] q
       | AttrText t \<Rightarrow> setAttribute e name t q) p ats"

definition apply_style :: "(style_val \<Rightarrow> string) \<Rightarrow> elem \<Rightarrow> styles \<Rightarrow> page \<Rightarrow> page" where
  "apply_style show_val e sty p = foldl (\<lambda>q (k, w). setStyle e k (show_val w) q) p sty"

definition applyStyles :: "(style_val \<Rightarrow> string) \<Rightarrow> env \<Rightarrow> pstate \<Rightarrow> page \<Rightarrow> page" where
  "applyStyles show_val v st p =
     (let p1 = (if is_html_el v (el_popper st)
                then apply_attributes (el_popper st) (attributes_popper st) (apply_style show_val (el_popper st) (styles_popper st) p) else p)
      in (case el_arrow st of
            Some e \<Rightarrow> if is_html_el v e then apply_style show_val e (styles_arrow st) p1 else p1
          | None \<Rightarrow> p1))"

definition initial_styles :: "bool \<Rightarrow> styles" where
  "initial_styles fixed =
     [(''position'', Text (if fixed then ''fixed'' else ''absolute'')), (''left'', Text ''0''), (''top'', Text ''0''), (''margin'', Text ''0'')]"

definition applyStyles_effect :: "(style_val \<Rightarrow> string) \<Rightarrow> pstate \<Rightarrow> page \<Rightarrow> pstate \<times> page" where
  "applyStyles_effect show_val st p =
     (let p1 = apply_style show_val (el_popper st) (initial_styles (opt_fixed st)) p;
          p2 = (case el_arrow st of Some e \<Rightarrow> apply_style show_val e [(''position'', Text ''absolute'')] p1 | None \<Rightarrow> p1)
      in (st\<lparr>styles_popper := initial_styles (opt_fixed st), styles_arrow := [(''position'', Text ''absolute'')]\<rparr>, p2))"

definition applyStyles_cleanup :: "env \<Rightarrow> pstate \<Rightarrow> page \<Rightarrow> page" where
  "applyStyles_cleanup v st p =
     (let unset = (\<lambda>e sty q. foldl (\<lambda>r (k, w). setStyle e k [] r) q sty);
          p1 = (if is_html_el v (el_popper st)
                then foldl (\<lambda>q (name, value). removeAttribute (el_popper st) name q) (unset (el_popper st) (styles_popper st) p) (attributes_popper st)
                else p)
      in (case el_arrow st of Some e \<Rightarrow> if is_html_el v e then unset e (styles_arrow st) p1 else p1 | None \<Rightarrow> p1))"

section \<open>Properties of placement\<close>

text \<open>The near edge of the popper is the reference's edge on the placement's side.\<close>

fun flush :: "rect \<Rightarrow> rect \<Rightarrow> xy \<Rightarrow> side \<Rightarrow> bool" where
  "flush ref elt (x, y) Top = (y + rheight elt = ry ref)"
| "flush ref elt (x, y) Bottom = (y = ry ref + rheight ref)"
| "flush ref elt (x, y) Left = (x + rwidth elt = rx ref)"
| "flush ref elt (x, y) Right = (x = rx ref + rwidth ref)"
| "flush ref elt (x, y) Auto = (x = rx ref)"

text \<open>Along the other axis the popper is centred, or shares the start or the end edge.\<close>

fun aligned :: "rect \<Rightarrow> rect \<Rightarrow> xy \<Rightarrow> axis \<Rightarrow> variation option \<Rightarrow> bool" where
  "aligned ref elt d a None = (axis_val a d + len_of a elt / 2 = pos_of a ref + len_of a ref / 2)"
| "aligned ref elt d a (Some Start) = (axis_val a d = pos_of a ref)"
| "aligned ref elt d a (Some End) = (axis_val a d + len_of a elt = pos_of a ref + len_of a ref)"

text \<open>
  A popper sits flush against its reference.  At the offsets of a placement the popper's near
  edge coincides with the reference's edge on that side, and across it the popper is centred, or
  aligned with the reference's start or end edge.
\<close>

theorem popper_adjacent:
  "flush ref elt (computeOffsets ref elt pl) (base pl)
   \<and> (base pl = Auto \<or> aligned ref elt (computeOffsets ref elt pl) (main_axis (base pl)) (var pl))"
proof
  show "flush ref elt (computeOffsets ref elt pl) (base pl)"
    by (cases "base pl") (simp_all add: computeOffsets_def Let_def main_axis_def)
  have "aligned ref elt (computeOffsets ref elt pl) (main_axis (base pl)) (var pl)" if "base pl \<noteq> Auto"
  proof (cases "var pl")
    case None
    with that show ?thesis
      by (cases "base pl") (simp_all add: computeOffsets_def Let_def main_axis_def axis_val_def pos_of_def len_of_def)
  next
    case (Some vr)
    with that show ?thesis
      by (cases vr; cases "base pl")
        (simp_all add: computeOffsets_def Let_def main_axis_def axis_val_def pos_of_def len_of_def field_simps)
  qed
  then show "base pl = Auto \<or> aligned ref elt (computeOffsets ref elt pl) (main_axis (base pl)) (var pl)" by blast
qed

section \<open>Properties of flip\<close>

lemma find_first:
  "find P xs = Some x \<Longrightarrow> \<exists>us vs. xs = us @ x # vs \<and> P x \<and> (\<forall>u \<in> set us. \<not> P u)"
proof (induction xs)
  case (Cons y ys)
  show ?case
  proof (cases "P y")
    case True
    with Cons.prems show ?thesis by (intro exI [of _ "[]"] exI [of _ ys]) auto
  next
    case False
    with Cons obtain us vs where "ys = us @ x # vs" "P x" "\<forall>u \<in> set us. \<not> P u" by auto
    with False show ?thesis by (intro exI [of _ "y # us"] exI [of _ vs]) auto
  qed
qed simp

lemma flip_fallback_mem: "flip_fallback c n ps = Some pl \<Longrightarrow> pl \<in> set ps"
  by (induction n) (auto split: option.splits simp: find_Some_iff)

lemma sort_key_Nil: "sort_key f xs = [] \<longleftrightarrow> xs = []"
  by (metis length_0_conv length_sort)

lemma computeAutoPlacement_nonempty: "computeAutoPlacement v st pl opts fv allowed \<noteq> []"
proof (cases "var pl")
  case None
  then show ?thesis by (simp add: computeAutoPlacement_def Let_def sort_key_Nil basePlacements_def)
next
  case (Some vr)
  then show ?thesis
    by (cases vr) (auto simp: computeAutoPlacement_def Let_def sort_key_Nil variationPlacements_def basePlacements_def)
qed

lemma flip_candidates_nonempty: "flip_candidates v st opts \<noteq> []"
  by (auto simp: flip_candidates_def Let_def computeAutoPlacement_nonempty)

definition fits :: "env \<Rightarrow> pstate \<Rightarrow> flip_options \<Rightarrow> placement \<Rightarrow> bool" where
  "fits v st opts pl = every (flip_checks v st opts pl)"


text \<open>
  \<open>flip\<close> asks for at most one more round.  Run again, with whatever the other modifiers have
  changed as long as they keep its own data, it changes nothing and requests no reset.
\<close>

theorem flip_resets_once:
  assumes "st_reset (flip v opts st)" "\<not> st_reset st" "md_flip_skip st' = md_flip_skip (flip v opts st)"
  shows "flip v' opts' st' = st' \<and> st_placement (flip v opts st) = flip_choice v st opts
    \<and> st_placement st \<noteq> flip_choice v st opts"
  using assms by (auto simp: flip_def Let_def split: if_splits)

definition low_env :: env where
  "low_env = demo_env\<lparr>e_rect := (\<lambda>e. if e = 5 then \<lparr>rx = 10, ry = 70, rwidth = 30, rheight = 10\<rparr> else \<lparr>rx = 0, ry = 0, rwidth = 200, rheight = 100\<rparr>)\<rparr>"

section \<open>Properties of the other modifiers\<close>

definition overlaps :: "client_rect \<Rightarrow> client_rect \<Rightarrow> bool" where
  "overlaps a b = (cr_left a < cr_right b \<and> cr_left b < cr_right a \<and> cr_top a < cr_bottom b \<and> cr_top b < cr_bottom a)"

text \<open>
  \<open>hide\<close> marks the reference as hidden exactly when nothing of it can be seen: its box does not
  overlap the clipping rectangle of its scroll containers and the viewport.
\<close>

theorem reference_hidden_iff_clipped:
  assumes "rwidth (r_reference st) = cr_width box" "rheight (r_reference st) = cr_height box"
    and "box = getBoundingClientRect v (el_reference st) False False"
    and "clip = getClippingRect v (el_reference st) ClippingParents ClipViewport False"
  shows "map_option isReferenceHidden (md_hide (hide v st)) = Some (\<not> overlaps box clip)"
proof -
  have b: "cr_right box = cr_left box + cr_width box" "cr_bottom box = cr_top box + cr_height box"
    unfolding assms(3) by (simp_all add: getBoundingClientRect_def Let_def split: prod.splits)
  have ov: "detectOverflow v st (st_placement st) False default_overflow = overflow_of clip box (toPaddingObject (PadNum 0))"
    unfolding detectOverflow_def default_overflow_def Let_def assms(3,4)
    by (simp split: option.splits prod.splits)
  have "isAnySideFullyClipped (getSideOffsets (overflow_of clip box (toPaddingObject (PadNum 0))) (r_reference st) (0, 0))
      \<longleftrightarrow> \<not> overlaps box clip"
    using assms(1,2) b
    by (auto simp: isAnySideFullyClipped_def getSideOffsets_def overflow_of_def toPaddingObject_def overlaps_def)
  then show ?thesis by (simp add: hide_def Let_def ov)
qed

definition demo_state :: pstate where
  "demo_state = \<lparr>st_placement = Placement Bottom None, opt_placement = Placement Bottom None, opt_fixed = False,
     el_reference = 5, el_popper = 4, el_arrow = None,
     r_reference = \<lparr>rx = 10, ry = 20, rwidth = 30, rheight = 10\<rparr>, r_popper = \<lparr>rx = 0, ry = 0, rwidth = 20, rheight = 40\<rparr>,
     md_popperOffsets = Some (15, 30), md_offset = None, md_preventOverflow = None, md_hide = None, md_arrow = None, md_centerOffset = None,
     md_flip_skip = False, styles_popper = [], styles_arrow = [], attributes_popper = [], st_reset = False\<rparr>"

theorem flip_resets_once_witness:
  "flip low_env default_flip (flip low_env default_flip demo_state) = flip low_env default_flip demo_state
   \<and> st_placement (flip low_env default_flip demo_state) = flip_choice low_env demo_state default_flip
   \<and> st_placement demo_state \<noteq> flip_choice low_env demo_state default_flip"
proof (rule flip_resets_once [OF _ _ refl])
  show "st_reset (flip low_env default_flip demo_state)" by code_simp
  show "\<not> st_reset demo_state" by (simp add: demo_state_def)
qed

theorem reference_hidden_iff_clipped_witness:
  "map_option isReferenceHidden (md_hide (hide demo_env demo_state))
   = Some (\<not> overlaps (getBoundingClientRect demo_env (el_reference demo_state) False False)
       (getClippingRect demo_env (el_reference demo_state) ClippingParents ClipViewport False))"
  by (rule reference_hidden_iff_clipped [OF _ _ refl refl]) code_simp+


definition plain_prevent :: prevent_options where
  "plain_prevent = \<lparr>p_mainAxis = True, p_altAxis = False, p_overflow = default_overflow, p_tether = False, p_tetherMain = 0, p_tetherAlt = 0,
     p_arrowPadding = \<lparr>s_top = 0, s_right = 0, s_bottom = 0, s_left = 0\<rparr>\<rparr>"


text \<open>
  The arrow stays inside the popper.  When the popper is long enough for the arrow and its
  padding, the arrow's offset leaves the padding free at both ends, and it points at the centre
  of the reference whenever that position is inside.
\<close>

theorem arrow_inside_popper:
  assumes "el_arrow st = Some ar" "md_popperOffsets st = Some offs" "a = main_axis (base (st_placement st))"
    and "arrow_bounds v pad st ar a offs = (lo, center, hi)" "lo \<le> hi"
  shows "\<exists>off. md_arrow (arrow v pad st) = Some (if a = X then (Some off, None) else (None, Some off))
    \<and> lo \<le> off \<and> off \<le> hi \<and> (lo \<le> center \<and> center \<le> hi \<longrightarrow> off = center)
    \<and> md_centerOffset (arrow v pad st) = Some (off - center)"
  using assms within_bounds [OF assms(5), of center]
  by (intro exI [of _ "within_range lo center hi"]) (auto simp: arrow_def Let_def)

definition arrow_state :: pstate where
  "arrow_state = demo_state\<lparr>el_arrow := Some 5\<rparr>"

definition arrow_env :: env where
  "arrow_env = demo_env\<lparr>offsetParent := (\<lambda>_. Some 4), offsetW := (\<lambda>_. 30)\<rparr>"

theorem arrow_inside_popper_witness:
  "\<exists>off. md_arrow (arrow arrow_env (PadNum 3) arrow_state) = Some (if X = X then (Some off, None) else (None, Some off)) \<and> 3 \<le> off"
proof -
  have b: "arrow_bounds arrow_env (PadNum 3) arrow_state 5 X (15, 30) = (3, 85, 167)" by code_simp
  have "el_arrow arrow_state = Some 5" "md_popperOffsets arrow_state = Some (15, 30)" "X = main_axis (base (st_placement arrow_state))"
    by (simp_all add: arrow_state_def demo_state_def main_axis_def)
  from arrow_inside_popper [OF this b] show ?thesis by auto
qed

subsection \<open>From offsets to styles\<close>

text \<open>
  Where the browser draws a box of height \<open>len\<close> in a containing block of height \<open>extent\<close>: measured
  from the near edge, or from the far edge when that is the one given, then moved by the transform.
\<close>

definition drawn_at :: "styles \<Rightarrow> string \<Rightarrow> string \<Rightarrow> (rat \<Rightarrow> rat \<Rightarrow> rat) \<Rightarrow> rat \<Rightarrow> rat \<Rightarrow> rat" where
  "drawn_at sty near far pick extent len =
     (let move = (case map_of sty ''transform'' of Some (Translate x y _) \<Rightarrow> pick x y | _ \<Rightarrow> 0);
          edge = (\<lambda>k. case map_of sty k of Some (Px n) \<Rightarrow> Some n | Some (Text t) \<Rightarrow> if t = ''0'' then Some 0 else None | _ \<Rightarrow> None)
      in (case edge far of
            Some n \<Rightarrow> extent - len - n + move
          | None \<Rightarrow> (case edge near of Some n \<Rightarrow> n + move | None \<Rightarrow> move)))"

lemma map_of_merge: "map_of (merge_styles a b) = map_of a ++ map_of (rev b)"
  unfolding merge_styles_def
  by (induction b arbitrary: a) (auto simp: update_conv' map_add_upd_left fun_eq_iff map_add_def split: option.splits)

text \<open>
  The styles draw the popper at its offsets.  Whether positions are set by \<open>top\<close>/\<open>left\<close> or by a
  transform, and whether the box is anchored at the near or (adaptively) at the far edge of its
  containing block, the popper is drawn at the computed offsets.
\<close>

theorem styles_draw_at_offsets:
  assumes "containing_size v pop fixed = (w, h)"
    and "sty = mapToStyles v pop r pl (Some x, Some y) fixed gpu adaptive NoRounding"
  shows "drawn_at sty ''left'' ''right'' (\<lambda>a b. a) w (rwidth r) = x \<and> drawn_at sty ''top'' ''bottom'' (\<lambda>a b. b) h (rheight r) = y"
proof -
  let ?fy = "adaptive \<and> (base pl = Top \<or> (base pl = Left \<or> base pl = Right) \<and> var pl = Some End)"
  let ?fx = "adaptive \<and> (base pl = Left \<or> (base pl = Top \<or> base pl = Bottom) \<and> var pl = Some End)"
  show ?thesis unfolding assms(2)
    by (cases ?fy; cases ?fx; cases gpu; cases adaptive;
        simp add: mapToStyles_def Let_def assms(1) drawn_at_def map_of_merge unsetSides_def; blast)
qed

theorem styles_draw_at_offsets_witness:
  "drawn_at (mapToStyles demo_env 4 \<lparr>rx = 0, ry = 0, rwidth = 20, rheight = 40\<rparr> (Placement Top None) (Some 15, Some 30) False True True NoRounding)
     ''top'' ''bottom'' (\<lambda>a b. b) 100 40 = 30"
proof -
  have "containing_size demo_env 4 False = (200, 100)" by code_simp
  from styles_draw_at_offsets [OF this refl, of "\<lparr>rx = 0, ry = 0, rwidth = 20, rheight = 40\<rparr>" "Placement Top None" 15 30 True True]
  show ?thesis by simp
qed

end
