(* ===== verification/Popper_Core.thy ===== *)
theory Popper_Core
  imports Popper_Modifiers "HOL-Library.Multiset"
begin

text \<open>
  Popper's core in \<open>bootstrap.bundle.js\<close>: merging and ordering the modifiers, the update cycle with
  its restart, debounced updates, and the life cycle of an instance with the listeners its
  effects install.
\<close>

section \<open>Modifiers\<close>

record modifier =
  m_name :: string
  m_enabled :: "bool option"
  m_phase :: "string option"
  m_fn :: "nat option"
  m_requires :: "string list option"
  m_requiresIfExists :: "string list option"
  m_options :: "(string \<times> jsval) list"
  m_data :: "(string \<times> jsval) list"

definition override :: "'a option \<Rightarrow> 'a option \<Rightarrow> 'a option" where
  "override old new = (case new of None \<Rightarrow> old | Some x \<Rightarrow> Some x)"

definition merge_modifier :: "modifier \<Rightarrow> modifier \<Rightarrow> modifier" where
  "merge_modifier existing current =
     \<lparr>m_name = m_name current, m_enabled = override (m_enabled existing) (m_enabled current),
      m_phase = override (m_phase existing) (m_phase current), m_fn = override (m_fn existing) (m_fn current),
      m_requires = override (m_requires existing) (m_requires current),
      m_requiresIfExists = override (m_requiresIfExists existing) (m_requiresIfExists current),
      m_options = assign (assign [] (m_options existing)) (m_options current),
      m_data = assign (assign [] (m_data existing)) (m_data current)\<rparr>"

text \<open>\<open>mergeByName\<close>: the accumulator is an object, so a name keeps the place of its first occurrence.\<close>

definition merge_into :: "(string \<times> modifier) list \<Rightarrow> modifier \<Rightarrow> (string \<times> modifier) list" where
  "merge_into merged current =
     AList.update (m_name current)
       (case map_of merged (m_name current) of None \<Rightarrow> current | Some existing \<Rightarrow> merge_modifier existing current) merged"

definition mergeByName :: "modifier list \<Rightarrow> modifier list" where
  "mergeByName ms = map snd (foldl merge_into [] ms)"

section \<open>Ordering\<close>

definition all_requires :: "modifier \<Rightarrow> string list" where
  "all_requires m = (case m_requires m of None \<Rightarrow> [] | Some r \<Rightarrow> r) @ (case m_requiresIfExists m of None \<Rightarrow> [] | Some r \<Rightarrow> r)"

text \<open>\<open>map.get(name)\<close>: a later modifier of the same name replaces an earlier one.\<close>

definition by_name :: "modifier list \<Rightarrow> string \<Rightarrow> modifier option" where
  "by_name ms n = find (\<lambda>m. m_name m = n) (rev ms)"

text \<open>
  The nested function \<open>sort\<close> of \<open>order\<close>, on the pair of visited names and result.  Its recursion only
  enters names not visited before, so the number of modifiers is enough fuel.
\<close>

primrec visit :: "nat \<Rightarrow> modifier list \<Rightarrow> modifier \<Rightarrow> string list \<times> modifier list \<Rightarrow> string list \<times> modifier list" where
  "visit 0 = (\<lambda>ms m vr. vr)"
| "visit (Suc n) =
     (\<lambda>ms m vr.
        (let (vis, res) =
               foldl (\<lambda>vr dep. if dep \<in> set (fst vr) then vr
                               else (case by_name ms dep of None \<Rightarrow> vr | Some d \<Rightarrow> visit n ms d vr))
                 (m_name m # fst vr, snd vr) (all_requires m)
         in (vis, res @ [m])))"

definition order_step :: "modifier list \<Rightarrow> string list \<times> modifier list \<Rightarrow> modifier \<Rightarrow> string list \<times> modifier list" where
  "order_step ms vr m = (if m_name m \<in> set (fst vr) then vr else visit (length ms) ms m vr)"

definition order :: "modifier list \<Rightarrow> modifier list" where
  "order ms = snd (foldl (order_step ms) ([], []) ms)"

definition modifierPhases :: "string list" where
  "modifierPhases = [''beforeRead'', ''read'', ''afterRead'', ''beforeMain'', ''main'', ''afterMain'', ''beforeWrite'', ''write'', ''afterWrite'']"

definition orderModifiers :: "modifier list \<Rightarrow> modifier list" where
  "orderModifiers ms =
     (let ordered = order ms in concat (map (\<lambda>phase. filter (\<lambda>m. m_phase m = Some phase) ordered) modifierPhases))"

text \<open>The default modifiers, as the bundle declares them.\<close>

definition mk_modifier :: "string \<Rightarrow> string \<Rightarrow> nat \<Rightarrow> string list \<Rightarrow> string list \<Rightarrow> modifier" where
  "mk_modifier name phase fn req reqIf =
     \<lparr>m_name = name, m_enabled = Some True, m_phase = Some phase, m_fn = Some fn, m_requires = Some req, m_requiresIfExists = Some reqIf,
      m_options = [], m_data = []\<rparr>"

definition eventListeners_modifier :: modifier where
  "eventListeners_modifier = mk_modifier ''eventListeners'' ''write'' 0 [] []"

definition popperOffsets_modifier :: modifier where
  "popperOffsets_modifier = mk_modifier ''popperOffsets'' ''read'' 1 [] []"

definition computeStyles_modifier :: modifier where
  "computeStyles_modifier = mk_modifier ''computeStyles'' ''beforeWrite'' 2 [] []"

definition applyStyles_modifier :: modifier where
  "applyStyles_modifier = mk_modifier ''applyStyles'' ''write'' 3 [''computeStyles''] []"

definition offset_modifier :: modifier where
  "offset_modifier = mk_modifier ''offset'' ''main'' 4 [''popperOffsets''] []"

definition flip_modifier :: modifier where
  "flip_modifier = mk_modifier ''flip'' ''main'' 5 [] [''offset'']"

definition preventOverflow_modifier :: modifier where
  "preventOverflow_modifier = mk_modifier ''preventOverflow'' ''main'' 6 [] [''offset'']"

definition arrow_modifier :: modifier where
  "arrow_modifier = mk_modifier ''arrow'' ''main'' 7 [''popperOffsets''] [''preventOverflow'']"

definition hide_modifier :: modifier where
  "hide_modifier = mk_modifier ''hide'' ''main'' 8 [] [''preventOverflow'']"

definition defaultModifiers :: "modifier list" where
  "defaultModifiers =
     [eventListeners_modifier, popperOffsets_modifier, computeStyles_modifier,
      applyStyles_modifier, offset_modifier, flip_modifier,
      preventOverflow_modifier, arrow_modifier, hide_modifier]"

section \<open>The update cycle\<close>

text \<open>The options of the default modifiers, in the types their functions take, and the text of style values.\<close>

record popper_options =
  po_flip :: flip_options
  po_prevent :: prevent_options
  po_offset :: offset_option
  po_arrowPadding :: padding
  po_arrowElement :: "(elem + selector) option"
  po_styles :: style_options
  po_scroll :: bool
  po_resize :: bool
  po_show :: "style_val \<Rightarrow> string"

text \<open>
  The function of a modifier, on the state and the page.  \<open>applyStyles\<close> writes to the page; the
  function of \<open>eventListeners\<close> does nothing.
\<close>

definition run_modifier :: "env \<Rightarrow> popper_options \<Rightarrow> string \<Rightarrow> pstate \<times> page \<Rightarrow> pstate \<times> page" where
  "run_modifier v o1 name sp =
     (let (st, p) = sp
      in if name = ''popperOffsets'' then (popperOffsets st, p)
         else if name = ''computeStyles'' then (computeStyles v (po_styles o1) st, p)
         else if name = ''applyStyles'' then (st, applyStyles (po_show o1) v st p)
         else if name = ''offset'' then (offset (po_offset o1) st, p)
         else if name = ''flip'' then (flip v (po_flip o1) st, p)
         else if name = ''preventOverflow'' then (preventOverflow v (po_prevent o1) st, p)
         else if name = ''arrow'' then (arrow v (po_arrowPadding o1) st, p)
         else if name = ''hide'' then (hide v st, p)
         else (st, p))"

text \<open>
  \<open>modifiersData[name] = Object.assign({}, data)\<close> for the modifiers in the list.  The empty objects of
  \<open>popperOffsets\<close>, \<open>offset\<close>, \<open>preventOverflow\<close> and \<open>hide\<close> are written before they are read; the one
  of \<open>arrow\<close> is an arrow without offsets.
\<close>

definition fresh_data :: "string list \<Rightarrow> pstate \<Rightarrow> pstate" where
  "fresh_data names st =
     st\<lparr>md_flip_skip := (if ''flip'' \<in> set names then False else md_flip_skip st),
        md_popperOffsets := (if ''popperOffsets'' \<in> set names then None else md_popperOffsets st),
        md_offset := (if ''offset'' \<in> set names then None else md_offset st),
        md_preventOverflow := (if ''preventOverflow'' \<in> set names then None else md_preventOverflow st),
        md_hide := (if ''hide'' \<in> set names then None else md_hide st),
        md_centerOffset := (if ''arrow'' \<in> set names then None else md_centerOffset st),
        md_arrow := (if ''arrow'' \<in> set names then Some (None, None) else md_arrow st)\<rparr>"

text \<open>
  The loop of \<open>forceUpdate\<close>, by the modifiers still to run.  A reset starts again with the whole
  list.  Out of fuel is \<open>None\<close>.
\<close>

fun update_loop :: "env \<Rightarrow> popper_options \<Rightarrow> string list \<Rightarrow> nat \<Rightarrow> string list \<Rightarrow> pstate \<times> page \<Rightarrow> (pstate \<times> page) option" where
  "update_loop v o1 names 0 todo sp = None"
| "update_loop v o1 names (Suc n) [] sp = Some sp"
| "update_loop v o1 names (Suc n) (m # todo) sp =
     (if st_reset (fst sp) then update_loop v o1 names n names ((fst sp)\<lparr>st_reset := False\<rparr>, snd sp)
      else update_loop v o1 names n todo (run_modifier v o1 m sp))"

definition update_start :: "env \<Rightarrow> string list \<Rightarrow> pstate \<Rightarrow> pstate" where
  "update_start v names st =
     (let op = getOffsetParent v (el_popper st)
      in fresh_data names
           (st\<lparr>r_reference := getCompositeRect v (el_reference st) op (opt_fixed st), r_popper := getLayoutRect v (el_popper st),
               st_reset := False, st_placement := opt_placement st\<rparr>))"

section \<open>Debounced updates\<close>

record debouncer =
  deb_pending :: bool
  deb_runs :: nat

definition debounce_call :: "debouncer \<Rightarrow> debouncer" where
  "debounce_call d = (if \<not> deb_pending d then d\<lparr>deb_pending := True\<rparr> else d)"

text \<open>The microtask a pending call has queued.\<close>

definition debounce_tick :: "debouncer \<Rightarrow> debouncer" where
  "debounce_tick d = (if deb_pending d then \<lparr>deb_pending = False, deb_runs = Suc (deb_runs d)\<rparr> else d)"

section \<open>Instances\<close>

text \<open>
  \<open>listening\<close> is what the page has of the instance's listeners.  A cleanup function is what the
  effect of a modifier returned: \<open>eventListeners\<close> removes what it added, \<open>applyStyles\<close> unsets styles
  and attributes, \<open>arrow\<close> returns nothing.
\<close>

datatype listen = OnScroll scroller | OnResize

datatype cleanup = StopListening "listen list" | UnsetStyles | Noop

record popper_opts =
  on_placement :: "placement option"
  on_fixed :: "bool option"
  on_modifiers :: "modifier list option"

datatype options_action = Options popper_opts | OptionsFn "popper_opts \<Rightarrow> popper_opts"

record popper_instance =
  pi_state :: pstate
  pi_page :: page
  pi_reference :: "elem option"
  pi_popper :: "elem option"
  pi_optModifiers :: "modifier list"
  pi_modifiers :: "modifier list"
  pi_effects :: "cleanup list"
  pi_listening :: "listen list"
  pi_destroyed :: bool
  pi_debounce :: debouncer

text \<open>An absent element is not valid; an element has \<open>getBoundingClientRect\<close>.\<close>

definition areValidElements :: "elem option list \<Rightarrow> bool" where
  "areValidElements es = list_all (\<lambda>e. e \<noteq> None) es"

definition forceUpdate :: "nat \<Rightarrow> env \<Rightarrow> popper_options \<Rightarrow> popper_instance \<Rightarrow> popper_instance option" where
  "forceUpdate fuel v o1 i =
     (if pi_destroyed i then Some i
      else if \<not> areValidElements [pi_reference i, pi_popper i] then Some i
      else (let names = map m_name (pi_modifiers i)
            in (case update_loop v o1 names fuel names (update_start v names (pi_state i), pi_page i) of
                  None \<Rightarrow> None
                | Some (st, p) \<Rightarrow> Some (i\<lparr>pi_state := st, pi_page := p\<rparr>))))"

definition run_cleanup :: "env \<Rightarrow> popper_instance \<Rightarrow> cleanup \<Rightarrow> popper_instance" where
  "run_cleanup v i c =
     (case c of
        StopListening ls \<Rightarrow> i\<lparr>pi_listening := filter (\<lambda>l. l \<notin> set ls) (pi_listening i)\<rparr>
      | UnsetStyles \<Rightarrow> i\<lparr>pi_page := applyStyles_cleanup v (pi_state i) (pi_page i)\<rparr>
      | Noop \<Rightarrow> i)"

definition cleanupModifierEffects :: "env \<Rightarrow> popper_instance \<Rightarrow> popper_instance" where
  "cleanupModifierEffects v i = (foldl (run_cleanup v) i (pi_effects i))\<lparr>pi_effects := []\<rparr>"

text \<open>Adding a listener that is there already changes nothing.\<close>

definition add_listeners :: "listen list \<Rightarrow> listen list \<Rightarrow> listen list" where
  "add_listeners new ls = foldl (\<lambda>acc l. if l \<in> set acc then acc else acc @ [l]) ls new"

definition events_effect :: "env \<Rightarrow> popper_options \<Rightarrow> pstate \<Rightarrow> listen list" where
  "events_effect v o1 st =
     (if po_scroll o1 then map OnScroll (listScrollParents v (el_reference st) @ listScrollParents v (el_popper st)) else [])
     @ (if po_resize o1 then [OnResize] else [])"

definition run_effect :: "env \<Rightarrow> popper_options \<Rightarrow> popper_instance \<Rightarrow> modifier \<Rightarrow> popper_instance" where
  "run_effect v o1 i m =
     (if m_name m = ''eventListeners''
      then (let ls = events_effect v o1 (pi_state i)
            in i\<lparr>pi_listening := add_listeners ls (pi_listening i), pi_effects := pi_effects i @ [StopListening ls]\<rparr>)
      else if m_name m = ''applyStyles''
      then (let (st, p) = applyStyles_effect (po_show o1) (pi_state i) (pi_page i)
            in i\<lparr>pi_state := st, pi_page := p, pi_effects := pi_effects i @ [UnsetStyles]\<rparr>)
      else if m_name m = ''arrow''
      then i\<lparr>pi_state := arrow_effect v (po_arrowElement o1) (pi_state i), pi_effects := pi_effects i @ [Noop]\<rparr>
      else i)"

definition runModifierEffects :: "env \<Rightarrow> popper_options \<Rightarrow> popper_instance \<Rightarrow> popper_instance" where
  "runModifierEffects v o1 i = foldl (run_effect v o1) i (pi_modifiers i)"

text \<open>\<open>state.options\<close> as an options object, and \<open>Object.assign\<close> of new options over it.\<close>

definition current_opts :: "popper_instance \<Rightarrow> popper_opts" where
  "current_opts i = \<lparr>on_placement = Some (opt_placement (pi_state i)), on_fixed = Some (opt_fixed (pi_state i)),
     on_modifiers = Some (pi_optModifiers i)\<rparr>"

definition assign_opts :: "popper_opts \<Rightarrow> popper_instance \<Rightarrow> popper_instance" where
  "assign_opts opts i =
     i\<lparr>pi_state := (pi_state i)\<lparr>opt_placement := (case on_placement opts of None \<Rightarrow> opt_placement (pi_state i) | Some pl \<Rightarrow> pl),
                                  opt_fixed := (case on_fixed opts of None \<Rightarrow> opt_fixed (pi_state i) | Some b \<Rightarrow> b)\<rparr>,
        pi_optModifiers := (case on_modifiers opts of None \<Rightarrow> pi_optModifiers i | Some ms \<Rightarrow> ms)\<rparr>"

definition setOptions :: "env \<Rightarrow> popper_options \<Rightarrow> options_action \<Rightarrow> popper_instance \<Rightarrow> popper_instance" where
  "setOptions v o1 action i =
     (let opts = (case action of Options r \<Rightarrow> r | OptionsFn f \<Rightarrow> f (current_opts i));
          i1 = assign_opts opts (cleanupModifierEffects v i);
          ordered = orderModifiers (mergeByName (defaultModifiers @ pi_optModifiers i1));
          i2 = runModifierEffects v o1 (i1\<lparr>pi_modifiers := filter (\<lambda>m. m_enabled m = Some True) ordered\<rparr>)
      in i2\<lparr>pi_debounce := debounce_call (pi_debounce i2)\<rparr>)"

definition destroy :: "env \<Rightarrow> popper_instance \<Rightarrow> popper_instance" where
  "destroy v i = (cleanupModifierEffects v i)\<lparr>pi_destroyed := True\<rparr>"

text \<open>The options default to placement \<open>bottom\<close>, strategy \<open>absolute\<close> and no modifiers.\<close>

definition new_instance :: "elem option \<Rightarrow> elem option \<Rightarrow> pstate \<Rightarrow> page \<Rightarrow> popper_instance" where
  "new_instance reference pop st p =
     \<lparr>pi_state = st\<lparr>st_placement := Placement Bottom None, opt_placement := Placement Bottom None, opt_fixed := False,
                    el_reference := (case reference of Some e \<Rightarrow> e | None \<Rightarrow> el_reference st),
                    el_popper := (case pop of Some e \<Rightarrow> e | None \<Rightarrow> el_popper st), el_arrow := None,
                    styles_popper := [], styles_arrow := [], attributes_popper := []\<rparr>,
      pi_page = p, pi_reference = reference, pi_popper = pop, pi_optModifiers = [], pi_modifiers = [], pi_effects = [], pi_listening = [],
      pi_destroyed = False, pi_debounce = \<lparr>deb_pending = False, deb_runs = 0\<rparr>\<rparr>"

definition createPopper :: "env \<Rightarrow> popper_options \<Rightarrow> elem option \<Rightarrow> elem option \<Rightarrow> popper_opts \<Rightarrow> pstate \<Rightarrow> page \<Rightarrow> popper_instance" where
  "createPopper v o1 reference pop opts st p =
     (let i = new_instance reference pop st p
      in if \<not> areValidElements [reference, pop] then i else setOptions v o1 (Options opts) i)"

text \<open>The debounced \<open>update\<close>: the queued microtask runs \<open>forceUpdate\<close>.\<close>

definition update_tick :: "nat \<Rightarrow> env \<Rightarrow> popper_options \<Rightarrow> popper_instance \<Rightarrow> popper_instance option" where
  "update_tick fuel v o1 i =
     (if deb_pending (pi_debounce i) then forceUpdate fuel v o1 (i\<lparr>pi_debounce := debounce_tick (pi_debounce i)\<rparr>) else Some i)"

section \<open>Merging and ordering\<close>

abbreviation names_of :: "modifier list \<Rightarrow> string list" where
  "names_of ms \<equiv> map m_name ms"

definition keyed :: "(string \<times> modifier) list \<Rightarrow> bool" where
  "keyed acc \<longleftrightarrow> distinct (map fst acc) \<and> (\<forall>(k, m)\<in>set acc. k = m_name m)"

lemma set_update: "set (AList.update k w al) \<subseteq> insert (k, w) (set al)"
  by (induction al) auto

lemma keyed_merge_into: "keyed acc \<Longrightarrow> keyed (merge_into acc m)"
  unfolding keyed_def merge_into_def
  using set_update [of "m_name m" _ acc] by (fastforce simp: distinct_update merge_modifier_def split: option.splits)

lemma fold_merge_names:
  assumes "keyed acc"
  shows "keyed (foldl merge_into acc ms) \<and> fst ` set (foldl merge_into acc ms) = fst ` set acc \<union> m_name ` set ms"
  using assms
proof (induction ms arbitrary: acc)
  case (Cons m ms)
  have "fst ` set (merge_into acc m) = insert (m_name m) (fst ` set acc)"
    unfolding merge_into_def by (simp add: dom_update)
  with Cons.IH [OF keyed_merge_into [OF Cons.prems]] show ?case by auto
qed simp

lemma keyed_names: "keyed acc \<Longrightarrow> names_of (map snd acc) = map fst acc"
  by (auto simp: keyed_def)

lemma mergeByName_names: "distinct (names_of (mergeByName ms)) \<and> m_name ` set (mergeByName ms) = m_name ` set ms"
proof -
  let ?m = "foldl merge_into [] ms"
  have f: "keyed ?m" "fst ` set ?m = m_name ` set ms"
    using fold_merge_names [of "[]" ms] by (simp_all add: keyed_def)
  from keyed_names [OF f(1)] have n: "names_of (mergeByName ms) = map fst ?m" by (simp add: mergeByName_def)
  have "m_name ` set (mergeByName ms) = set (names_of (mergeByName ms))" by simp
  also have "\<dots> = m_name ` set ms" by (simp only: n f(2) list.set_map)
  finally show ?thesis using f(1) by (simp only: n keyed_def)
qed

lemma by_name_Some:
  assumes "by_name ms n = Some d"
  shows "d \<in> set ms \<and> m_name d = n"
proof -
  from assms have "\<exists>i<length (rev ms). m_name (rev ms ! i) = n \<and> d = rev ms ! i"
    by (auto simp: by_name_def find_Some_iff)
  then show ?thesis using nth_mem [of _ "rev ms"] by auto
qed

lemma by_name_None: "by_name ms n = None \<longleftrightarrow> n \<notin> m_name ` set ms"
  by (auto simp: by_name_def find_None_iff)

definition ranked :: "modifier list \<Rightarrow> (string \<Rightarrow> nat) \<Rightarrow> bool" where
  "ranked ms rank = (\<forall>m\<in>set ms. \<forall>dep\<in>set (all_requires m). dep \<in> m_name ` set ms \<longrightarrow> rank dep < rank (m_name m))"

primrec deps_first :: "modifier list \<Rightarrow> string list \<Rightarrow> modifier list \<Rightarrow> bool" where
  "deps_first ms earlier [] = True"
| "deps_first ms earlier (m # rest) =
     ((\<forall>dep\<in>set (all_requires m). dep \<in> m_name ` set ms \<longrightarrow> dep \<in> set earlier) \<and> deps_first ms (m_name m # earlier) rest)"

lemma deps_first_append:
  "deps_first ms ea (xs @ ys) = (deps_first ms ea xs \<and> deps_first ms (rev (names_of xs) @ ea) ys)"
  by (induction xs arbitrary: ea) auto

text \<open>
  The invariant of the visit: \<open>stack\<close> holds the names whose visit has begun and not ended.  Visited
  are those and the names of the result.
\<close>

definition visit_inv :: "modifier list \<Rightarrow> (string \<Rightarrow> nat) \<Rightarrow> string list \<Rightarrow> string list \<times> modifier list \<Rightarrow> bool" where
  "visit_inv ms rank stack vr \<longleftrightarrow>
     set (fst vr) = set stack \<union> m_name ` set (snd vr) \<and> distinct (stack @ names_of (snd vr))
     \<and> set (snd vr) \<subseteq> set ms \<and> set stack \<subseteq> m_name ` set ms \<and> (ranked ms rank \<longrightarrow> deps_first ms [] (snd vr))"

lemma visit_inv_room:
  assumes "visit_inv ms rank stack vr" "m \<in> set ms" "m_name m \<notin> set (fst vr)"
  shows "length stack < length ms"
proof -
  have "set (m_name m # stack @ names_of (snd vr)) \<subseteq> m_name ` set ms" "distinct (m_name m # stack @ names_of (snd vr))"
    using assms by (auto simp: visit_inv_def)
  then have "length (m_name m # stack @ names_of (snd vr)) \<le> card (m_name ` set ms)"
    by (metis card_mono distinct_card finite_imageI finite_set)
  also have "\<dots> \<le> length ms" by (metis card_image_le card_length finite_set le_trans)
  finally show ?thesis by simp
qed

definition visit_dep :: "nat \<Rightarrow> modifier list \<Rightarrow> string list \<times> modifier list \<Rightarrow> string \<Rightarrow> string list \<times> modifier list" where
  "visit_dep n ms vr dep =
     (if dep \<in> set (fst vr) then vr else (case by_name ms dep of None \<Rightarrow> vr | Some d \<Rightarrow> visit n ms d vr))"

lemma visit_Suc:
  "visit (Suc n) ms m vr =
     (let (vis, res) = foldl (visit_dep n ms) (m_name m # fst vr, snd vr) (all_requires m) in (vis, res @ [m]))"
  by (simp add: visit_dep_def [abs_def])

lemma visit_deps_inv:
  assumes step: "\<And>d vr. visit_inv ms rank stack vr \<Longrightarrow> d \<in> set ms \<Longrightarrow> m_name d \<notin> set (fst vr)
      \<Longrightarrow> (ranked ms rank \<longrightarrow> (\<forall>s\<in>set stack. rank (m_name d) < rank s))
      \<Longrightarrow> visit_inv ms rank stack (visit n ms d vr) \<and> set (fst vr) \<subseteq> set (fst (visit n ms d vr)) \<and> m_name d \<in> set (fst (visit n ms d vr))"
    and inv: "visit_inv ms rank stack vr"
    and below: "ranked ms rank \<longrightarrow> (\<forall>dep\<in>set deps. dep \<in> m_name ` set ms \<longrightarrow> (\<forall>s\<in>set stack. rank dep < rank s))"
  shows "visit_inv ms rank stack (foldl (visit_dep n ms) vr deps)
    \<and> set (fst vr) \<subseteq> set (fst (foldl (visit_dep n ms) vr deps))
    \<and> set deps \<inter> m_name ` set ms \<subseteq> set (fst (foldl (visit_dep n ms) vr deps))"
  using inv below
proof (induction deps arbitrary: vr)
  case (Cons dep deps)
  let ?vr = "visit_dep n ms vr dep"
  have one: "visit_inv ms rank stack ?vr \<and> set (fst vr) \<subseteq> set (fst ?vr) \<and> (dep \<in> m_name ` set ms \<longrightarrow> dep \<in> set (fst ?vr))"
  proof (cases "dep \<in> set (fst vr)")
    case True then show ?thesis using Cons.prems(1) by (simp add: visit_dep_def)
  next
    case False
    show ?thesis
    proof (cases "by_name ms dep")
      case None
      moreover from None have "dep \<notin> m_name ` set ms" unfolding by_name_None .
      ultimately show ?thesis using Cons.prems(1) by (simp add: visit_dep_def)
    next
      case (Some d)
      note d = by_name_Some [OF Some]
      have "ranked ms rank \<longrightarrow> (\<forall>s\<in>set stack. rank (m_name d) < rank s)" using Cons.prems(2) d by auto
      from step [OF Cons.prems(1) conjunct1 [OF d] _ this] False Some d show ?thesis by (simp add: visit_dep_def)
    qed
  qed
  from one Cons.prems(2) have "visit_inv ms rank stack ?vr"
    "ranked ms rank \<longrightarrow> (\<forall>dep\<in>set deps. dep \<in> m_name ` set ms \<longrightarrow> (\<forall>s\<in>set stack. rank dep < rank s))" by simp_all
  from Cons.IH [OF this] one show ?case by auto
qed simp

lemma visit_invariant:
  assumes "visit_inv ms rank stack vr" "m \<in> set ms" "m_name m \<notin> set (fst vr)" "length ms \<le> n + length stack"
    and "ranked ms rank \<longrightarrow> (\<forall>s\<in>set stack. rank (m_name m) < rank s)"
  shows "visit_inv ms rank stack (visit n ms m vr) \<and> set (fst vr) \<subseteq> set (fst (visit n ms m vr)) \<and> m_name m \<in> set (fst (visit n ms m vr))"
  using assms
proof (induction n arbitrary: stack vr m)
  case 0
  with visit_inv_room [OF 0(1-3)] show ?case by simp
next
  case (Suc n)
  let ?st = "m_name m # stack" and ?vr = "(m_name m # fst vr, snd vr)"
  obtain vis res where f: "foldl (visit_dep n ms) ?vr (all_requires m) = (vis, res)" by fastforce
  have inv: "visit_inv ms rank ?st ?vr" using Suc.prems(1-3) by (auto simp: visit_inv_def)
  have below: "ranked ms rank \<longrightarrow>
      (\<forall>dep\<in>set (all_requires m). dep \<in> m_name ` set ms \<longrightarrow> (\<forall>s\<in>set ?st. rank dep < rank s))"
    using Suc.prems(2,5) by (auto simp: ranked_def dest: less_trans)
  have step: "visit_inv ms rank ?st (visit n ms d vr') \<and> set (fst vr') \<subseteq> set (fst (visit n ms d vr'))
        \<and> m_name d \<in> set (fst (visit n ms d vr'))"
    if "visit_inv ms rank ?st vr'" "d \<in> set ms" "m_name d \<notin> set (fst vr')"
       "ranked ms rank \<longrightarrow> (\<forall>s\<in>set ?st. rank (m_name d) < rank s)" for d vr'
    using Suc.IH [OF that(1-3) _ that(4)] Suc.prems(4) by simp
  note all = visit_deps_inv [OF step inv below, unfolded f fst_conv snd_conv]
  have r: "visit_inv ms rank ?st (vis, res)" "insert (m_name m) (set (fst vr)) \<subseteq> set vis"
    "set (all_requires m) \<inter> m_name ` set ms \<subseteq> set vis" using all by (simp_all only: list.set simp_thms)
  have "deps_first ms [] (res @ [m])" if "ranked ms rank"
  proof -
    have "dep \<in> m_name ` set res" if dep: "dep \<in> set (all_requires m)" "dep \<in> m_name ` set ms" for dep
    proof -
      from dep below \<open>ranked ms rank\<close> have "dep \<notin> set ?st" by blast
      moreover from dep r(3) have "dep \<in> set vis" by blast
      ultimately show ?thesis using r(1) by (simp add: visit_inv_def)
    qed
    moreover have "deps_first ms [] res" using r(1) that by (simp add: visit_inv_def)
    ultimately show ?thesis by (simp add: deps_first_append)
  qed
  moreover have "visit (Suc n) ms m vr = (vis, res @ [m])" by (simp only: visit_Suc f Let_def case_prod_conv)
  ultimately show ?case using r(1,2) Suc.prems(2) by (simp add: visit_inv_def)
qed

lemma order_fold_inv:
  assumes "visit_inv ms rank [] vr" "set xs \<subseteq> set ms"
  shows "visit_inv ms rank [] (foldl (order_step ms) vr xs) \<and> set (fst vr) \<subseteq> set (fst (foldl (order_step ms) vr xs))
    \<and> m_name ` set xs \<subseteq> set (fst (foldl (order_step ms) vr xs))"
  using assms
proof (induction xs arbitrary: vr)
  case (Cons m xs)
  have one: "visit_inv ms rank [] (order_step ms vr m) \<and> set (fst vr) \<subseteq> set (fst (order_step ms vr m))
      \<and> m_name m \<in> set (fst (order_step ms vr m))"
    using visit_invariant [OF Cons.prems(1), of m "length ms"] Cons.prems by (simp add: order_step_def)
  with Cons.IH [of "order_step ms vr m"] Cons.prems(2) show ?case by auto
qed simp

lemma order_correct:
  assumes "distinct (names_of ms)"
  shows "mset (order ms) = mset ms \<and> (ranked ms rank \<longrightarrow> deps_first ms [] (order ms))"
proof -
  have "visit_inv ms rank [] ([], [])" by (simp add: visit_inv_def)
  from order_fold_inv [OF this subset_refl]
  have r: "distinct (names_of (order ms))" "set (order ms) \<subseteq> set ms" "m_name ` set ms \<subseteq> m_name ` set (order ms)"
    "ranked ms rank \<longrightarrow> deps_first ms [] (order ms)" by (auto simp: visit_inv_def order_def)
  have "set ms \<subseteq> set (order ms)"
  proof
    fix m assume m: "m \<in> set ms"
    then have "m_name m \<in> m_name ` set (order ms)" using r(3) by blast
    then obtain m' where m': "m' \<in> set (order ms)" "m_name m' = m_name m" by (metis imageE)
    have "inj_on m_name (set ms)" using assms by (simp add: distinct_map)
    from inj_onD [OF this m'(2)] m'(1) r(2) m have "m' = m" by blast
    with m'(1) show "m \<in> set (order ms)" by simp
  qed
  with r(2) have "set (order ms) = set ms" by blast
  moreover have "distinct (order ms)" "distinct ms" using r(1) assms by (auto simp: distinct_map)
  ultimately show ?thesis using r(4) by (simp add: set_eq_iff_mset_eq_distinct)
qed


definition default_rank :: "string \<Rightarrow> nat" where
  "default_rank n =
     (if n = ''popperOffsets'' \<or> n = ''computeStyles'' then 0 else if n = ''offset'' \<or> n = ''applyStyles'' then 1
      else if n = ''flip'' \<or> n = ''preventOverflow'' then 2 else 3)"


section \<open>The update cycle settles\<close>

abbreviation run_all :: "env \<Rightarrow> popper_options \<Rightarrow> string list \<Rightarrow> pstate \<times> page \<Rightarrow> pstate \<times> page" where
  "run_all v o1 names sp \<equiv> foldl (\<lambda>acc m. run_modifier v o1 m acc) sp names"

lemma modifier_frames:
  "st_reset (popperOffsets st) = st_reset st" "st_reset (computeStyles v so st) = st_reset st" "st_reset (offset off st) = st_reset st"
  "st_reset (preventOverflow v po st) = st_reset st" "st_reset (arrow v pad st) = st_reset st" "st_reset (hide v st) = st_reset st"
  "st_placement (popperOffsets st) = st_placement st" "st_placement (computeStyles v so st) = st_placement st"
  "st_placement (offset off st) = st_placement st" "st_placement (preventOverflow v po st) = st_placement st"
  "st_placement (arrow v pad st) = st_placement st" "st_placement (hide v st) = st_placement st"
  "md_flip_skip (popperOffsets st) = md_flip_skip st" "md_flip_skip (computeStyles v so st) = md_flip_skip st"
  "md_flip_skip (offset off st) = md_flip_skip st" "md_flip_skip (preventOverflow v po st) = md_flip_skip st"
  "md_flip_skip (arrow v pad st) = md_flip_skip st" "md_flip_skip (hide v st) = md_flip_skip st"
  by (simp_all add: popperOffsets_def computeStyles_def offset_def preventOverflow_def arrow_def hide_def Let_def
      split: option.splits prod.splits)

text \<open>What one modifier may do to the cycle: keep placement and flags, or, as \<open>flip\<close>, change the placement once.\<close>

lemma run_modifier_cases:
  obtains (keep) "st_reset (fst (run_modifier v o1 m sp)) = st_reset (fst sp)"
      "st_placement (fst (run_modifier v o1 m sp)) = st_placement (fst sp)"
      "md_flip_skip (fst (run_modifier v o1 m sp)) = md_flip_skip (fst sp)"
  | (flips) "m = ''flip''" "\<not> md_flip_skip (fst sp)" "st_reset (fst (run_modifier v o1 m sp))" "md_flip_skip (fst (run_modifier v o1 m sp))"
proof -
  obtain st p where sp: "sp = (st, p)" by fastforce
  show ?thesis
  proof (cases "m = ''flip'' \<and> flip v (po_flip o1) st \<noteq> st")
    case True
    then show ?thesis using that(2) sp by (simp add: run_modifier_def flip_def Let_def split: if_splits)
  next
    case False
    then show ?thesis using that(1) sp by (auto simp: run_modifier_def modifier_frames)
  qed
qed

lemma loop_after_flip:
  assumes "md_flip_skip (fst sp)" "\<not> st_reset (fst sp)" "length todo < fuel"
  shows "update_loop v o1 names fuel todo sp = Some (run_all v o1 todo sp)
    \<and> \<not> st_reset (fst (run_all v o1 todo sp)) \<and> st_placement (fst (run_all v o1 todo sp)) = st_placement (fst sp)"
  using assms
proof (induction todo arbitrary: fuel sp)
  case Nil then show ?case by (cases fuel) simp_all
next
  case (Cons m todo)
  then obtain n where n: "fuel = Suc n" "length todo < n" by (cases fuel) simp_all
  show ?case
  proof (cases rule: run_modifier_cases [of v o1 m sp])
    case keep
    with Cons.IH [of "run_modifier v o1 m sp" n] Cons.prems n show ?thesis by simp
  qed (use Cons.prems in simp)
qed

lemma loop_settles:
  assumes "\<not> st_reset (fst sp)" "length todo + length names < fuel" "todo \<noteq> [] \<longrightarrow> last todo \<noteq> ''flip''"
  shows "(update_loop v o1 names (Suc fuel) todo sp = Some (run_all v o1 todo sp) \<and> \<not> st_reset (fst (run_all v o1 todo sp))
      \<and> st_placement (fst (run_all v o1 todo sp)) = st_placement (fst sp))
    \<or> (\<exists>sp'. update_loop v o1 names (Suc fuel) todo sp = Some (run_all v o1 names sp') \<and> \<not> st_reset (fst (run_all v o1 names sp'))
      \<and> st_placement (fst (run_all v o1 names sp')) = st_placement (fst sp'))"
  using assms
proof (induction todo arbitrary: fuel sp)
  case (Cons m todo)
  then obtain n where n: "fuel = Suc n" by (cases fuel) simp_all
  let ?r = "run_modifier v o1 m sp"
  show ?case
  proof (cases rule: run_modifier_cases [of v o1 m sp])
    case keep
    have eq: "update_loop v o1 names (Suc fuel) (m # todo) sp = update_loop v o1 names (Suc n) todo ?r" "\<not> st_reset (fst ?r)"
      using Cons.prems(1) n keep(1) by simp_all
    have "length todo + length names < n" "todo \<noteq> [] \<longrightarrow> last todo \<noteq> ''flip''" using Cons.prems(2,3) n by auto
    from Cons.IH [OF eq(2) this] show ?thesis unfolding eq(1) foldl_Cons keep(2) .
  next
    case flips
    then obtain x xs where todo: "todo = x # xs" using Cons.prems(3) by (cases todo) auto
    let ?sp = "((fst ?r)\<lparr>st_reset := False\<rparr>, snd ?r)"
    obtain k where k: "n = Suc k" using n todo Cons.prems(2) by (cases n) simp_all
    have eq: "update_loop v o1 names (Suc fuel) (m # todo) sp = update_loop v o1 names n names ?sp"
      using Cons.prems(1) flips(3) n todo by simp
    have "md_flip_skip (fst ?sp)" "\<not> st_reset (fst ?sp)" "length names < n" using flips(4) Cons.prems(2) n todo by simp_all
    from loop_after_flip [OF this, of v o1 names] show ?thesis unfolding eq by (intro disjI2 exI [of _ ?sp])
  qed
qed simp

text \<open>
  C9: An update cycle ends, and its result is consistent.  With fuel for two passes the loop
  returns; what it returns is a complete pass of all modifiers in order, started at the placement
  the cycle ends with, and no reset is left over.  So after \<open>flip\<close> has changed the placement, every
  modifier has run again for the new one.
\<close>

theorem update_cycle_settles:
  fixes i :: popper_instance
  defines "names \<equiv> map m_name (pi_modifiers i)"
  assumes "\<not> pi_destroyed i" "areValidElements [pi_reference i, pi_popper i]"
    and "names \<noteq> []" "last names \<noteq> ''flip''" "2 * length names + 2 \<le> fuel"
  shows "\<exists>sp. forceUpdate fuel v o1 i
      = Some (i\<lparr>pi_state := fst (run_all v o1 names sp), pi_page := snd (run_all v o1 names sp)\<rparr>)
    \<and> st_placement (fst sp) = st_placement (fst (run_all v o1 names sp)) \<and> \<not> st_reset (fst (run_all v o1 names sp))"
proof -
  let ?sp = "(update_start v names (pi_state i), pi_page i)"
  obtain n where n: "fuel = Suc n" "length names + length names < n" using assms(6) by (cases fuel) simp_all
  have "\<not> st_reset (fst ?sp)" by (simp add: update_start_def fresh_data_def Let_def)
  from loop_settles [OF this n(2), of v o1] assms(5) obtain sp where
    sp: "update_loop v o1 names fuel names ?sp = Some (run_all v o1 names sp)" "\<not> st_reset (fst (run_all v o1 names sp))"
      "st_placement (fst (run_all v o1 names sp)) = st_placement (fst sp)" unfolding n(1) by metis
  have "forceUpdate fuel v o1 i = Some (i\<lparr>pi_state := fst (run_all v o1 names sp), pi_page := snd (run_all v o1 names sp)\<rparr>)"
    using assms(2,3) sp(1) by (simp add: forceUpdate_def Let_def names_def split: prod.splits)
  with sp(2,3) show ?thesis by metis
qed

definition demo_options :: popper_options where
  "demo_options = \<lparr>po_flip = default_flip, po_prevent = plain_prevent, po_offset = (\<lambda>a b pl. (0, 2)), po_arrowPadding = PadNum 0,
     po_arrowElement = None, po_styles = \<lparr>y_gpu = True, y_adaptive = True, y_round = RoundByDPR\<rparr>, po_scroll = True, po_resize = True,
     po_show = (\<lambda>w. [])\<rparr>"

definition demo_popper :: popper_instance where
  "demo_popper = createPopper low_env demo_options (Some 5) (Some 4)
     \<lparr>on_placement = Some (Placement Bottom None), on_fixed = None, on_modifiers = None\<rparr> demo_state (e_page low_env)"

theorem update_cycle_settles_witness:
  "\<exists>sp. forceUpdate 20 low_env demo_options demo_popper
      = Some (demo_popper\<lparr>pi_state := fst (run_all low_env demo_options (names_of (pi_modifiers demo_popper)) sp),
                          pi_page := snd (run_all low_env demo_options (names_of (pi_modifiers demo_popper)) sp)\<rparr>)
    \<and> st_placement (fst sp) = st_placement (fst (run_all low_env demo_options (names_of (pi_modifiers demo_popper)) sp))
    \<and> \<not> st_reset (fst (run_all low_env demo_options (names_of (pi_modifiers demo_popper)) sp))"
proof -
  have names: "names_of (pi_modifiers demo_popper)
      = [''popperOffsets'', ''offset'', ''flip'', ''preventOverflow'', ''arrow'', ''hide'', ''computeStyles'', ''eventListeners'', ''applyStyles'']"
    by code_simp
  have "\<not> pi_destroyed demo_popper" "areValidElements [pi_reference demo_popper, pi_popper demo_popper]" by code_simp+
  from update_cycle_settles [OF this] show ?thesis by (simp add: names)
qed

section \<open>Life cycle\<close>

text \<open>However often \<open>update\<close> is called before the microtask, the update runs once.\<close>

lemma debounce_coalesces: "debounce_tick ((debounce_call ^^ Suc k) d) = \<lparr>deb_pending = False, deb_runs = Suc (deb_runs d)\<rparr>"
proof -
  have "deb_pending ((debounce_call ^^ Suc k) d) \<and> deb_runs ((debounce_call ^^ Suc k) d) = deb_runs d"
    by (induction k) (simp_all add: debounce_call_def)
  then show ?thesis by (simp add: debounce_tick_def)
qed

text \<open>The states of an instance that has not been destroyed.\<close>

inductive popper_live :: "popper_instance \<Rightarrow> bool" where
  created: "popper_live (createPopper v o1 reference pop opts st p)"
| options: "popper_live i \<Longrightarrow> popper_live (setOptions v o1 action i)"
| forced: "popper_live i \<Longrightarrow> forceUpdate fuel v o1 i = Some i' \<Longrightarrow> popper_live i'"
| called: "popper_live i \<Longrightarrow> popper_live (i\<lparr>pi_debounce := debounce_call (pi_debounce i)\<rparr>)"
| ticked: "popper_live i \<Longrightarrow> update_tick fuel v o1 i = Some i' \<Longrightarrow> popper_live i'"

primrec listeners_of :: "cleanup list \<Rightarrow> listen set" where
  "listeners_of [] = {}"
| "listeners_of (c # cs) = (case c of StopListening ls \<Rightarrow> set ls | _ \<Rightarrow> {}) \<union> listeners_of cs"

definition tracked :: "popper_instance \<Rightarrow> bool" where
  "tracked i \<longleftrightarrow> set (pi_listening i) = listeners_of (pi_effects i) \<and> \<not> pi_destroyed i"

lemma listeners_of_append [simp]: "listeners_of (a @ b) = listeners_of a \<union> listeners_of b"
  by (induction a) auto

lemma add_listeners_set [simp]: "set (add_listeners new ls) = set new \<union> set ls"
  unfolding add_listeners_def by (induction new arbitrary: ls) auto

lemma run_cleanup_frame [simp]:
  "set (pi_listening (foldl (run_cleanup v) i cs)) = set (pi_listening i) - listeners_of cs"
  "pi_destroyed (foldl (run_cleanup v) i cs) = pi_destroyed i" "pi_state (foldl (run_cleanup v) i cs) = pi_state i"
  by (induction cs arbitrary: i) (auto simp: run_cleanup_def split: cleanup.splits)

lemma cleanup_tracked:
  assumes "tracked i"
  shows "pi_listening (cleanupModifierEffects v i) = [] \<and> pi_effects (cleanupModifierEffects v i) = [] \<and> tracked (cleanupModifierEffects v i)
    \<and> pi_state (cleanupModifierEffects v i) = pi_state i"
proof -
  have "set (pi_listening (foldl (run_cleanup v) i (pi_effects i))) = {}" using assms by (simp add: tracked_def)
  then have "pi_listening (foldl (run_cleanup v) i (pi_effects i)) = []" by (simp only: set_empty)
  then show ?thesis using assms by (simp add: cleanupModifierEffects_def tracked_def)
qed

lemma effect_elements:
  "el_reference (pi_state (run_effect v o1 i m)) = el_reference (pi_state i)" "el_popper (pi_state (run_effect v o1 i m)) = el_popper (pi_state i)"
  by (auto simp: run_effect_def applyStyles_effect_def arrow_effect_def Let_def split: option.splits sum.splits)

lemma effects_tracked:
  assumes "tracked i"
  shows "tracked (foldl (run_effect v o1) i ms) \<and> set (pi_listening (foldl (run_effect v o1) i ms))
    = set (pi_listening i) \<union> (if ''eventListeners'' \<in> m_name ` set ms then set (events_effect v o1 (pi_state i)) else {})"
  using assms
proof (induction ms arbitrary: i)
  case (Cons m ms)
  have t: "tracked (run_effect v o1 i m)" using Cons.prems
    by (auto simp: tracked_def run_effect_def Let_def split: prod.splits)
  have e: "events_effect v o1 (pi_state (run_effect v o1 i m)) = events_effect v o1 (pi_state i)"
    by (simp add: events_effect_def effect_elements)
  have "set (pi_listening (run_effect v o1 i m))
      = set (pi_listening i) \<union> (if m_name m = ''eventListeners'' then set (events_effect v o1 (pi_state i)) else {})"
    by (auto simp: run_effect_def Let_def split: prod.splits)
  with Cons.IH [OF t] e show ?case by auto
qed simp

lemma setOptions_tracked:
  assumes "tracked i"
  shows "tracked (setOptions v o1 action i) \<and> set (pi_listening (setOptions v o1 action i))
    = (if ''eventListeners'' \<in> m_name ` set (pi_modifiers (setOptions v o1 action i)) then set (events_effect v o1 (pi_state i)) else {})"
proof -
  define opts where "opts = (case action of Options r \<Rightarrow> r | OptionsFn f \<Rightarrow> f (current_opts i))"
  define j where "j = assign_opts opts (cleanupModifierEffects v i)"
  define ms where "ms = filter (\<lambda>m. m_enabled m = Some True) (orderModifiers (mergeByName (defaultModifiers @ pi_optModifiers j)))"
  have j: "tracked j" "pi_listening j = []" "el_reference (pi_state j) = el_reference (pi_state i)" "el_popper (pi_state j) = el_popper (pi_state i)"
    using cleanup_tracked [OF assms, of v] by (simp_all add: j_def assign_opts_def tracked_def)
  then have t: "tracked (j\<lparr>pi_modifiers := ms\<rparr>)" by (simp add: tracked_def)
  have mods: "pi_modifiers (foldl (run_effect v o1) k ns) = pi_modifiers k" for k ns
    by (induction ns arbitrary: k) (auto simp: run_effect_def Let_def split: prod.splits)
  have e: "events_effect v o1 (pi_state j) = events_effect v o1 (pi_state i)" using j by (simp add: events_effect_def)
  define k where "k = foldl (run_effect v o1) (j\<lparr>pi_modifiers := ms\<rparr>) ms"
  have k: "tracked k" "pi_modifiers k = ms"
    "set (pi_listening k) = (if ''eventListeners'' \<in> m_name ` set ms then set (events_effect v o1 (pi_state i)) else {})"
    using effects_tracked [OF t, of v o1 ms] j(2) e by (simp_all add: k_def mods)
  have "setOptions v o1 action i = (foldl (run_effect v o1) (j\<lparr>pi_modifiers := ms\<rparr>) ms)\<lparr>pi_debounce :=
      debounce_call (pi_debounce (foldl (run_effect v o1) (j\<lparr>pi_modifiers := ms\<rparr>) ms))\<rparr>"
    by (simp add: setOptions_def runModifierEffects_def Let_def j_def ms_def opts_def)
  then have s: "setOptions v o1 action i = k\<lparr>pi_debounce := debounce_call (pi_debounce k)\<rparr>" by (simp add: k_def)
  have "tracked (setOptions v o1 action i)" "pi_modifiers (setOptions v o1 action i) = ms"
    "pi_listening (setOptions v o1 action i) = pi_listening k" using k(1,2) by (simp_all add: s tracked_def)
  with k(3) show ?thesis by presburger
qed

lemma forceUpdate_tracked: "forceUpdate fuel v o1 i = Some i' \<Longrightarrow> tracked i' = tracked i"
  by (auto simp: forceUpdate_def tracked_def Let_def split: if_splits option.splits prod.splits)

lemma live_tracked: "popper_live i \<Longrightarrow> tracked i"
proof (induction rule: popper_live.induct)
  case (created v o1 reference pop opts st p)
  have "tracked (new_instance reference pop st p)" by (simp add: tracked_def new_instance_def)
  then show ?case using setOptions_tracked by (simp add: createPopper_def Let_def)
next
  case (ticked i fuel v o1 i')
  have "tracked (i\<lparr>pi_debounce := d\<rparr>) = tracked i" for d by (simp add: tracked_def)
  with ticked show ?case by (auto simp: update_tick_def dest: forceUpdate_tracked split: if_splits)
qed (simp_all add: setOptions_tracked forceUpdate_tracked, simp add: tracked_def)

text \<open>
  C11: A popper instance keeps exact account of its listeners.  In every state it can reach, changing
  its options leaves it listening on exactly the scroll containers of its reference and popper (and
  the window's resize) when the \<open>eventListeners\<close> modifier is enabled, and on nothing otherwise;
  destroying it removes every listener, and later updates, pending ones included, change nothing.
\<close>

theorem popper_listeners_accounted:
  assumes "popper_live i"
  shows "set (pi_listening (setOptions v o1 action i))
      = (if ''eventListeners'' \<in> m_name ` set (pi_modifiers (setOptions v o1 action i)) then set (events_effect v o1 (pi_state i)) else {})
    \<and> pi_listening (destroy v i) = [] \<and> forceUpdate fuel v' o' (destroy v i) = Some (destroy v i)
    \<and> (\<exists>d. update_tick fuel v' o' (destroy v i) = Some ((destroy v i)\<lparr>pi_debounce := d\<rparr>))"
proof -
  note t = live_tracked [OF assms]
  have "update_tick fuel v' o' (destroy v i) = Some ((destroy v i)\<lparr>pi_debounce :=
      (if deb_pending (pi_debounce (destroy v i)) then debounce_tick (pi_debounce (destroy v i)) else pi_debounce (destroy v i))\<rparr>)"
    by (simp add: update_tick_def forceUpdate_def destroy_def)
  moreover have "pi_listening (destroy v i) = []" "forceUpdate fuel v' o' (destroy v i) = Some (destroy v i)"
    using cleanup_tracked [OF t, of v] by (simp_all add: destroy_def forceUpdate_def)
  ultimately show ?thesis using setOptions_tracked [OF t, of v o1 action] by blast
qed

theorem popper_listeners_accounted_witness:
  "pi_listening (destroy low_env demo_popper) = [] \<and> pi_listening demo_popper \<noteq> []"
proof -
  have "popper_live demo_popper" unfolding demo_popper_def by (rule popper_live.created)
  from popper_listeners_accounted [OF this] have "pi_listening (destroy low_env demo_popper) = []" by blast
  moreover have "pi_listening demo_popper \<noteq> []" by code_simp
  ultimately show ?thesis by blast
qed


section \<open>What the owner of a popper relies on\<close>

text \<open>
  A popper writes inline styles anywhere and attributes on the popper element; the tree, the
  tags, the classes, the focus and the attributes of all other elements are its owner's.
\<close>

definition same_outside :: "elem \<Rightarrow> page \<Rightarrow> page \<Rightarrow> bool" where
  "same_outside m p q \<longleftrightarrow> tree q = tree p \<and> focused q = focused p \<and> (\<forall>x c. has_class q x c = has_class p x c)
     \<and> (\<forall>x. tagName (nodes q x) = tagName (nodes p x)) \<and> (\<forall>x a. x \<noteq> m \<longrightarrow> getAttribute q x a = getAttribute p x a)"

lemma same_outside_refl [simp]: "same_outside m p p"
  by (simp add: same_outside_def)

lemma same_outside_trans: "same_outside m p q \<Longrightarrow> same_outside m q r \<Longrightarrow> same_outside m p r"
  by (simp add: same_outside_def)

text \<open>
  The contract: an instance is live from its creation to the first \<open>stop\<close>, dead from then on, and
  a dead one has no listeners and leaves the page alone.
\<close>

locale positioner =
  fixes create :: "'v \<Rightarrow> 'o \<Rightarrow> elem option \<Rightarrow> elem option \<Rightarrow> 'c \<Rightarrow> 's \<Rightarrow> page \<Rightarrow> 'i"
    and call :: "'i \<Rightarrow> 'i"
    and tick :: "nat \<Rightarrow> 'v \<Rightarrow> 'o \<Rightarrow> 'i \<Rightarrow> 'i option"
    and stop :: "'v \<Rightarrow> 'i \<Rightarrow> 'i"
    and at_page :: "page \<Rightarrow> 'i \<Rightarrow> 'i"
    and page_of :: "'i \<Rightarrow> page"
    and listens :: "'i \<Rightarrow> 'l list"
    and live :: "elem \<Rightarrow> 'i \<Rightarrow> bool"
    and dead :: "'i \<Rightarrow> bool"
  assumes create_live: "live m (create v o1 (Some r) (Some m) c st p)"
    and create_page: "same_outside m p (page_of (create v o1 (Some r) (Some m) c st p))"
    and call_live: "live m i \<Longrightarrow> live m (call i)" and call_dead: "dead i \<Longrightarrow> dead (call i)" and call_page: "page_of (call i) = page_of i"
    and tick_live: "live m i \<Longrightarrow> tick n v o1 i = Some i' \<Longrightarrow> live m i' \<and> same_outside m (page_of i) (page_of i')"
    and tick_dead: "dead i \<Longrightarrow> tick n v o1 i = Some i' \<Longrightarrow> dead i' \<and> page_of i' = page_of i"
    and stop_live: "live m i \<Longrightarrow> dead (stop v i) \<and> same_outside m (page_of i) (page_of (stop v i))"
    and stop_dead: "dead i \<Longrightarrow> dead (stop v i) \<and> page_of (stop v i) = page_of i"
    and at_live: "live m i \<Longrightarrow> live m (at_page p i)" and at_dead: "dead i \<Longrightarrow> dead (at_page p i)" and page_at: "page_of (at_page p i) = p"
    and dead_silent: "dead i \<Longrightarrow> listens i = []"
begin

text \<open>An owner's instance, in use or given up, on the owner's page: both \<open>stop\<close> and a late update are harmless.\<close>

lemma stop_owned:
  assumes "live m i \<or> dead i"
  shows "dead (stop v (at_page p i)) \<and> listens (stop v (at_page p i)) = [] \<and> same_outside m p (page_of (stop v (at_page p i)))"
  using assms stop_live [OF at_live, of m i v p] stop_dead [OF at_dead, of i v p] dead_silent by (auto simp: page_at)

lemma tick_owned:
  assumes "live m i \<or> dead i" "tick n v o1 (at_page p i) = Some i'"
  shows "(live m i \<longrightarrow> live m i') \<and> (dead i \<longrightarrow> dead i') \<and> same_outside m p (page_of i')"
  using assms tick_live [OF at_live, of m i n v o1 p i'] tick_dead [OF at_dead, of i n v o1 p i'] by (auto simp: page_at)

end

text \<open>The contract holds of Popper's instances.\<close>

definition at_page :: "page \<Rightarrow> popper_instance \<Rightarrow> popper_instance" where
  "at_page p i = i\<lparr>pi_page := p\<rparr>"

definition update_call :: "popper_instance \<Rightarrow> popper_instance" where
  "update_call i = i\<lparr>pi_debounce := debounce_call (pi_debounce i)\<rparr>"

definition live_on :: "elem \<Rightarrow> popper_instance \<Rightarrow> bool" where
  "live_on m i \<longleftrightarrow> tracked i \<and> el_popper (pi_state i) = m"

definition given_up :: "popper_instance \<Rightarrow> bool" where
  "given_up i \<longleftrightarrow> pi_destroyed i \<and> pi_effects i = [] \<and> pi_listening i = []"

lemma same_outside_setStyle [simp]: "same_outside m p (setStyle e k w q) = same_outside m p q"
  by (simp add: same_outside_def dom_simps)

lemma same_outside_attributes [simp]:
  "same_outside m p (setAttribute m k w q) = same_outside m p q" "same_outside m p (removeAttribute m k q) = same_outside m p q"
  by (auto simp: same_outside_def dom_simps)

lemma same_outside_styles:
  "same_outside m p q \<Longrightarrow> same_outside m p (apply_style sv e sty q)"
  "same_outside m p q \<Longrightarrow> same_outside m p (foldl (\<lambda>r (k, w). setStyle e k [] r) q sty)"
  "same_outside m p q \<Longrightarrow> same_outside m p (apply_attributes m ats q)"
  "same_outside m p q \<Longrightarrow> same_outside m p (foldl (\<lambda>r (name, value). removeAttribute m name r) q ats)"
  unfolding apply_style_def apply_attributes_def
  by (induction sty arbitrary: q, simp, fastforce) (induction ats arbitrary: q; fastforce split: attr_val.splits bool.splits)+

lemma apply_outside:
  "el_popper st = m \<Longrightarrow> same_outside m p q \<Longrightarrow> same_outside m p (applyStyles sv v st q)"
  "el_popper st = m \<Longrightarrow> same_outside m p q \<Longrightarrow> same_outside m p (snd (applyStyles_effect sv st q))"
  "el_popper st = m \<Longrightarrow> same_outside m p q \<Longrightarrow> same_outside m p (applyStyles_cleanup v st q)"
  by (auto simp: applyStyles_def applyStyles_effect_def applyStyles_cleanup_def Let_def same_outside_styles split: option.splits)


lemma modifier_popper [simp]:
  "el_popper (popperOffsets st) = el_popper st" "el_popper (computeStyles v so st) = el_popper st" "el_popper (offset off st) = el_popper st"
  "el_popper (preventOverflow v po st) = el_popper st" "el_popper (arrow v pad st) = el_popper st" "el_popper (hide v st) = el_popper st"
  by (simp_all add: popperOffsets_def computeStyles_def offset_def preventOverflow_def arrow_def hide_def Let_def
      split: option.splits prod.splits)

lemma flip_popper [simp]: "el_popper (flip v fo st) = el_popper st"
  unfolding flip_def Let_def by (cases "md_flip_skip st") simp_all

lemma run_modifier_outside:
  assumes "el_popper (fst sp) = m" "same_outside m p (snd sp)"
  shows "el_popper (fst (run_modifier v o1 name sp)) = m \<and> same_outside m p (snd (run_modifier v o1 name sp))"
proof -
  obtain st q where sp: "sp = (st, q)" by fastforce
  with assms have st: "el_popper st = m" and q: "same_outside m p q" by simp_all
  have a: "el_popper (fst (run_modifier v o1 name (st, q))) = el_popper st" by (simp add: run_modifier_def)
  have b: "snd (run_modifier v o1 name (st, q)) = (if name = ''applyStyles'' then applyStyles (po_show o1) v st q else q)"
    by (simp add: run_modifier_def)
  show ?thesis unfolding sp a b st using apply_outside(1) [OF st q] q by (rule_tac conjI [OF refl]) (split if_split, blast)
qed

lemma update_loop_outside:
  assumes "el_popper (fst sp) = m" "same_outside m p (snd sp)" "update_loop v o1 names n todo sp = Some sp'"
  shows "el_popper (fst sp') = m \<and> same_outside m p (snd sp')"
  using assms
proof (induction v o1 names n todo sp rule: update_loop.induct)
  case (3 v o1 names n name todo sp)
  show ?case
  proof (cases "st_reset (fst sp)")
    case True
    with 3 show ?thesis by simp
  next
    case False
    from run_modifier_outside [OF 3(3,4), of v o1 name] 3(2) [OF False] 3(5) False show ?thesis by simp
  qed
qed simp_all

lemma forceUpdate_outside:
  assumes "el_popper (pi_state i) = m" "forceUpdate n v o1 i = Some i'"
  shows "el_popper (pi_state i') = m \<and> same_outside m (pi_page i) (pi_page i')"
proof -
  define names where "names = names_of (pi_modifiers i)"
  define sp where "sp = (update_start v names (pi_state i), pi_page i)"
  show ?thesis
  proof (cases "pi_destroyed i \<or> \<not> areValidElements [pi_reference i, pi_popper i]")
    case True
    then have "i' = i" using assms(2) by (cases "pi_destroyed i") (simp_all add: forceUpdate_def)
    with assms(1) show ?thesis by simp
  next
    case False
    then have f: "(case update_loop v o1 names n names sp of None \<Rightarrow> None | Some (st, p) \<Rightarrow> Some (i\<lparr>pi_state := st, pi_page := p\<rparr>)) = Some i'"
      using assms(2) by (simp add: forceUpdate_def Let_def names_def sp_def)
    have "el_popper (fst sp) = m" using assms(1) by (simp add: sp_def update_start_def fresh_data_def Let_def)
    moreover have "same_outside m (pi_page i) (snd sp)" by (simp add: sp_def)
    ultimately show ?thesis using f update_loop_outside [of sp m "pi_page i" v o1 names n names]
      by (cases "update_loop v o1 names n names sp") auto
  qed
qed

lemma cleanups_outside:
  "el_popper (pi_state i) = m \<Longrightarrow> same_outside m p (pi_page i) \<Longrightarrow> same_outside m p (pi_page (foldl (run_cleanup v) i cs))"
  by (induction cs arbitrary: i) (auto simp: run_cleanup_def apply_outside split: cleanup.splits)

lemma effects_outside:
  "el_popper (pi_state i) = m \<Longrightarrow> same_outside m p (pi_page i)
   \<Longrightarrow> el_popper (pi_state (foldl (run_effect v o1) i ms)) = m \<and> same_outside m p (pi_page (foldl (run_effect v o1) i ms))"
proof (induction ms arbitrary: i)
  case (Cons x ms)
  have "same_outside m p (pi_page (run_effect v o1 i x))"
    using Cons.prems apply_outside(2) [OF Cons.prems, of "po_show o1"] by (auto simp: run_effect_def Let_def split: prod.splits)
  with Cons.IH [of "run_effect v o1 i x"] Cons.prems(1) show ?case by (simp add: effect_elements)
qed simp

lemma create_outside:
  "el_popper (pi_state (createPopper v o1 (Some r) (Some m) c st p)) = m
   \<and> same_outside m p (pi_page (createPopper v o1 (Some r) (Some m) c st p))"
proof -
  define i where "i = assign_opts c (cleanupModifierEffects v (new_instance (Some r) (Some m) st p))"
  have "el_popper (pi_state i) = m" "pi_page i = p"
    by (simp_all add: i_def assign_opts_def cleanupModifierEffects_def new_instance_def)
  with effects_outside [of "i\<lparr>pi_modifiers := ms\<rparr>" m p v o1 for ms]
  show ?thesis by (simp add: createPopper_def Let_def areValidElements_def setOptions_def runModifierEffects_def i_def [symmetric])
qed

lemma given_up_cleanup: "given_up i \<Longrightarrow> cleanupModifierEffects v i = i"
  by (simp add: given_up_def cleanupModifierEffects_def)

interpretation popper: positioner createPopper update_call update_tick destroy at_page pi_page pi_listening live_on given_up
proof
  fix m v o1 r c st p
  show "live_on m (createPopper v o1 (Some r) (Some m) c st p)"
    using live_tracked [OF popper_live.created] create_outside by (simp add: live_on_def)
  show "same_outside m p (pi_page (createPopper v o1 (Some r) (Some m) c st p))" using create_outside by simp
next
  fix m i n v o1 i'
  assume "live_on m i" "update_tick n v o1 i = Some i'"
  then show "live_on m i' \<and> same_outside m (pi_page i) (pi_page i')"
    using forceUpdate_tracked [of n v o1 "i\<lparr>pi_debounce := debounce_tick (pi_debounce i)\<rparr>" i']
      forceUpdate_outside [of "i\<lparr>pi_debounce := debounce_tick (pi_debounce i)\<rparr>" m n v o1 i']
    by (auto simp: live_on_def update_tick_def tracked_def split: if_splits)
next
  fix m i v
  assume l: "live_on m i"
  then have "given_up (destroy v i)" using cleanup_tracked [of i v] by (simp add: live_on_def given_up_def destroy_def)
  moreover have "same_outside m (pi_page i) (pi_page (destroy v i))"
    using l cleanups_outside [of i m "pi_page i" v "pi_effects i"] by (simp add: live_on_def destroy_def cleanupModifierEffects_def)
  ultimately show "given_up (destroy v i) \<and> same_outside m (pi_page i) (pi_page (destroy v i))" by blast
qed (auto simp: live_on_def given_up_def update_call_def at_page_def tracked_def update_tick_def forceUpdate_def destroy_def
    cleanupModifierEffects_def split: if_splits)

end
