(* ===== verification/Bs_Dropdown.thy ===== *)
theory Bs_Dropdown
  imports Bs_Overlay Popper_Core
begin

text \<open>
  Bootstrap's \<open>dropdown.js\<close> in \<open>bootstrap.bundle.js\<close>: a toggle button, its menu, and the popper that
  places the menu.  The state holds all dropdowns of the page.  A toggle without a menu or a
  parent, on which every operation throws, and Popper's virtual references are left out.
\<close>

section \<open>State\<close>

record dropdown =
  dd_menu :: elem
  dd_parent :: elem
  dd_inNavbar :: bool
  dd_popper :: "popper_instance option"
  dd_cfg :: config

text \<open>\<open>d_noops\<close> are the elements with the empty \<open>mouseover\<close> handler for touch devices.\<close>

record dds =
  dp :: page
  dinsts :: "elem \<Rightarrow> dropdown option"
  d_noops :: "elem list"

text \<open>
  What the page's layout and the caller's functions contribute: the layout as Popper reads it, the
  text of style values, a function given as the option \<open>offset\<close>, and what spreading the option
  \<open>popperConfig\<close>, or the object it returns, over the default configuration gives.
\<close>

record dd_host =
  layout :: "page \<Rightarrow> env"
  style_text :: "style_val \<Rightarrow> string"
  offset_fn :: "nat \<Rightarrow> elem \<Rightarrow> offset_option"
  spread_config :: "jsval \<Rightarrow> popper_opts \<Rightarrow> popper_opts"

definition set_dd :: "elem \<Rightarrow> dropdown \<Rightarrow> dds \<Rightarrow> dds" where
  "set_dd e d s = s\<lparr>dinsts := (dinsts s)(e \<mapsto> d)\<rparr>"

section \<open>Constants\<close>

definition SELECTOR_DATA_TOGGLE :: compound_sel where
  "SELECTOR_DATA_TOGGLE = [SelAttr ''data-bs-toggle'' ''dropdown'', SelNot (SelClass ''disabled''), SelNot SelDisabled]"

definition SELECTOR_DATA_TOGGLE_SHOWN :: selector where
  "SELECTOR_DATA_TOGGLE_SHOWN = [[SELECTOR_DATA_TOGGLE @ [SelClass ''show'']]]"

definition SELECTOR_MENU :: selector where
  "SELECTOR_MENU = [[[SelClass ''dropdown-menu'']]]"

definition SELECTOR_VISIBLE_ITEMS :: selector where
  "SELECTOR_VISIBLE_ITEMS = [[[SelClass ''dropdown-item'', SelNot (SelClass ''disabled''), SelNot SelDisabled], [SelClass ''dropdown-menu'']]]"

definition dd_default :: config where
  "dd_default = [(''autoClose'', JBool True), (''boundary'', JStr ''clippingParents''), (''display'', JStr ''dynamic''),
     (''offset'', JArr [JNum 0, JNum 2]), (''popperConfig'', JNull), (''reference'', JStr ''toggle'')]"

definition dd_defaultType :: "(string \<times> string) list" where
  "dd_defaultType = [(''autoClose'', ''(boolean|string)''), (''boundary'', ''(string|element)''), (''display'', ''string''),
     (''offset'', ''(array|string|function)''), (''popperConfig'', ''(null|object|function)''), (''reference'', ''(string|element|object)'')]"

section \<open>Placement and Popper's configuration\<close>

definition getPlacement :: "host \<Rightarrow> view \<Rightarrow> dropdown \<Rightarrow> page \<Rightarrow> placement" where
  "getPlacement h v d p =
     (let q = dd_parent d; st = (if rtl h then End else Start); en = (if rtl h then Start else End)
      in if has_class p q ''dropend'' then Placement (if rtl h then Left else Right) (Some Start)
         else if has_class p q ''dropstart'' then Placement (if rtl h then Right else Left) (Some Start)
         else if has_class p q ''dropup-center'' then Placement Top None
         else if has_class p q ''dropdown-center'' then Placement Bottom None
         else (let isEnd = (str_trim (computedStyle v p (dd_menu d) ''--bs-position'') = ''end'')
               in if has_class p q ''dropup'' then Placement Top (Some (if isEnd then en else st))
                  else Placement Bottom (Some (if isEnd then en else st))))"

definition detectNavbar :: "page \<Rightarrow> elem \<Rightarrow> bool" where
  "detectNavbar p e = (closest p [[[SelClass ''navbar'']]] e \<noteq> None)"

text \<open>
  The option \<open>offset\<close> in the form Popper's modifier reads it: skidding and distance, where a missing
  entry, \<open>null\<close> and \<open>NaN\<close> count as zero.
\<close>

definition num_or_zero :: "jsval \<Rightarrow> rat" where
  "num_or_zero x = (case x of JNum n \<Rightarrow> n | _ \<Rightarrow> 0)"

definition offset_entries :: "jsval list \<Rightarrow> rat \<times> rat" where
  "offset_entries xs =
     (case xs of [] \<Rightarrow> (0, 0) | [a] \<Rightarrow> (num_or_zero a, 0) | a # b # _ \<Rightarrow> (num_or_zero a, num_or_zero b))"

definition getOffset :: "dd_host \<Rightarrow> elem \<Rightarrow> config \<Rightarrow> offset_option" where
  "getOffset dh e c =
     (case js_get c ''offset'' of
        JStr s \<Rightarrow> (\<lambda>_ _ _. offset_entries (map (\<lambda>w. case parseInt w of None \<Rightarrow> JNaN | Some n \<Rightarrow> JNum (of_int n)) (split_on (CHR '','') s)))
      | JFun f \<Rightarrow> offset_fn dh f e
      | JArr xs \<Rightarrow> (\<lambda>_ _ _. offset_entries xs)
      | _ \<Rightarrow> (\<lambda>_ _ _. (0, 0)))"

text \<open>The option \<open>boundary\<close>: a text that names no box stands for the document.\<close>

definition dd_boundary :: "config \<Rightarrow> boundary" where
  "dd_boundary c =
     (case js_get c ''boundary'' of
        JElem x \<Rightarrow> Boundaries [ClipElem x]
      | JStr s \<Rightarrow> if s = ''clippingParents'' then ClippingParents
                  else Boundaries [if s = ''viewport'' then ClipViewport else ClipDocument]
      | _ \<Rightarrow> ClippingParents)"

definition named_modifier :: "string \<Rightarrow> modifier" where
  "named_modifier n = \<lparr>m_name = n, m_enabled = None, m_phase = None, m_fn = None, m_requires = None, m_requiresIfExists = None,
     m_options = [], m_data = []\<rparr>"

definition is_static :: "dropdown \<Rightarrow> bool" where
  "is_static d = (dd_inNavbar d \<or> js_get (dd_cfg d) ''display'' = JStr ''static'')"

text \<open>
  \<open>_getPopperConfig\<close>: the configuration, and the page, where a static menu is marked.  The offset, a
  function in the model, is in the typed options below instead of the modifier's object.
\<close>

definition getPopperConfig :: "dd_host \<Rightarrow> host \<Rightarrow> view \<Rightarrow> dropdown \<Rightarrow> page \<Rightarrow> popper_opts \<times> page" where
  "getPopperConfig dh h v d p =
     (let mods = (if is_static d then [(named_modifier ''applyStyles'')\<lparr>m_enabled := Some False\<rparr>]
                  else [(named_modifier ''preventOverflow'')\<lparr>m_options := [(''boundary'', js_get (dd_cfg d) ''boundary'')]\<rparr>,
                        (named_modifier ''offset'')\<lparr>m_options := [(''offset'', js_get (dd_cfg d) ''offset'')]\<rparr>]);
          defaultBsPopperConfig = \<lparr>on_placement = Some (getPlacement h v d p), on_fixed = None, on_modifiers = Some mods\<rparr>;
          p1 = (if is_static d then setDataAttribute (dd_menu d) ''popper'' ''static'' p else p)
      in (case js_get (dd_cfg d) ''popperConfig'' of
            JNull \<Rightarrow> defaultBsPopperConfig
          | pc \<Rightarrow> spread_config dh pc defaultBsPopperConfig, p1))"

text \<open>The options the default modifiers work with: their own defaults, and those the dropdown gives.\<close>

definition dd_popper_options :: "dd_host \<Rightarrow> elem \<Rightarrow> dropdown \<Rightarrow> popper_options" where
  "dd_popper_options dh e d =
     \<lparr>po_flip = default_flip,
      po_prevent = \<lparr>p_mainAxis = True, p_altAxis = False,
        p_overflow = (if is_static d then default_overflow else default_overflow\<lparr>o_boundary := dd_boundary (dd_cfg d)\<rparr>),
        p_tether = True, p_tetherMain = 0, p_tetherAlt = 0, p_arrowPadding = \<lparr>s_top = 0, s_right = 0, s_bottom = 0, s_left = 0\<rparr>\<rparr>,
      po_offset = (if is_static d then (\<lambda>_ _ _. (0, 0)) else getOffset dh e (dd_cfg d)),
      po_arrowPadding = PadNum 0, po_arrowElement = Some (Inr [[[SelHasAttr ''data-popper-arrow'']]]),
      po_styles = \<lparr>y_gpu = True, y_adaptive = True, y_round = RoundByDPR\<rparr>, po_scroll = True, po_resize = True,
      po_show = style_text dh\<rparr>"

definition no_rect :: rect where
  "no_rect = \<lparr>rx = 0, ry = 0, rwidth = 0, rheight = 0\<rparr>"

definition blank_state :: pstate where
  "blank_state = \<lparr>st_placement = Placement Bottom None, opt_placement = Placement Bottom None, opt_fixed = False, el_reference = 0,
     el_popper = 0, el_arrow = None, r_reference = no_rect, r_popper = no_rect, md_popperOffsets = None, md_offset = None,
     md_preventOverflow = None, md_hide = None, md_arrow = None, md_centerOffset = None, md_flip_skip = False,
     styles_popper = [], styles_arrow = [], attributes_popper = [], st_reset = False\<rparr>"

definition reference_element :: "elem \<Rightarrow> dropdown \<Rightarrow> elem" where
  "reference_element e d =
     (case js_get (dd_cfg d) ''reference'' of
        JStr s \<Rightarrow> if s = ''parent'' then dd_parent d else e
      | JElem x \<Rightarrow> x
      | _ \<Rightarrow> e)"

definition dd_createPopper :: "dd_host \<Rightarrow> host \<Rightarrow> view \<Rightarrow> elem \<Rightarrow> dropdown \<Rightarrow> page \<Rightarrow> dropdown \<times> page" where
  "dd_createPopper dh h v e d p =
     (let (popperConfig, p1) = getPopperConfig dh h v d p;
          i = createPopper (layout dh p1) (dd_popper_options dh e d) (Some (reference_element e d)) (Some (dd_menu d)) popperConfig blank_state p1
      in (d\<lparr>dd_popper := Some i\<rparr>, pi_page i))"

section \<open>Showing and hiding\<close>

definition dd_isShown :: "page \<Rightarrow> dropdown \<Rightarrow> bool" where
  "dd_isShown p d = has_class p (dd_menu d) ''show''"

definition add_noops :: "elem list \<Rightarrow> elem list \<Rightarrow> elem list" where
  "add_noops xs ns = ns @ filter (\<lambda>x. x \<notin> set ns) xs"

definition dd_show :: "dd_host \<Rightarrow> host \<Rightarrow> view \<Rightarrow> elem \<Rightarrow> dds \<Rightarrow> dds" where
  "dd_show dh h v e s =
     (case dinsts s e of
        None \<Rightarrow> s
      | Some d \<Rightarrow>
          if isDisabled h (dp s) (Some e) \<or> dd_isShown (dp s) d then s
          else (let p1 = triggering h e ''show.bs.dropdown'' (dp s)
                in if prevented_by h e ''show.bs.dropdown'' (dp s) then s\<lparr>dp := p1\<rparr>
                   else (let (d1, p2) = dd_createPopper dh h v e d p1;
                             noops = (if touch h \<and> closest p2 [[[SelClass ''navbar-nav'']]] (dd_parent d) = None
                                      then add_noops (children p2 (body v)) (d_noops s) else d_noops s);
                             p3 = setAttribute e ''aria-expanded'' (bool_str True) (focus_el e p2);
                             p4 = add_class e ''show'' (add_class (dd_menu d) ''show'' p3)
                         in (set_dd e d1 s)\<lparr>dp := triggering h e ''shown.bs.dropdown'' p4, d_noops := noops\<rparr>)))"

text \<open>\<open>if (this._popper) this._popper.destroy()\<close>; the instance is kept.\<close>

definition destroy_popper :: "dd_host \<Rightarrow> dropdown \<Rightarrow> page \<Rightarrow> popper_instance option \<times> page" where
  "destroy_popper dh d p =
     (case dd_popper d of
        None \<Rightarrow> (None, p)
      | Some i \<Rightarrow> (let j = destroy (layout dh p) (at_page p i) in (Some j, pi_page j)))"

definition completeHide :: "dd_host \<Rightarrow> host \<Rightarrow> view \<Rightarrow> elem \<Rightarrow> dds \<Rightarrow> dds" where
  "completeHide dh h v e s =
     (case dinsts s e of
        None \<Rightarrow> s
      | Some d \<Rightarrow>
          (let p1 = triggering h e ''hide.bs.dropdown'' (dp s)
           in if prevented_by h e ''hide.bs.dropdown'' (dp s) then s\<lparr>dp := p1\<rparr>
              else (let noops = (if touch h then filter (\<lambda>x. x \<notin> set (children p1 (body v))) (d_noops s) else d_noops s);
                        (pop, p2) = destroy_popper dh d p1;
                        p3 = remove_class e ''show'' (remove_class (dd_menu d) ''show'' p2);
                        p4 = removeDataAttribute (dd_menu d) ''popper'' (setAttribute e ''aria-expanded'' ''false'' p3)
                    in (set_dd e (d\<lparr>dd_popper := pop\<rparr>) s)\<lparr>dp := triggering h e ''hidden.bs.dropdown'' p4, d_noops := noops\<rparr>)))"

definition dd_hide :: "dd_host \<Rightarrow> host \<Rightarrow> view \<Rightarrow> elem \<Rightarrow> dds \<Rightarrow> dds" where
  "dd_hide dh h v e s =
     (case dinsts s e of
        None \<Rightarrow> s
      | Some d \<Rightarrow> if isDisabled h (dp s) (Some e) \<or> \<not> dd_isShown (dp s) d then s else completeHide dh h v e s)"

definition dd_toggle :: "dd_host \<Rightarrow> host \<Rightarrow> view \<Rightarrow> elem \<Rightarrow> dds \<Rightarrow> dds" where
  "dd_toggle dh h v e s =
     (case dinsts s e of None \<Rightarrow> s | Some d \<Rightarrow> if dd_isShown (dp s) d then dd_hide dh h v e s else dd_show dh h v e s)"

text \<open>\<open>update\<close> asks the popper for an update; the microtask runs it.\<close>

definition dd_update :: "elem \<Rightarrow> dds \<Rightarrow> dds" where
  "dd_update e s =
     (case dinsts s e of
        None \<Rightarrow> s
      | Some d \<Rightarrow> set_dd e (d\<lparr>dd_inNavbar := detectNavbar (dp s) e, dd_popper := map_option update_call (dd_popper d)\<rparr>) s)"

definition dd_tick :: "nat \<Rightarrow> dd_host \<Rightarrow> elem \<Rightarrow> dds \<Rightarrow> dds option" where
  "dd_tick fuel dh e s =
     (case dinsts s e of
        None \<Rightarrow> Some s
      | Some d \<Rightarrow>
          (case dd_popper d of
             None \<Rightarrow> Some s
           | Some i \<Rightarrow>
               map_option (\<lambda>j. (set_dd e (d\<lparr>dd_popper := Some j\<rparr>) s)\<lparr>dp := pi_page j\<rparr>)
                 (update_tick fuel (layout dh (dp s)) (dd_popper_options dh e d) (at_page (dp s) i))))"

definition dd_dispose :: "dd_host \<Rightarrow> elem \<Rightarrow> dds \<Rightarrow> dds" where
  "dd_dispose dh e s =
     (case dinsts s e of
        None \<Rightarrow> s
      | Some d \<Rightarrow>
          (let (pop, p1) = destroy_popper dh d (dp s)
           in s\<lparr>dp := p1, dinsts := (dinsts s)(e := None)\<rparr>))"


section \<open>Instances\<close>

definition first_some :: "'a option list \<Rightarrow> 'a option" where
  "first_some xs = (case filter (\<lambda>x. x \<noteq> None) xs of [] \<Rightarrow> None | x # _ \<Rightarrow> x)"

text \<open>The menu: the next or previous sibling that is one, or the first one below the parent.\<close>

definition find_menu :: "page \<Rightarrow> elem \<Rightarrow> elem \<Rightarrow> elem option" where
  "find_menu p e q = first_some [first_of (SE_next p e SELECTOR_MENU), first_of (SE_prev p e SELECTOR_MENU), SE_findOne p q SELECTOR_MENU]"

definition reference_error :: string where
  "reference_error = (let q = (\<lambda>w. [CHR 0x22] @ w @ [CHR 0x22])
     in ''DROPDOWN: Option '' @ q ''reference'' @ '' provided type '' @ q ''object'' @ '' without a required ''
        @ q ''getBoundingClientRect'' @ '' method.'')"

definition dd_getConfig :: "(string \<Rightarrow> jsval option) \<Rightarrow> host \<Rightarrow> page \<Rightarrow> elem \<Rightarrow> jsval \<Rightarrow> string + config" where
  "dd_getConfig json h p e config =
     (case getConfig h json p ''dropdown'' dd_default dd_defaultType id config (Some e) of
        Inl err \<Rightarrow> Inl err
      | Inr c \<Rightarrow>
          (case js_get c ''reference'' of
             JObj kvs \<Rightarrow> (case js_get kvs ''getBoundingClientRect'' of
                 JFun f \<Rightarrow> Inr c
               | _ \<Rightarrow> Inl reference_error)
           | _ \<Rightarrow> Inr c))"

definition dd_new :: "(string \<Rightarrow> jsval option) \<Rightarrow> host \<Rightarrow> elem \<Rightarrow> jsval \<Rightarrow> dds \<Rightarrow> dds option" where
  "dd_new json h e config s =
     (case dd_getConfig json h (dp s) e config of
        Inl err \<Rightarrow> None
      | Inr c \<Rightarrow>
          (case parentNode (dp s) e of
             None \<Rightarrow> None
           | Some q \<Rightarrow>
               (case find_menu (dp s) e q of
                  None \<Rightarrow> None
                | Some m \<Rightarrow>
                    if (case js_get c ''reference'' of JObj _ \<Rightarrow> True | _ \<Rightarrow> False) then None
                    else Some (set_dd e \<lparr>dd_menu = m, dd_parent = q, dd_inNavbar = detectNavbar (dp s) e, dd_popper = None, dd_cfg = c\<rparr> s))))"

definition dd_get_or_create :: "(string \<Rightarrow> jsval option) \<Rightarrow> host \<Rightarrow> elem \<Rightarrow> dds \<Rightarrow> dds option" where
  "dd_get_or_create json h e s = (if dinsts s e \<noteq> None then Some s else dd_new json h e JNull s)"

section \<open>Events\<close>

text \<open>A user event: \<open>u_path\<close> is the composed path, fixed when the event is dispatched.\<close>

record ui_event =
  u_type :: string
  u_button :: "nat option"
  u_key :: string
  u_target :: elem
  u_path :: "elem list"

definition RIGHT_MOUSE_BUTTON :: nat where
  "RIGHT_MOUSE_BUTTON = 2"

text \<open>\<open>/a|b/i.test(tagName)\<close>, without anchors.\<close>

definition tag_test :: "string list \<Rightarrow> page \<Rightarrow> elem \<Rightarrow> bool" where
  "tag_test ws p e = list_ex (str_includes (map to_lower_char (tagName (nodes p e)))) ws"

definition ignored_event :: "ui_event \<Rightarrow> bool" where
  "ignored_event ev = (u_button ev = Some RIGHT_MOUSE_BUTTON \<or> u_type ev = ''keyup'' \<and> u_key ev \<noteq> ''Tab'')"

text \<open>The tests of the loop of \<open>clearMenus\<close> that skip an open dropdown.\<close>

definition stays_open :: "ui_event \<Rightarrow> page \<Rightarrow> elem \<Rightarrow> dropdown \<Rightarrow> bool" where
  "stays_open ev p e d =
     (let autoClose = js_get (dd_cfg d) ''autoClose''; isMenuTarget = dd_menu d \<in> set (u_path ev)
      in autoClose = JBool False
         \<or> e \<in> set (u_path ev) \<or> autoClose = JStr ''inside'' \<and> \<not> isMenuTarget \<or> autoClose = JStr ''outside'' \<and> isMenuTarget
         \<or> contains p (dd_menu d) (u_target ev)
             \<and> (u_type ev = ''keyup'' \<and> u_key ev = ''Tab''
                \<or> tag_test [''input'', ''select'', ''option'', ''textarea'', ''form''] p (u_target ev)))"

definition clear_one :: "dd_host \<Rightarrow> host \<Rightarrow> view \<Rightarrow> ui_event \<Rightarrow> dds \<Rightarrow> elem \<Rightarrow> dds" where
  "clear_one dh h v ev s e =
     (case dinsts s e of None \<Rightarrow> s | Some d \<Rightarrow> if stays_open ev (dp s) e d then s else completeHide dh h v e s)"

definition clearMenus :: "dd_host \<Rightarrow> host \<Rightarrow> view \<Rightarrow> ui_event \<Rightarrow> dds \<Rightarrow> dds" where
  "clearMenus dh h v ev s =
     (if ignored_event ev then s
      else foldl (clear_one dh h v ev) s (SE_find (dp s) (doc_root (dp s)) SELECTOR_DATA_TOGGLE_SHOWN))"

text \<open>\<open>_selectMenuItem\<close>; \<open>None\<close> would be a call of \<open>focus\<close> on \<open>undefined\<close>.\<close>

definition menu_items :: "host \<Rightarrow> page \<Rightarrow> dropdown \<Rightarrow> elem list" where
  "menu_items h p d = filter (\<lambda>x. isVisible h p (JElem x)) (SE_find p (dd_menu d) SELECTOR_VISIBLE_ITEMS)"

definition selectMenuItem :: "host \<Rightarrow> string \<Rightarrow> elem \<Rightarrow> dropdown \<Rightarrow> page \<Rightarrow> page option" where
  "selectMenuItem h key target d p =
     (let items = menu_items h p d
      in if items = [] then Some p
         else map_option (\<lambda>x. focus_el x p) (getNextActiveElement items target (key = ''ArrowDown'') (target \<notin> set items)))"

text \<open>The toggle that a key press on \<open>this\<close>, a toggle or a menu, belongs to.\<close>

definition getToggleButton :: "page \<Rightarrow> elem \<Rightarrow> elem option" where
  "getToggleButton p this =
     (if matches p [[SELECTOR_DATA_TOGGLE]] this then Some this
      else first_some [first_of (SE_prev p this [[SELECTOR_DATA_TOGGLE]]), first_of (SE_next p this [[SELECTOR_DATA_TOGGLE]]),
                       (case parentNode p this of None \<Rightarrow> None | Some q \<Rightarrow> SE_findOne p q [[SELECTOR_DATA_TOGGLE]])])"

text \<open>
  The answer of the key handler: whether it prevents the default action and stops the event, and
  the state, \<open>None\<close> for an exception.
\<close>

record key_answer =
  k_prevented :: bool
  k_stopped :: bool
  k_state :: "dds option"

definition dataApiKeydownHandler :: "(string \<Rightarrow> jsval option) \<Rightarrow> dd_host \<Rightarrow> host \<Rightarrow> view \<Rightarrow> ui_event \<Rightarrow> elem \<Rightarrow> dds \<Rightarrow> key_answer" where
  "dataApiKeydownHandler json dh h v ev this s =
     (let isInput = tag_test [''input'', ''textarea''] (dp s) (u_target ev);
          isEscapeEvent = (u_key ev = ''Escape'');
          isUpOrDownEvent = (u_key ev \<in> {''ArrowUp'', ''ArrowDown''})
      in if \<not> isUpOrDownEvent \<and> \<not> isEscapeEvent \<or> isInput \<and> \<not> isEscapeEvent then \<lparr>k_prevented = False, k_stopped = False, k_state = Some s\<rparr>
         else (case getToggleButton (dp s) this of
                 None \<Rightarrow> \<lparr>k_prevented = True, k_stopped = False, k_state = None\<rparr>
               | Some b \<Rightarrow>
                   (case dd_get_or_create json h b s of
                      None \<Rightarrow> \<lparr>k_prevented = True, k_stopped = False, k_state = None\<rparr>
                    | Some s1 \<Rightarrow>
                        if isUpOrDownEvent then
                          (let s2 = dd_show dh h v b s1
                           in \<lparr>k_prevented = True, k_stopped = True,
                               k_state = (case dinsts s2 b of
                                   None \<Rightarrow> None
                                 | Some d \<Rightarrow> map_option (\<lambda>p. s2\<lparr>dp := p\<rparr>) (selectMenuItem h (u_key ev) (u_target ev) d (dp s2)))\<rparr>)
                        else if (case dinsts s1 b of None \<Rightarrow> False | Some d \<Rightarrow> dd_isShown (dp s1) d) then
                          (let s2 = dd_hide dh h v b s1
                           in \<lparr>k_prevented = True, k_stopped = True, k_state = Some (s2\<lparr>dp := focus_el b (dp s2)\<rparr>)\<rparr>)
                        else \<lparr>k_prevented = True, k_stopped = False, k_state = Some s1\<rparr>)))"

text \<open>
  A click on the page.  The delegated handler of the toggles is registered for the capture phase
  and so runs before \<open>clearMenus\<close>, which runs even when that handler throws.
\<close>

definition dd_click_toggle :: "(string \<Rightarrow> jsval option) \<Rightarrow> dd_host \<Rightarrow> host \<Rightarrow> view \<Rightarrow> elem \<Rightarrow> dds \<Rightarrow> dds option" where
  "dd_click_toggle json dh h v this s = map_option (dd_toggle dh h v this) (dd_get_or_create json h this s)"

definition dd_click :: "(string \<Rightarrow> jsval option) \<Rightarrow> dd_host \<Rightarrow> host \<Rightarrow> view \<Rightarrow> ui_event \<Rightarrow> dds \<Rightarrow> dds" where
  "dd_click json dh h v ev s =
     clearMenus dh h v ev
       (case closest (dp s) [[SELECTOR_DATA_TOGGLE]] (u_target ev) of
          None \<Rightarrow> s
        | Some b \<Rightarrow> (case dd_click_toggle json dh h v b s of None \<Rightarrow> s | Some t \<Rightarrow> t))"


section \<open>Toggle, menu and popper stay in step\<close>

text \<open>The popper of a shown menu is live, that of a hidden one absent or given up.\<close>

fun popper_fits :: "bool \<Rightarrow> elem \<Rightarrow> popper_instance option \<Rightarrow> bool" where
  "popper_fits shown m None = (\<not> shown)"
| "popper_fits shown m (Some i) = (if shown then live_on m i else given_up i)"

definition dd_sync :: "page \<Rightarrow> elem \<Rightarrow> dropdown \<Rightarrow> bool" where
  "dd_sync p e d \<longleftrightarrow>
     has_class p e ''show'' = dd_isShown p d
     \<and> (getAttribute p e ''aria-expanded'' = Some ''true'') = dd_isShown p d
     \<and> popper_fits (dd_isShown p d) (dd_menu d) (dd_popper d)"

text \<open>Every toggle has a menu of its own, and no menu is a toggle.\<close>

definition apart :: "(elem \<Rightarrow> dropdown option) \<Rightarrow> bool" where
  "apart ds \<longleftrightarrow> (\<forall>e d. ds e = Some d \<longrightarrow> ds (dd_menu d) = None)
     \<and> (\<forall>e d e' d'. ds e = Some d \<longrightarrow> ds e' = Some d' \<longrightarrow> dd_menu d = dd_menu d' \<longrightarrow> e = e')"

definition dd_inv :: "dds \<Rightarrow> bool" where
  "dd_inv s \<longleftrightarrow> apart (dinsts s) \<and> (\<forall>e d. dinsts s e = Some d \<longrightarrow> dd_sync (dp s) e d)"

text \<open>What an operation on one dropdown leaves alone.\<close>

definition dd_only :: "elem \<Rightarrow> dds \<Rightarrow> dds \<Rightarrow> bool" where
  "dd_only e s t \<longleftrightarrow> tree (dp t) = tree (dp s) \<and> (\<forall>x. tagName (nodes (dp t) x) = tagName (nodes (dp s) x))
     \<and> (\<forall>x d. x \<noteq> e \<longrightarrow> dinsts s x = Some d \<longrightarrow> dinsts t x = Some d \<and> dd_isShown (dp t) d = dd_isShown (dp s) d)"

lemma dd_onlyD:
  "dd_only e s t \<Longrightarrow> x \<noteq> e \<Longrightarrow> dinsts s x = Some d \<Longrightarrow> dinsts t x = Some d \<and> dd_isShown (dp t) d = dd_isShown (dp s) d"
  unfolding dd_only_def by blast

lemma apart_upd: "apart ds \<Longrightarrow> ds e = Some d \<Longrightarrow> dd_menu d' = dd_menu d \<Longrightarrow> apart (ds(e \<mapsto> d'))"
  unfolding apart_def by (metis fun_upd_apply option.inject option.distinct(1))

text \<open>
  One step on dropdown \<open>e\<close>: the page agrees with the old one outside the menu up to the classes
  and the attribute that show the new state, and the instance is replaced.
\<close>

lemma replace_one:
  assumes inv: "dd_inv s" and e: "dinsts s e = Some d" and d': "dd_menu d' = dd_menu d" "dd_sync q e d'"
    and out: "tree q = tree (dp s)" "\<And>x. tagName (nodes q x) = tagName (nodes (dp s) x)"
      "\<And>x. x \<noteq> e \<Longrightarrow> x \<noteq> dd_menu d \<Longrightarrow> has_class q x ''show'' = has_class (dp s) x ''show''"
      "\<And>x. x \<noteq> e \<Longrightarrow> x \<noteq> dd_menu d \<Longrightarrow> getAttribute q x ''aria-expanded'' = getAttribute (dp s) x ''aria-expanded''"
  shows "dd_inv (s\<lparr>dp := q, dinsts := (dinsts s)(e \<mapsto> d'), d_noops := ns\<rparr>)
    \<and> dd_only e s (s\<lparr>dp := q, dinsts := (dinsts s)(e \<mapsto> d'), d_noops := ns\<rparr>)"
proof -
  have ap: "apart (dinsts s)" using inv by (simp add: dd_inv_def)
  have other: "has_class q x ''show'' = has_class (dp s) x ''show'' \<and> dd_isShown q c = dd_isShown (dp s) c
      \<and> getAttribute q x ''aria-expanded'' = getAttribute (dp s) x ''aria-expanded''"
    if "x \<noteq> e" "dinsts s x = Some c" for x c
  proof -
    have "x \<noteq> dd_menu d" "dd_menu c \<noteq> e" "dd_menu c \<noteq> dd_menu d"
      using ap e that unfolding apart_def by (metis option.distinct(1))+
    with that(1) out(3,4) show ?thesis by (simp add: dd_isShown_def)
  qed
  have "dd_sync q x c" if "x \<noteq> e" "dinsts s x = Some c" for x c
  proof -
    have "dd_sync (dp s) x c" using inv that(2) by (simp add: dd_inv_def)
    then show ?thesis unfolding dd_sync_def using other [OF that] by simp
  qed
  with d' apart_upd [OF ap e d'(1)] other out(1,2) show ?thesis by (auto simp: dd_inv_def dd_only_def)
qed


lemma trigger_independent: "prevented_by h e ev p = prevented_by h e ev q"
  by (auto simp: trigger_def Let_def split: option.splits prod.splits)

lemma logged_only:
  assumes "dd_inv s"
  shows "dd_inv (s\<lparr>dp := triggering h x ev (dp s)\<rparr>) \<and> dd_only e s (s\<lparr>dp := triggering h x ev (dp s)\<rparr>)"
  using assms by (simp add: dd_inv_def dd_only_def dd_sync_def dd_isShown_def dom_simps)

lemma createPopper_page:
  assumes "dd_createPopper dh h v e d p = (d1, q)" "e \<noteq> dd_menu d"
  shows "dd_menu d1 = dd_menu d \<and> (\<exists>i. dd_popper d1 = Some i \<and> live_on (dd_menu d) i) \<and> same_outside (dd_menu d) p q"
proof -
  obtain c p1 where g: "getPopperConfig dh h v d p = (c, p1)" by fastforce
  then have "same_outside (dd_menu d) p p1"
    by (auto simp: getPopperConfig_def Let_def setDataAttribute_def split: if_splits)
  with assms(1) g popper.create_live popper.create_page show ?thesis
    by (auto simp: dd_createPopper_def Let_def intro: same_outside_trans)
qed

lemma dd_menu_other: "dd_inv s \<Longrightarrow> dinsts s e = Some d \<Longrightarrow> e \<noteq> dd_menu d"
  unfolding dd_inv_def apart_def by (metis option.distinct(1))

lemma destroy_popper_owned:
  assumes "dd_sync q e d" "destroy_popper dh d p = (pop, p2)"
  shows "popper_fits False m pop \<and> same_outside (dd_menu d) p p2"
  using assms popper.stop_owned [of "dd_menu d" _ "layout dh p" p]
  by (cases "dd_popper d") (auto simp: destroy_popper_def dd_sync_def Let_def split: if_splits)

lemma completeHide_only:
  assumes inv: "dd_inv s"
  shows "dd_inv (completeHide dh h v e s) \<and> dd_only e s (completeHide dh h v e s)"
proof (cases "dinsts s e")
  case None
  then show ?thesis using inv by (simp add: completeHide_def dd_only_def)
next
  case (Some d)
  note ne = dd_menu_other [OF inv Some]
  define p1 where "p1 = triggering h e ''hide.bs.dropdown'' (dp s)"
  obtain pop p2 where r: "destroy_popper dh d p1 = (pop, p2)" by fastforce
  define q where "q = triggering h e ''hidden.bs.dropdown'' (removeDataAttribute (dd_menu d) ''popper''
      (setAttribute e ''aria-expanded'' ''false'' (remove_class e ''show'' (remove_class (dd_menu d) ''show'' p2))))"
  define ns where "ns = (if touch h then filter (\<lambda>x. x \<notin> set (children p1 (body v))) (d_noops s) else d_noops s)"
  show ?thesis
  proof (cases "prevented_by h e ''hide.bs.dropdown'' (dp s)")
    case True
    then show ?thesis using logged_only [OF inv] Some by (simp add: completeHide_def Let_def)
  next
    case False
    then have t: "completeHide dh h v e s = s\<lparr>dp := q, dinsts := (dinsts s)(e \<mapsto> d\<lparr>dd_popper := pop\<rparr>), d_noops := ns\<rparr>"
      using Some r by (simp add: completeHide_def Let_def p1_def q_def ns_def set_dd_def)
    have "dd_sync (dp s) e d" using inv Some by (simp add: dd_inv_def)
    note o1 = destroy_popper_owned [OF this r, of "dd_menu d"]
    then have out: "same_outside (dd_menu d) (dp s) p2" by (simp add: same_outside_def p1_def dom_simps)
    have "dd_sync q e (d\<lparr>dd_popper := pop\<rparr>)"
      using o1 ne by (simp add: dd_sync_def dd_isShown_def q_def removeDataAttribute_def dom_simps)
    then show ?thesis unfolding t using out
      by (intro replace_one [OF inv Some]) (simp_all add: q_def removeDataAttribute_def same_outside_def dom_simps)
  qed
qed


lemma dd_show_only:
  assumes inv: "dd_inv s"
  shows "dd_inv (dd_show dh h v e s) \<and> dd_only e s (dd_show dh h v e s)"
proof (cases "dinsts s e")
  case None
  then show ?thesis using inv by (simp add: dd_show_def dd_only_def)
next
  case (Some d)
  note ne = dd_menu_other [OF inv Some]
  define p1 where "p1 = triggering h e ''show.bs.dropdown'' (dp s)"
  obtain d1 p2 where c: "dd_createPopper dh h v e d p1 = (d1, p2)" by fastforce
  define q where "q = triggering h e ''shown.bs.dropdown'' (add_class e ''show'' (add_class (dd_menu d) ''show''
      (setAttribute e ''aria-expanded'' (bool_str True) (focus_el e p2))))"
  define ns where "ns = (if touch h \<and> closest p2 [[[SelClass ''navbar-nav'']]] (dd_parent d) = None
      then add_noops (children p2 (body v)) (d_noops s) else d_noops s)"
  have t: "dd_show dh h v e s = (if isDisabled h (dp s) (Some e) \<or> dd_isShown (dp s) d then s
      else if prevented_by h e ''show.bs.dropdown'' (dp s) then s\<lparr>dp := p1\<rparr>
      else s\<lparr>dp := q, dinsts := (dinsts s)(e \<mapsto> d1), d_noops := ns\<rparr>)"
    using c by (simp add: dd_show_def Some Let_def p1_def q_def ns_def set_dd_def cong: if_cong)
  consider (same) "dd_show dh h v e s = s" | (veto) "dd_show dh h v e s = s\<lparr>dp := p1\<rparr>"
    | (shown) "dd_show dh h v e s = s\<lparr>dp := q, dinsts := (dinsts s)(e \<mapsto> d1), d_noops := ns\<rparr>"
    unfolding t by presburger
  then show ?thesis
  proof cases
    case same
    then show ?thesis using inv by (simp add: dd_only_def)
  next
    case veto
    then show ?thesis using logged_only [OF inv] by (simp add: p1_def)
  next
    case shown
    from createPopper_page [OF c ne] have m: "dd_menu d1 = dd_menu d" "\<exists>i. dd_popper d1 = Some i \<and> live_on (dd_menu d) i"
      and out: "same_outside (dd_menu d) (dp s) p2" by (simp_all add: same_outside_def p1_def dom_simps)
    have "dd_sync q e d1" using m ne by (auto simp: dd_sync_def dd_isShown_def q_def bool_str_def dom_simps)
    then show ?thesis unfolding shown using out m(1)
      by (intro replace_one [OF inv Some]) (simp_all add: q_def same_outside_def dom_simps)
  qed
qed

lemma dd_same_only: "dd_inv s \<Longrightarrow> dd_inv s \<and> dd_only e s s"
  by (simp add: dd_only_def)

lemma dd_hide_only: "dd_inv s \<Longrightarrow> dd_inv (dd_hide dh h v e s) \<and> dd_only e s (dd_hide dh h v e s)"
  using completeHide_only dd_same_only by (simp add: dd_hide_def split: option.splits)

lemma dd_toggle_only: "dd_inv s \<Longrightarrow> dd_inv (dd_toggle dh h v e s) \<and> dd_only e s (dd_toggle dh h v e s)"
  using dd_hide_only dd_show_only dd_same_only by (simp add: dd_toggle_def split: option.splits)

lemma dd_update_inv:
  assumes "dd_inv s"
  shows "dd_inv (dd_update e s)"
proof (cases "dinsts s e")
  case (Some d)
  let ?d = "d\<lparr>dd_inNavbar := detectNavbar (dp s) e, dd_popper := map_option update_call (dd_popper d)\<rparr>"
  have "dd_sync (dp s) e d" using assms Some by (simp add: dd_inv_def)
  then have "dd_sync (dp s) e ?d" using popper.call_live popper.call_dead
    by (cases "dd_popper d") (auto simp: dd_sync_def dd_isShown_def split: if_splits)
  from replace_one [OF assms Some _ this, where ns = "d_noops s"] Some show ?thesis by (simp add: dd_update_def set_dd_def)
qed (use assms in \<open>simp add: dd_update_def\<close>)

lemma dd_tick_inv:
  assumes inv: "dd_inv s" and t: "dd_tick n dh e s = Some s'"
  shows "dd_inv s'"
proof (cases "\<exists>d i. dinsts s e = Some d \<and> dd_popper d = Some i")
  case True
  then obtain d i where e: "dinsts s e = Some d" and i: "dd_popper d = Some i" by blast
  with t obtain j where j: "update_tick n (layout dh (dp s)) (dd_popper_options dh e d) (at_page (dp s) i) = Some j"
    and s': "s' = (set_dd e (d\<lparr>dd_popper := Some j\<rparr>) s)\<lparr>dp := pi_page j\<rparr>" by (auto simp: dd_tick_def)
  have sync: "dd_sync (dp s) e d" using inv e by (simp add: dd_inv_def)
  then have "live_on (dd_menu d) i \<or> given_up i" by (auto simp: dd_sync_def i split: if_splits)
  note k = popper.tick_owned [OF this j]
  note ne = dd_menu_other [OF inv e]
  have out: "same_outside (dd_menu d) (dp s) (pi_page j)" using k by blast
  have "dd_sync (pi_page j) e (d\<lparr>dd_popper := Some j\<rparr>)"
    using sync k ne by (auto simp: dd_sync_def dd_isShown_def same_outside_def i split: if_splits)
  note one = replace_one [OF inv e _ this, where ns = "d_noops s"]
  have "s' = s\<lparr>dp := pi_page j, dinsts := (dinsts s)(e \<mapsto> d\<lparr>dd_popper := Some j\<rparr>), d_noops := d_noops s\<rparr>"
    by (simp add: s' set_dd_def)
  with one out show ?thesis by (simp only: same_outside_def) simp
qed (use assms in \<open>auto simp: dd_tick_def split: option.splits\<close>)

lemma dd_dispose_inv:
  assumes inv: "dd_inv s"
  shows "dd_inv (dd_dispose dh e s)"
proof (cases "dinsts s e")
  case (Some d)
  obtain pop q where r: "destroy_popper dh d (dp s) = (pop, q)" by fastforce
  have "dd_sync (dp s) e d" using inv Some by (simp add: dd_inv_def)
  from destroy_popper_owned [OF this r] have out: "same_outside (dd_menu d) (dp s) q" by simp
  have "dd_sync q x c" if x: "x \<noteq> e" "dinsts s x = Some c" for x c
  proof -
    have "x \<noteq> dd_menu d" using inv Some x unfolding dd_inv_def apart_def by (metis option.distinct(1))
    moreover have "dd_sync (dp s) x c" using inv x(2) by (simp add: dd_inv_def)
    ultimately show ?thesis using out by (simp add: dd_sync_def dd_isShown_def same_outside_def)
  qed
  moreover have "apart ((dinsts s)(e := None))" using inv by (auto simp: dd_inv_def apart_def)
  ultimately show ?thesis using Some r by (simp add: dd_dispose_def dd_inv_def)
qed (use inv in \<open>simp add: dd_dispose_def\<close>)


section \<open>Clearing menus\<close>

lemma stays_open_frame:
  "tree q = tree p \<Longrightarrow> (\<And>x. tagName (nodes q x) = tagName (nodes p x)) \<Longrightarrow> stays_open ev q e d = stays_open ev p e d"
  by (simp add: stays_open_def contains_def tag_test_def)

lemma clear_one_only: "dd_inv s \<Longrightarrow> dd_inv (clear_one dh h v ev s e) \<and> dd_only e s (clear_one dh h v ev s e)"
  using completeHide_only dd_same_only by (simp add: clear_one_def split: option.splits)

lemma clear_one_shown:
  assumes "dd_inv s" "dinsts s e = Some d"
  shows "\<exists>d'. dinsts (clear_one dh h v ev s e) e = Some d' \<and> dd_menu d' = dd_menu d
    \<and> dd_isShown (dp (clear_one dh h v ev s e)) d'
      = (dd_isShown (dp s) d \<and> (stays_open ev (dp s) e d \<or> prevented_by h e ''hide.bs.dropdown'' (dp s)))"
  using assms dd_menu_other [OF assms]
  by (auto simp: clear_one_def completeHide_def Let_def set_dd_def dd_isShown_def removeDataAttribute_def dom_simps split: prod.splits)

text \<open>The loop: a dropdown of the list is decided by its own tests, the others are left alone.\<close>

lemma clear_all:
  assumes "dd_inv s" "distinct es" "dinsts s e = Some d"
  shows "dd_inv (foldl (clear_one dh h v ev) s es)
    \<and> (\<exists>d'. dinsts (foldl (clear_one dh h v ev) s es) e = Some d' \<and> dd_menu d' = dd_menu d
        \<and> dd_isShown (dp (foldl (clear_one dh h v ev) s es)) d'
          = (dd_isShown (dp s) d \<and> (e \<in> set es \<longrightarrow> stays_open ev (dp s) e d \<or> prevented_by h e ''hide.bs.dropdown'' (dp s))))"
  using assms
proof (induction es arbitrary: s d)
  case (Cons x es)
  let ?t = "clear_one dh h v ev s x"
  from clear_one_only [OF Cons.prems(1)] have t: "dd_inv ?t" "dd_only x s ?t" by blast+
  show ?case
  proof (cases "x = e")
    case True
    from clear_one_shown [OF Cons.prems(1,3), of dh h v ev] obtain d1 where d1: "dinsts ?t e = Some d1" "dd_menu d1 = dd_menu d"
      "dd_isShown (dp ?t) d1 = (dd_isShown (dp s) d \<and> (stays_open ev (dp s) e d \<or> prevented_by h e ''hide.bs.dropdown'' (dp s)))"
      by (auto simp: True)
    from Cons.IH [OF t(1) _ d1(1)] Cons.prems(2) True d1 show ?thesis by auto
  next
    case False
    have d: "dinsts ?t e = Some d" "dd_isShown (dp ?t) d = dd_isShown (dp s) d" using dd_onlyD [OF t(2) _ Cons.prems(3)] False by auto
    have o: "stays_open ev (dp ?t) e d = stays_open ev (dp s) e d"
      by (rule stays_open_frame) (use t(2) in \<open>simp_all add: dd_only_def\<close>)
    note p = trigger_independent [of h e "''hide.bs.dropdown''" "dp ?t" "dp s"]
    from Cons.IH [OF t(1) _ d(1)] Cons.prems(2) False show ?thesis by (simp add: d(2) o p)
  qed
qed simp

lemma clearMenus_inv: "dd_inv s \<Longrightarrow> dd_inv (clearMenus dh h v ev s)"
proof -
  have "dd_inv s \<Longrightarrow> dd_inv (foldl (clear_one dh h v ev) s es)" for es
    by (induction es arbitrary: s) (simp_all add: clear_one_only)
  then show "dd_inv s \<Longrightarrow> ?thesis" by (simp add: clearMenus_def)
qed

section \<open>Reachable states\<close>

text \<open>
  A dropdown may be made for a toggle whose markup is closed and whose menu belongs to no other
  dropdown.
\<close>

definition closed_markup :: "elem \<Rightarrow> dds \<Rightarrow> dds \<Rightarrow> bool" where
  "closed_markup e s t \<longleftrightarrow>
     dinsts s e = None
     \<and> (case dinsts t e of
          None \<Rightarrow> True
        | Some d \<Rightarrow> \<not> has_class (dp s) e ''show'' \<and> \<not> dd_isShown (dp s) d \<and> getAttribute (dp s) e ''aria-expanded'' \<noteq> Some ''true''
            \<and> dd_menu d \<noteq> e \<and> dinsts s (dd_menu d) = None \<and> (\<forall>x c. dinsts s x = Some c \<longrightarrow> dd_menu c \<noteq> dd_menu d \<and> dd_menu c \<noteq> e))"

inductive dd_reach :: "(string \<Rightarrow> jsval option) \<Rightarrow> dd_host \<Rightarrow> host \<Rightarrow> view \<Rightarrow> dds \<Rightarrow> bool"
  for json :: "string \<Rightarrow> jsval option" and dh :: dd_host and h :: host and v :: view where
  start: "dinsts s = (\<lambda>_. None) \<Longrightarrow> dd_reach json dh h v s"
| making: "dd_reach json dh h v s \<Longrightarrow> dd_new json h e config s = Some t \<Longrightarrow> closed_markup e s t \<Longrightarrow> dd_reach json dh h v t"
| showing: "dd_reach json dh h v s \<Longrightarrow> dd_reach json dh h v (dd_show dh h v e s)"
| hiding: "dd_reach json dh h v s \<Longrightarrow> dd_reach json dh h v (dd_hide dh h v e s)"
| toggling: "dd_reach json dh h v s \<Longrightarrow> dd_reach json dh h v (dd_toggle dh h v e s)"
| updating: "dd_reach json dh h v s \<Longrightarrow> dd_reach json dh h v (dd_update e s)"
| ticking: "dd_reach json dh h v s \<Longrightarrow> dd_tick n dh e s = Some t \<Longrightarrow> dd_reach json dh h v t"
| disposing: "dd_reach json dh h v s \<Longrightarrow> dd_reach json dh h v (dd_dispose dh e s)"
| clearing: "dd_reach json dh h v s \<Longrightarrow> dd_reach json dh h v (clearMenus dh h v ev s)"
| pressing: "dd_reach json dh h v s \<Longrightarrow> (\<And>b. getToggleButton (dp s) this = Some b \<Longrightarrow> dinsts s b \<noteq> None)
    \<Longrightarrow> k_state (dataApiKeydownHandler json dh h v ev this s) = Some t \<Longrightarrow> dd_reach json dh h v t"
| clicking: "dd_reach json dh h v s \<Longrightarrow> (\<And>b. closest (dp s) [[SELECTOR_DATA_TOGGLE]] (u_target ev) = Some b \<Longrightarrow> dinsts s b \<noteq> None)
    \<Longrightarrow> dd_reach json dh h v (dd_click json dh h v ev s)"

lemma focus_inv: "dd_inv (s\<lparr>dp := focus_el x (dp s)\<rparr>) = dd_inv s"
  by (simp add: dd_inv_def dd_sync_def dd_isShown_def dom_simps)

lemma key_inv:
  assumes "dd_inv s" "\<And>b. getToggleButton (dp s) this = Some b \<Longrightarrow> dinsts s b \<noteq> None"
    "k_state (dataApiKeydownHandler json dh h v ev this s) = Some t"
  shows "dd_inv t"
  using assms(3) assms(1,2) dd_show_only [OF assms(1), of dh h v] dd_hide_only [OF assms(1), of dh h v]
  by (auto simp: dataApiKeydownHandler_def dd_get_or_create_def selectMenuItem_def Let_def focus_inv split: if_splits option.splits)

lemma new_inv:
  assumes "dd_inv s" "dd_new json h e config s = Some t" "closed_markup e s t"
  shows "dd_inv t"
proof -
  from assms(2) obtain d where t: "t = set_dd e d s" "dd_popper d = None"
    by (auto simp: dd_new_def split: sum.splits option.splits if_splits)
  with assms(3) have c: "dinsts s e = None" "\<not> has_class (dp s) e ''show''" "\<not> dd_isShown (dp s) d"
    "getAttribute (dp s) e ''aria-expanded'' \<noteq> Some ''true''" "dd_menu d \<noteq> e" "dinsts s (dd_menu d) = None"
    "\<And>x c. dinsts s x = Some c \<Longrightarrow> dd_menu c \<noteq> dd_menu d \<and> dd_menu c \<noteq> e"
    by (simp_all add: closed_markup_def set_dd_def)
  have "apart (dinsts s)" using assms(1) by (simp add: dd_inv_def)
  then have "apart ((dinsts s)(e \<mapsto> d))" unfolding apart_def fun_upd_apply using c(5-7) by (metis option.inject)
  moreover have "dd_sync (dp s) e d" using c t(2) by (simp add: dd_sync_def)
  ultimately show ?thesis using assms(1) by (simp add: t(1) set_dd_def dd_inv_def)
qed

lemma reach_inv: "dd_reach json dh h v s \<Longrightarrow> dd_inv s"
proof (induction rule: dd_reach.induct)
  case (clicking s ev)
  then have "dd_inv (dd_toggle dh h v b s)" for b using dd_toggle_only by blast
  with clicking show ?case
    by (auto simp: dd_click_def dd_click_toggle_def dd_get_or_create_def intro!: clearMenus_inv split: option.splits)
next
  case (start s)
  then show ?case by (simp add: dd_inv_def apart_def)
next
  case (making s e config t)
  then show ?case using new_inv by blast
next
  case (pressing s this ev t)
  then show ?case using key_inv by blast
next
  case (ticking s n e t)
  then show ?case using dd_tick_inv by blast
qed (simp_all add: dd_show_only dd_hide_only dd_toggle_only dd_update_inv dd_dispose_inv clearMenus_inv)


text \<open>
  C19: toggle, menu and popper stay in step.  Whatever sequence of calls, clicks, key presses, popper
  updates and disposals a page with closed dropdowns goes through, for every dropdown the class
  \<open>show\<close> and \<open>aria-expanded\<close> of the toggle say whether the menu is shown, the popper of a shown menu
  is in use, and a hidden menu has no popper that listens to anything.
\<close>

theorem dropdown_in_step:
  assumes "dd_reach json dh h v s" "dinsts s e = Some d"
  shows "has_class (dp s) e ''show'' = dd_isShown (dp s) d
    \<and> (getAttribute (dp s) e ''aria-expanded'' = Some ''true'') = dd_isShown (dp s) d
    \<and> (if dd_isShown (dp s) d then \<exists>i. dd_popper d = Some i \<and> \<not> pi_destroyed i
       else \<forall>i. dd_popper d = Some i \<longrightarrow> pi_destroyed i \<and> pi_listening i = [])"
proof -
  have "dd_sync (dp s) e d" using reach_inv [OF assms(1)] assms(2) by (simp add: dd_inv_def)
  then show ?thesis
    by (cases "dd_popper d") (auto simp: dd_sync_def live_on_def tracked_def given_up_def split: if_splits)
qed


section \<open>The keyboard\<close>

text \<open>The arrow keys always find an item: \<open>_selectMenuItem\<close> never calls \<open>focus\<close> on \<open>undefined\<close>.\<close>

lemma select_focuses_item:
  obtains q where "selectMenuItem h key target d p = Some q"
    "menu_items h p d = [] \<and> q = p \<or> (\<exists>x \<in> set (menu_items h p d). q = focus_el x p)"
  using next_active_Some [of "menu_items h p d" target "key = ''ArrowDown''" "target \<notin> set (menu_items h p d)"]
  by (cases "menu_items h p d = []") (auto simp: selectMenuItem_def, blast)


lemma show_page:
  assumes "dd_inv s" "dinsts s e = Some d" "\<not> isDisabled h (dp s) (Some e)" "\<not> dd_isShown (dp s) d"
    "\<not> prevented_by h e ''show.bs.dropdown'' (dp s)"
  obtains d1 q where "dinsts (dd_show dh h v e s) e = Some d1" "dd_menu d1 = dd_menu d" "dd_cfg d1 = dd_cfg d"
    "same_outside (dd_menu d) (dp s) q" "dp (dd_show dh h v e s) = triggering h e ''shown.bs.dropdown''
      (add_class e ''show'' (add_class (dd_menu d) ''show'' (setAttribute e ''aria-expanded'' (bool_str True) (focus_el e q))))"
proof -
  obtain d1 q where c: "dd_createPopper dh h v e d (triggering h e ''show.bs.dropdown'' (dp s)) = (d1, q)" by fastforce
  note m = createPopper_page [OF c dd_menu_other [OF assms(1,2)]]
  have "dd_cfg d1 = dd_cfg d" using c by (auto simp: dd_createPopper_def Let_def split: prod.splits)
  moreover have "same_outside (dd_menu d) (dp s) q" using m by (simp add: same_outside_def dom_simps)
  ultimately show thesis using that [of d1 q] assms(2-5) m by (simp add: dd_show_def Let_def c set_dd_def)
qed

lemma show_opens:
  assumes "dd_inv s" "dinsts s e = Some d"
  obtains d' where "dinsts (dd_show dh h v e s) e = Some d'" "dd_menu d' = dd_menu d"
    "\<not> isDisabled h (dp s) (Some e) \<and> \<not> prevented_by h e ''show.bs.dropdown'' (dp s)
     \<longrightarrow> has_class (dp (dd_show dh h v e s)) (dd_menu d) ''show''"
proof (cases "isDisabled h (dp s) (Some e) \<or> dd_isShown (dp s) d \<or> prevented_by h e ''show.bs.dropdown'' (dp s)")
  case True
  then show thesis using that [of d] assms(2) by (auto simp: dd_show_def Let_def dd_isShown_def)
next
  case False
  with show_page [OF assms, of h dh v] that show thesis by (metis has_class_writes(1) trigger_frame(4))
qed

lemma menu_items_menu: "dd_menu d' = dd_menu d \<Longrightarrow> menu_items h p d' = menu_items h p d"
  by (simp add: menu_items_def)

text \<open>
  An arrow key on a toggle or its menu, outside text inputs, opens the menu unless the toggle is
  disabled or a listener objects, and moves the focus to an item of the menu when there is a
  visible enabled one.  The handler claims the event and never throws.
\<close>

theorem arrow_key_opens_and_focuses:
  assumes "dd_reach json dh h v s" "getToggleButton (dp s) this = Some b" "dinsts s b = Some d"
    and "u_key ev \<in> {''ArrowUp'', ''ArrowDown''}" "\<not> tag_test [''input'', ''textarea''] (dp s) (u_target ev)"
    and "items = menu_items h (dp (dd_show dh h v b s)) d"
  shows "\<exists>t. dataApiKeydownHandler json dh h v ev this s = \<lparr>k_prevented = True, k_stopped = True, k_state = Some t\<rparr>
    \<and> (isDisabled h (dp s) (Some b) \<or> prevented_by h b ''show.bs.dropdown'' (dp s) \<or> has_class (dp t) (dd_menu d) ''show'')
    \<and> (items = [] \<or> (\<exists>x \<in> set items. focused (dp t) = Some x))"
proof -
  let ?s = "dd_show dh h v b s"
  obtain d' where d': "dinsts ?s b = Some d'" "dd_menu d' = dd_menu d"
    "\<not> isDisabled h (dp s) (Some b) \<and> \<not> prevented_by h b ''show.bs.dropdown'' (dp s) \<longrightarrow> has_class (dp ?s) (dd_menu d) ''show''"
    using show_opens [OF reach_inv [OF assms(1)] assms(3), of dh h v] by blast
  obtain q where q: "selectMenuItem h (u_key ev) (u_target ev) d' (dp ?s) = Some q"
    "items = [] \<and> q = dp ?s \<or> (\<exists>x \<in> set items. q = focus_el x (dp ?s))"
    using select_focuses_item [of h "u_key ev" "u_target ev" d' "dp ?s"] menu_items_menu [OF d'(2)] assms(6) by metis
  have "dataApiKeydownHandler json dh h v ev this s = \<lparr>k_prevented = True, k_stopped = True, k_state = Some (?s\<lparr>dp := q\<rparr>)\<rparr>"
    using assms(2-5) d'(1) q(1) by (simp add: dataApiKeydownHandler_def Let_def dd_get_or_create_def)
  moreover have "has_class q (dd_menu d) ''show'' = has_class (dp ?s) (dd_menu d) ''show''" using q(2) by (auto simp: dom_simps)
  ultimately show ?thesis using d'(3) q(2) by (auto simp: dom_simps)
qed

section \<open>A page with two dropdowns\<close>

definition dd_page :: page where
  "dd_page = \<lparr>tree = Elem 1 [Elem 2 [Elem 3 [], Elem 4 [Elem 5 []]], Elem 6 [Elem 7 [], Elem 8 []], Elem 9 []],
     nodes = (\<lambda>e. \<lparr>tagName = (if e = 3 \<or> e = 7 then ''button'' else ''div''),
       classList = (if e = 4 \<or> e = 8 then [''dropdown-menu''] else if e = 5 then [''dropdown-item''] else []),
       attributes = (if e = 3 \<or> e = 7 then [(''data-bs-toggle'', ''dropdown'')] else []), style = (\<lambda>_. []), textContent = []\<rparr>),
     focused = None, ev_log = []\<rparr>"

definition dd_demo_host :: dd_host where
  "dd_demo_host = \<lparr>layout = (\<lambda>_. low_env), style_text = (\<lambda>_. []), offset_fn = (\<lambda>_ _ _ _ _. (0, 0)), spread_config = (\<lambda>_ c. c)\<rparr>"

abbreviation dd_start :: dds where
  "dd_start \<equiv> \<lparr>dp = dd_page, dinsts = (\<lambda>_. None), d_noops = []\<rparr>"

definition dd_first :: dropdown where
  "dd_first = \<lparr>dd_menu = 4, dd_parent = 2, dd_inNavbar = False, dd_popper = None,
     dd_cfg = dd_default @ [(''toggle'', JStr ''dropdown'')]\<rparr>"

definition dd_made :: dds where
  "dd_made = set_dd 3 dd_first dd_start"

definition dd_open :: dds where
  "dd_open = dd_show dd_demo_host scroll_host scroll_view 3 dd_made"

lemma made_reach: "dd_reach (\<lambda>_. None) dd_demo_host scroll_host scroll_view dd_made"
proof (rule dd_reach.making)
  show "dd_reach (\<lambda>_. None) dd_demo_host scroll_host scroll_view dd_start" by (rule dd_reach.start) simp
  have "dd_getConfig (\<lambda>_. None) scroll_host dd_page 3 JNull = Inr (dd_default @ [(''toggle'', JStr ''dropdown'')])" "parentNode dd_page 3 = Some 2"
    "find_menu dd_page 3 2 = Some 4" "\<not> detectNavbar dd_page 3" by code_simp+
  then show "dd_new (\<lambda>_. None) scroll_host 3 JNull dd_start = Some dd_made"
    by (simp add: dd_new_def dd_made_def dd_first_def) (simp add: dd_default_def js_get_def)
  show "closed_markup 3 dd_start dd_made"
    by (simp add: closed_markup_def dd_made_def set_dd_def dd_first_def dd_isShown_def has_class_def getAttribute_def dd_page_def)
qed

lemma open_reach: "dd_reach (\<lambda>_. None) dd_demo_host scroll_host scroll_view dd_open"
  unfolding dd_open_def by (rule dd_reach.showing [OF made_reach])

lemma open_state:
  obtains d where "dinsts dd_open 3 = Some d" "dd_menu d = 4" "dd_cfg d = dd_cfg dd_first" "tree (dp dd_open) = tree dd_page"
    "\<And>x. tagName (nodes (dp dd_open) x) = tagName (nodes dd_page x)" "has_class (dp dd_open) 4 ''show''"
    "getAttribute (dp dd_open) 3 ''data-bs-toggle'' = Some ''dropdown''" "getAttribute (dp dd_open) 3 ''disabled'' = None"
    "\<not> has_class (dp dd_open) 3 ''disabled''"
proof -
  have c: "dinsts dd_made 3 = Some dd_first" "dp dd_made = dd_page" by (simp_all add: dd_made_def set_dd_def)
  have "\<not> isDisabled scroll_host dd_page (Some 3)" "\<not> dd_isShown dd_page dd_first" "\<not> prevented_by scroll_host 3 ''show.bs.dropdown'' dd_page"
    "getAttribute dd_page 3 ''data-bs-toggle'' = Some ''dropdown''" "getAttribute dd_page 3 ''disabled'' = None" "\<not> has_class dd_page 3 ''disabled''"
    by code_simp+
  note o1 = this
  have m: "dd_menu dd_first = 4" by (simp add: dd_first_def)
  from show_page [OF reach_inv [OF made_reach] c(1), of scroll_host dd_demo_host scroll_view] obtain d1 q where
    d1: "dinsts dd_open 3 = Some d1" "dd_menu d1 = 4" "dd_cfg d1 = dd_cfg dd_first" and q: "same_outside 4 dd_page q"
    "dp dd_open = triggering scroll_host 3 ''shown.bs.dropdown''
      (add_class 3 ''show'' (add_class 4 ''show'' (setAttribute 3 ''aria-expanded'' (bool_str True) (focus_el 3 q))))"
    using o1(1-3) unfolding c(2) m dd_open_def [symmetric] by metis
  show thesis using that [OF d1] q(1) o1(4-6) unfolding q(2) by (simp add: same_outside_def dom_simps)
qed

theorem dropdown_in_step_witness:
  "has_class (dp dd_open) 4 ''show'' \<and> has_class (dp dd_open) 3 ''show'' \<and> getAttribute (dp dd_open) 3 ''aria-expanded'' = Some ''true''"
proof -
  obtain d where d: "dinsts dd_open 3 = Some d" "dd_menu d = 4" "has_class (dp dd_open) 4 ''show''" by (rule open_state)
  from dropdown_in_step [OF open_reach d(1)] d(2,3) show ?thesis by (simp add: dd_isShown_def)
qed

definition click_outside :: ui_event where
  "click_outside = \<lparr>u_type = ''click'', u_button = Some 0, u_key = [], u_target = 9, u_path = [9, 1]\<rparr>"


definition press_down :: ui_event where
  "press_down = \<lparr>u_type = ''keydown'', u_button = None, u_key = ''ArrowDown'', u_target = 3, u_path = [3, 2, 1]\<rparr>"

theorem arrow_key_opens_and_focuses_witness:
  "\<exists>t. k_state (dataApiKeydownHandler (\<lambda>_. None) dd_demo_host scroll_host scroll_view press_down 3 dd_made) = Some t
    \<and> has_class (dp t) 4 ''show''"
proof -
  have *: "getToggleButton (dp dd_made) 3 = Some 3" "\<not> tag_test [''input'', ''textarea''] (dp dd_made) (u_target press_down)"
    "\<not> isDisabled scroll_host (dp dd_made) (Some 3)" "\<not> prevented_by scroll_host 3 ''show.bs.dropdown'' (dp dd_made)" by code_simp+
  have f: "dinsts dd_made 3 = Some dd_first" "u_key press_down \<in> {''ArrowUp'', ''ArrowDown''}" "dd_menu dd_first = 4"
    by (simp_all add: dd_made_def set_dd_def press_down_def dd_first_def)
  from arrow_key_opens_and_focuses [OF made_reach *(1) f(1,2) *(2) refl, unfolded f(3)] *(3,4)
  show ?thesis by (elim exE conjE) (intro exI conjI, simp_all)
qed

end
