(* ===== verification/Bs_Modal.thy ===== *)
theory Bs_Modal
  imports Bs_Overlay "HOL-Library.Multiset"
begin

text \<open>
  Bootstrap's \<open>modal.js\<close> in \<open>bootstrap.bundle.js\<close>.  The state holds the instances of all modals of
  the page, since they share the body, the document's focus handlers and the window's resize
  handlers.  Callbacks behind transitions are a datatype; \<open>modal_transition_end\<close> runs the ones that
  wait for an element.  Scroll positions are not part of the page, and a modal that is not in the
  document when it is shown has no representation of its content.
\<close>

section \<open>State\<close>

record modal =
  m_dialog :: elem
  m_backdrop :: backdrop
  m_focustrap :: focustrap
  m_isShown :: bool
  m_isTransitioning :: bool
  m_cfgBackdrop :: jsval
  m_cfgFocus :: bool
  m_cfgKeyboard :: bool
  m_downs :: "elem list"

text \<open>
  The closures behind transitions: the callback \<open>show\<close> gives the backdrop, \<open>transitionComplete\<close>,
  \<open>_hideModal\<close>, the callback \<open>_hideModal\<close> gives the backdrop, and the two of
  \<open>_triggerBackdropTransition\<close> with the value of \<open>overflow-y\<close> they captured.
\<close>

datatype modal_callback =
    BackdropShown elem
  | TransitionComplete elem
  | HideModal elem
  | BackdropHidden elem
  | StaticDone elem string
  | StaticRestore elem string

text \<open>
  \<open>m_owner\<close> is the trap whose handlers are on the document, \<open>m_resizers\<close> the modals with a resize
  handler on the window.  \<open>m_onshow\<close> and \<open>m_onhidden\<close> are the one-time handlers of the data API that
  give the focus back to the toggler (modal, toggler).
\<close>

record mdl =
  mp :: page
  minsts :: "elem \<Rightarrow> modal option"
  m_pending :: "modal_callback pending"
  m_owner :: "elem option"
  m_fresh :: elem
  m_resizers :: "elem list"
  m_onshow :: "(elem \<times> elem) list"
  m_onhidden :: "(elem \<times> elem) list"

definition set_inst :: "elem \<Rightarrow> modal \<Rightarrow> mdl \<Rightarrow> mdl" where
  "set_inst e m s = s\<lparr>minsts := (minsts s)(e \<mapsto> m)\<rparr>"

definition m_isAnimated :: "page \<Rightarrow> elem \<Rightarrow> bool" where
  "m_isAnimated p e = has_class p e ''fade''"

text \<open>\<open>_queueCallback\<close>: behind the transition of an element, or at once.\<close>

definition m_queue :: "modal_callback \<Rightarrow> elem \<Rightarrow> bool \<Rightarrow> (mdl \<Rightarrow> mdl) \<Rightarrow> mdl \<Rightarrow> mdl" where
  "m_queue cb x isAnimated run s = (if isAnimated then s\<lparr>m_pending := m_pending s @ [(x, cb)]\<rparr> else run s)"

definition m_when :: "modal_callback \<Rightarrow> moment \<Rightarrow> (mdl \<Rightarrow> mdl) \<Rightarrow> mdl \<Rightarrow> mdl" where
  "m_when cb w run s = (case w of Now \<Rightarrow> run s | After x \<Rightarrow> s\<lparr>m_pending := m_pending s @ [(x, cb)]\<rparr>)"

section \<open>Overflowing modals\<close>

definition adjustDialog :: "host \<Rightarrow> view \<Rightarrow> elem \<Rightarrow> page \<Rightarrow> page" where
  "adjustDialog h v e p =
     (let isModalOverflowing = scrollHeight v p e > docHeight v p;
          scrollbarWidth = getWidth v p;
          isBodyOverflowing = scrollbarWidth > 0;
          p1 = (if isBodyOverflowing \<and> \<not> isModalOverflowing
                then setStyle e (if rtl h then ''padding-left'' else ''padding-right'') (px v (Some scrollbarWidth)) p else p)
      in if \<not> isBodyOverflowing \<and> isModalOverflowing
         then setStyle e (if rtl h then ''padding-right'' else ''padding-left'') (px v (Some scrollbarWidth)) p1 else p1)"

definition resetAdjustments :: "elem \<Rightarrow> page \<Rightarrow> page" where
  "resetAdjustments e p = setStyle e ''padding-right'' [] (setStyle e ''padding-left'' [] p)"

section \<open>Showing\<close>

definition transitionComplete :: "host \<Rightarrow> elem \<Rightarrow> mdl \<Rightarrow> mdl" where
  "transitionComplete h e s =
     (case minsts s e of
        None \<Rightarrow> s
      | Some m \<Rightarrow>
          (let (t, owner, p) = (if m_cfgFocus m then activate (m_focustrap m) (m_owner s) (mp s) else (m_focustrap m, m_owner s, mp s))
           in (set_inst e (m\<lparr>m_focustrap := t, m_isTransitioning := False\<rparr>) s)
                \<lparr>m_owner := owner, mp := triggering h e ''shown.bs.modal'' p\<rparr>))"

definition showElement :: "host \<Rightarrow> view \<Rightarrow> elem \<Rightarrow> mdl \<Rightarrow> mdl" where
  "showElement h v e s =
     (case minsts s e of
        None \<Rightarrow> s
      | Some m \<Rightarrow>
          (let p1 = (if \<not> contains (mp s) (body v) e then append_el (body v) e (mp s) else mp s);
               p2 = setStyle e ''display'' ''block'' p1;
               p3 = setAttribute e ''role'' ''dialog'' (setAttribute e ''aria-modal'' (bool_str True) (removeAttribute e ''aria-hidden'' p2));
               p4 = add_class e ''show'' p3
           in m_queue (TransitionComplete e) (m_dialog m) (m_isAnimated p4 e) (transitionComplete h e) (s\<lparr>mp := p4\<rparr>)))"

text \<open>The one-time handlers of the \<open>show\<close> event: each is used up, and arms its \<open>hidden\<close> handler unless the event was vetoed.\<close>

definition fire_onshow :: "bool \<Rightarrow> elem \<Rightarrow> mdl \<Rightarrow> mdl" where
  "fire_onshow vetoed e s =
     s\<lparr>m_onshow := filter (\<lambda>x. fst x \<noteq> e) (m_onshow s),
       m_onhidden := (if vetoed then m_onhidden s else m_onhidden s @ filter (\<lambda>x. fst x = e) (m_onshow s))\<rparr>"

definition modal_show :: "host \<Rightarrow> view \<Rightarrow> elem \<Rightarrow> mdl \<Rightarrow> mdl" where
  "modal_show h v e s =
     (case minsts s e of
        None \<Rightarrow> s
      | Some m \<Rightarrow>
          if m_isShown m \<or> m_isTransitioning m then s
          else (let vetoed = prevented_by h e ''show.bs.modal'' (mp s);
                    p1 = triggering h e ''show.bs.modal'' (mp s);
                    s1 = fire_onshow vetoed e (s\<lparr>mp := p1\<rparr>)
                in if vetoed then s1
                   else (let p2 = adjustDialog h v e (add_class (body v) ''modal-open'' (scroll_hide v p1));
                             (w, b, fresh, p3) = bd_show (m_backdrop m) (m_fresh s) p2;
                             s2 = (set_inst e (m\<lparr>m_isShown := True, m_isTransitioning := True, m_backdrop := b\<rparr>) s1)\<lparr>mp := p3, m_fresh := fresh\<rparr>
                         in m_when (BackdropShown e) w (showElement h v e) s2)))"

section \<open>Hiding\<close>

text \<open>The one-time handlers of the \<open>hidden\<close> event: a visible toggler gets the focus.\<close>

definition fire_onhidden :: "host \<Rightarrow> elem \<Rightarrow> mdl \<Rightarrow> mdl" where
  "fire_onhidden h e s =
     s\<lparr>m_onhidden := filter (\<lambda>x. fst x \<noteq> e) (m_onhidden s),
       mp := foldl (\<lambda>p x. if isVisible h p (JElem (snd x)) then focus_el (snd x) p else p) (mp s) (filter (\<lambda>x. fst x = e) (m_onhidden s))\<rparr>"

definition backdropHidden :: "(string \<Rightarrow> jsval option) \<Rightarrow> host \<Rightarrow> view \<Rightarrow> elem \<Rightarrow> mdl \<Rightarrow> mdl" where
  "backdropHidden json h v e s =
     (case minsts s e of
        None \<Rightarrow> s
      | Some m \<Rightarrow>
          (let (b, p1) = bd_hidden (m_backdrop m) (mp s);
               p2 = scroll_reset json v (resetAdjustments e (remove_class (body v) ''modal-open'' p1))
           in fire_onhidden h e ((set_inst e (m\<lparr>m_backdrop := b\<rparr>) s)\<lparr>mp := triggering h e ''hidden.bs.modal'' p2\<rparr>)))"

definition hideModal :: "(string \<Rightarrow> jsval option) \<Rightarrow> host \<Rightarrow> view \<Rightarrow> elem \<Rightarrow> mdl \<Rightarrow> mdl" where
  "hideModal json h v e s =
     (case minsts s e of
        None \<Rightarrow> s
      | Some m \<Rightarrow>
          (let p1 = setStyle e ''display'' ''none'' (mp s);
               p2 = removeAttribute e ''role'' (removeAttribute e ''aria-modal'' (setAttribute e ''aria-hidden'' (bool_str True) p1));
               (w, b, fresh, p3) = bd_hide (m_backdrop m) (m_fresh s) p2;
               s1 = (set_inst e (m\<lparr>m_isTransitioning := False, m_backdrop := b\<rparr>) s)\<lparr>mp := p3, m_fresh := fresh\<rparr>
           in m_when (BackdropHidden e) w (backdropHidden json h v e) s1))"

definition modal_hide :: "(string \<Rightarrow> jsval option) \<Rightarrow> host \<Rightarrow> view \<Rightarrow> elem \<Rightarrow> mdl \<Rightarrow> mdl" where
  "modal_hide json h v e s =
     (case minsts s e of
        None \<Rightarrow> s
      | Some m \<Rightarrow>
          if \<not> m_isShown m \<or> m_isTransitioning m then s
          else (let p1 = triggering h e ''hide.bs.modal'' (mp s)
                in if prevented_by h e ''hide.bs.modal'' (mp s) then s\<lparr>mp := p1\<rparr>
                   else (let (t, owner) = deactivate (m_focustrap m) (m_owner s);
                             p2 = remove_class e ''show'' p1;
                             s1 = (set_inst e (m\<lparr>m_isShown := False, m_isTransitioning := True, m_focustrap := t\<rparr>) s)\<lparr>m_owner := owner, mp := p2\<rparr>
                         in m_queue (HideModal e) e (m_isAnimated p2 e) (hideModal json h v e) s1)))"

definition modal_toggle :: "(string \<Rightarrow> jsval option) \<Rightarrow> host \<Rightarrow> view \<Rightarrow> elem \<Rightarrow> mdl \<Rightarrow> mdl" where
  "modal_toggle json h v e s =
     (if (case minsts s e of None \<Rightarrow> False | Some m \<Rightarrow> m_isShown m) then modal_hide json h v e s else modal_show h v e s)"

definition handleUpdate :: "host \<Rightarrow> view \<Rightarrow> elem \<Rightarrow> mdl \<Rightarrow> mdl" where
  "handleUpdate h v e s = s\<lparr>mp := adjustDialog h v e (mp s)\<rparr>"

section \<open>The static backdrop\<close>

definition triggerBackdropTransition :: "host \<Rightarrow> view \<Rightarrow> elem \<Rightarrow> mdl \<Rightarrow> mdl" where
  "triggerBackdropTransition h v e s =
     (case minsts s e of
        None \<Rightarrow> s
      | Some m \<Rightarrow>
          (let p1 = triggering h e ''hidePrevented.bs.modal'' (mp s);
               isModalOverflowing = scrollHeight v p1 e > docHeight v p1;
               initialOverflowY = getStyle p1 e ''overflow-y''
           in if prevented_by h e ''hidePrevented.bs.modal'' (mp s) then s\<lparr>mp := p1\<rparr>
              else if initialOverflowY = ''hidden'' \<or> has_class p1 e ''modal-static'' then s\<lparr>mp := p1\<rparr>
              else (let p2 = (if \<not> isModalOverflowing then setStyle e ''overflow-y'' ''hidden'' p1 else p1)
                    in s\<lparr>mp := focus_el e (add_class e ''modal-static'' p2),
                         m_pending := m_pending s @ [(m_dialog m, StaticDone e initialOverflowY)]\<rparr>)))"

text \<open>Running a callback whose transition has ended.\<close>

fun modal_call :: "(string \<Rightarrow> jsval option) \<Rightarrow> host \<Rightarrow> view \<Rightarrow> mdl \<Rightarrow> modal_callback \<Rightarrow> mdl" where
  "modal_call json h v s (BackdropShown e) = showElement h v e s"
| "modal_call json h v s (TransitionComplete e) = transitionComplete h e s"
| "modal_call json h v s (HideModal e) = hideModal json h v e s"
| "modal_call json h v s (BackdropHidden e) = backdropHidden json h v e s"
| "modal_call json h v s (StaticDone e initialOverflowY) =
     (case minsts s e of
        None \<Rightarrow> s
      | Some m \<Rightarrow> s\<lparr>mp := remove_class e ''modal-static'' (mp s), m_pending := m_pending s @ [(m_dialog m, StaticRestore e initialOverflowY)]\<rparr>)"
| "modal_call json h v s (StaticRestore e initialOverflowY) = s\<lparr>mp := setStyle e ''overflow-y'' initialOverflowY (mp s)\<rparr>"

definition modal_transition_end :: "(string \<Rightarrow> jsval option) \<Rightarrow> host \<Rightarrow> view \<Rightarrow> elem \<Rightarrow> mdl \<Rightarrow> mdl" where
  "modal_transition_end json h v x s = foldl (modal_call json h v) (s\<lparr>m_pending := not_due x (m_pending s)\<rparr>) (due x (m_pending s))"

section \<open>Events\<close>

definition modal_keydown :: "(string \<Rightarrow> jsval option) \<Rightarrow> host \<Rightarrow> view \<Rightarrow> string \<Rightarrow> elem \<Rightarrow> mdl \<Rightarrow> mdl" where
  "modal_keydown json h v key e s =
     (case minsts s e of
        None \<Rightarrow> s
      | Some m \<Rightarrow>
          if key \<noteq> ''Escape'' then s
          else if m_cfgKeyboard m then modal_hide json h v e s
          else triggerBackdropTransition h v e s)"

definition modal_resize :: "host \<Rightarrow> view \<Rightarrow> mdl \<Rightarrow> mdl" where
  "modal_resize h v s =
     foldl (\<lambda>t e. case minsts t e of
         None \<Rightarrow> t
       | Some m \<Rightarrow> if m_isShown m \<and> \<not> m_isTransitioning m then t\<lparr>mp := adjustDialog h v e (mp t)\<rparr> else t) s (m_resizers s)"

text \<open>
  A \<open>mousedown\<close> adds a one-time click handler that remembers where the button went down; the next
  click runs them all.
\<close>

definition modal_mousedown :: "elem \<Rightarrow> elem \<Rightarrow> mdl \<Rightarrow> mdl" where
  "modal_mousedown e target s =
     (case minsts s e of None \<Rightarrow> s | Some m \<Rightarrow> set_inst e (m\<lparr>m_downs := m_downs m @ [target]\<rparr>) s)"

definition click_dismiss :: "(string \<Rightarrow> jsval option) \<Rightarrow> host \<Rightarrow> view \<Rightarrow> elem \<Rightarrow> elem \<Rightarrow> mdl \<Rightarrow> elem \<Rightarrow> mdl" where
  "click_dismiss json h v e target2 s target =
     (case minsts s e of
        None \<Rightarrow> s
      | Some m \<Rightarrow>
          if e \<noteq> target \<or> e \<noteq> target2 then s
          else if m_cfgBackdrop m = JStr ''static'' then triggerBackdropTransition h v e s
          else if js_truthy (m_cfgBackdrop m) then modal_hide json h v e s
          else s)"

definition modal_click :: "(string \<Rightarrow> jsval option) \<Rightarrow> host \<Rightarrow> view \<Rightarrow> elem \<Rightarrow> elem \<Rightarrow> mdl \<Rightarrow> mdl" where
  "modal_click json h v e target2 s =
     (case minsts s e of
        None \<Rightarrow> s
      | Some m \<Rightarrow> foldl (click_dismiss json h v e target2) (set_inst e (m\<lparr>m_downs := []\<rparr>) s) (m_downs m))"

section \<open>Instances\<close>

definition modal_default :: config where
  "modal_default = [(''backdrop'', JBool True), (''focus'', JBool True), (''keyboard'', JBool True)]"

definition modal_defaultType :: "(string \<times> string) list" where
  "modal_defaultType = [(''backdrop'', ''(boolean|string)''), (''focus'', ''boolean''), (''keyboard'', ''boolean'')]"

definition initializeBackDrop :: "view \<Rightarrow> page \<Rightarrow> elem \<Rightarrow> config \<Rightarrow> backdrop" where
  "initializeBackDrop v p e c = new_backdrop ''modal-backdrop'' (js_truthy (js_get c ''backdrop'')) (m_isAnimated p e) (body v)"

text \<open>
  The constructor.  It fails with a type error of the configuration; a modal without a dialog
  element, which only fails when it is shown, is left out.
\<close>

definition modal_new :: "(string \<Rightarrow> jsval option) \<Rightarrow> host \<Rightarrow> view \<Rightarrow> elem \<Rightarrow> jsval \<Rightarrow> mdl \<Rightarrow> mdl option" where
  "modal_new json h v e config s =
     (case getConfig h json (mp s) ''modal'' modal_default modal_defaultType id config (Some e) of
        Inl err \<Rightarrow> None
      | Inr c \<Rightarrow>
          (case SE_findOne (mp s) e [[[SelClass ''modal-dialog'']]] of
             None \<Rightarrow> None
           | Some d \<Rightarrow>
               Some ((set_inst e \<lparr>m_dialog = d, m_backdrop = initializeBackDrop v (mp s) e c, m_focustrap = new_trap e,
                        m_isShown = False, m_isTransitioning = False, m_cfgBackdrop = js_get c ''backdrop'',
                        m_cfgFocus = js_truthy (js_get c ''focus''), m_cfgKeyboard = js_truthy (js_get c ''keyboard''), m_downs = []\<rparr> s)
                     \<lparr>m_resizers := m_resizers s @ [e]\<rparr>)))"

text \<open>
  \<open>dispose\<close>: \<open>EventHandler.off(window, '.bs.modal')\<close> takes the resize handlers of all modals off the
  window.
\<close>

definition modal_dispose :: "elem \<Rightarrow> mdl \<Rightarrow> mdl" where
  "modal_dispose e s =
     (case minsts s e of
        None \<Rightarrow> s
      | Some m \<Rightarrow>
          (let (b, p) = bd_dispose (m_backdrop m) (mp s); (t, owner) = deactivate (m_focustrap m) (m_owner s)
           in s\<lparr>mp := p, m_owner := owner, m_resizers := [], minsts := (minsts s)(e := None)\<rparr>))"

text \<open>
  The data API: the toggler remembers to take the focus back, an open modal is told to hide, and
  the target is toggled.  \<open>None\<close> is an exception: a selector the browser refuses, an open modal or
  a target without an instance.
\<close>

definition modal_get_or_create :: "(string \<Rightarrow> jsval option) \<Rightarrow> host \<Rightarrow> view \<Rightarrow> elem \<Rightarrow> mdl \<Rightarrow> mdl option" where
  "modal_get_or_create json h v e s = (if minsts s e \<noteq> None then Some s else modal_new json h v e JNull s)"

definition modal_api_click :: "(string \<Rightarrow> jsval option) \<Rightarrow> host \<Rightarrow> view \<Rightarrow> elem \<Rightarrow> mdl \<Rightarrow> bool \<times> mdl option" where
  "modal_api_click json h v this s =
     (tagName (nodes (mp s) this) \<in> {''A'', ''AREA''},
      case getElementFromSelector h (mp s) this of
        None \<Rightarrow> None
      | Some None \<Rightarrow> None
      | Some (Some target) \<Rightarrow>
          (let s1 = s\<lparr>m_onshow := m_onshow s @ [(target, this)]\<rparr>;
               opened = SE_findOne (mp s) (doc_root (mp s)) [[[SelClass ''modal'', SelClass ''show'']]]
           in (case opened of
                 None \<Rightarrow> map_option (modal_toggle json h v target) (modal_get_or_create json h v target s1)
               | Some o1 \<Rightarrow>
                   if minsts s1 o1 = None then None
                   else map_option (modal_toggle json h v target) (modal_get_or_create json h v target (modal_hide json h v o1 s1)))))"

section \<open>Transitions are tracked\<close>

text \<open>The callbacks that end a transition of a modal.\<close>

fun ends :: "elem \<Rightarrow> modal_callback \<Rightarrow> bool" where
  "ends e (BackdropShown x) = (x = e)"
| "ends e (TransitionComplete x) = (x = e)"
| "ends e (HideModal x) = (x = e)"
| "ends e _ = False"

text \<open>
  What the invariant speaks about: the flags of an instance, the pending callbacks that end its
  transition (\<open>rest\<close> are callbacks that have been taken off the list and are about to run), and
  whether the element has the class \<open>show\<close>.
\<close>

definition flags :: "mdl \<Rightarrow> elem \<Rightarrow> (bool \<times> bool) option" where
  "flags s e = map_option (\<lambda>m. (m_isShown m, m_isTransitioning m)) (minsts s e)"

definition ending :: "modal_callback list \<Rightarrow> mdl \<Rightarrow> elem \<Rightarrow> modal_callback multiset" where
  "ending rest s e = filter_mset (ends e) (mset rest + mset (map snd (m_pending s)))"

definition tracked_core :: "elem \<Rightarrow> (bool \<times> bool) option \<Rightarrow> modal_callback multiset \<Rightarrow> bool \<Rightarrow> bool" where
  "tracked_core e f ms c =
     (case f of
        None \<Rightarrow> True
      | Some (sh, tr) \<Rightarrow>
          if tr then ms = {#TransitionComplete e#} \<and> sh \<and> c \<or> ms = {#BackdropShown e#} \<and> sh \<and> \<not> c \<or> ms = {#HideModal e#} \<and> \<not> sh \<and> \<not> c
          else ms = {#} \<and> c = sh)"

definition modal_tracked :: "modal_callback list \<Rightarrow> mdl \<Rightarrow> elem \<Rightarrow> bool" where
  "modal_tracked rest s e = tracked_core e (flags s e) (ending rest s e) (has_class (mp s) e ''show'')"

text \<open>Backdrop elements are created by the modals and are no modals themselves.\<close>

definition modal_wf :: "mdl \<Rightarrow> bool" where
  "modal_wf s = (\<forall>e m. minsts s e = Some m \<longrightarrow> e < m_fresh s
     \<and> (\<forall>b. bd_element (m_backdrop m) = Some b \<longrightarrow> b < m_fresh s \<and> minsts s b = None))"

definition modal_inv :: "modal_callback list \<Rightarrow> mdl \<Rightarrow> bool" where
  "modal_inv rest s = (modal_wf s \<and> (\<forall>e. modal_tracked rest s e))"

text \<open>An operation on one modal keeps what is tracked of the others.\<close>

definition only :: "elem \<Rightarrow> mdl \<Rightarrow> mdl \<Rightarrow> bool" where
  "only e s s' = (modal_wf s' \<and> dom (minsts s') = dom (minsts s)
     \<and> (\<forall>x rest. x \<noteq> e \<longrightarrow> minsts s x \<noteq> None \<longrightarrow> flags s' x = flags s x \<and> ending rest s' x = ending rest s x
          \<and> has_class (mp s') x ''show'' = has_class (mp s) x ''show''))"

lemma only_trans: "only e s s' \<Longrightarrow> only e s' s'' \<Longrightarrow> only e s s''"
  unfolding only_def by (metis domIff)

lemma adjust_classes [dom_simps]:
  "has_class (adjustDialog h v e p) x c = has_class p x c" "has_class (resetAdjustments e p) x c = has_class p x c"
  by (simp_all add: adjustDialog_def resetAdjustments_def Let_def dom_simps)

text \<open>The shape all operations on one modal have.\<close>

lemma onlyI:
  assumes wf: "modal_wf s" and m: "minsts s e = Some m" and inst: "minsts s' = (minsts s)(e \<mapsto> m')" and fr: "m_fresh s \<le> m_fresh s'"
    and b: "\<And>y. bd_element (m_backdrop m') = Some y \<Longrightarrow> bd_element (m_backdrop m) = Some y \<or> y = m_fresh s \<and> m_fresh s' = Suc y"
    and cls: "\<And>x. x \<noteq> e \<Longrightarrow> minsts s x \<noteq> None \<Longrightarrow> has_class (mp s') x ''show'' = has_class (mp s) x ''show''"
    and pend: "m_pending s' = m_pending s \<or> (\<exists>y cb. m_pending s' = m_pending s @ [(y, cb)] \<and> (\<forall>x. x \<noteq> e \<longrightarrow> \<not> ends x cb))"
  shows "only e s s'"
proof -
  have none: "minsts s (m_fresh s) = None" using wf by (cases "minsts s (m_fresh s)") (auto simp: modal_wf_def)
  have e: "e < m_fresh s" using wf m by (simp add: modal_wf_def)
  have "modal_wf s'" unfolding modal_wf_def
  proof (intro allI impI)
    fix x n assume n: "minsts s' x = Some n"
    have "x < m_fresh s'" using n wf fr e unfolding inst modal_wf_def by (auto split: if_splits intro: less_le_trans)
    moreover have "y < m_fresh s' \<and> minsts s' y = None" if y: "bd_element (m_backdrop n) = Some y" for y
    proof (cases "bd_element (m_backdrop m) = Some y \<and> x = e \<or> x \<noteq> e")
      case True
      then have "y < m_fresh s \<and> minsts s y = None" using n y wf m unfolding inst modal_wf_def by (auto split: if_splits)
      then show ?thesis using fr e m unfolding inst by auto
    next
      case False
      then have "y = m_fresh s" "m_fresh s' = Suc y" using n y b unfolding inst by auto
      then show ?thesis using none e unfolding inst by auto
    qed
    ultimately show "x < m_fresh s' \<and> (\<forall>y. bd_element (m_backdrop n) = Some y \<longrightarrow> y < m_fresh s' \<and> minsts s' y = None)" by blast
  qed
  moreover have "ending rest s' x = ending rest s x" if "x \<noteq> e" for x rest using pend that by (auto simp: ending_def)
  ultimately show ?thesis using cls m by (auto simp: only_def flags_def inst)
qed

text \<open>The effect of an operation on the modal itself: its flags, the endings it adds, its class.\<close>

definition becomes :: "elem \<Rightarrow> mdl \<Rightarrow> mdl \<Rightarrow> (bool \<times> bool) \<Rightarrow> modal_callback multiset \<Rightarrow> bool \<Rightarrow> bool" where
  "becomes e s s' f new c =
     (only e s s' \<and> flags s' e = Some f \<and> (\<forall>rest. ending rest s' e = ending rest s e + new) \<and> has_class (mp s') e ''show'' = c)"

lemma becomes_trans: "becomes e s s' f a c \<Longrightarrow> becomes e s' s'' f' a' c' \<Longrightarrow> becomes e s s'' f' (a + a') c'"
  unfolding becomes_def by (auto intro: only_trans)

lemma transitionComplete_becomes:
  assumes "modal_wf s" "minsts s e = Some m"
  shows "becomes e s (transitionComplete h e s) (m_isShown m, False) {#} (has_class (mp s) e ''show'')"
proof -
  let ?t = "transitionComplete h e s"
  obtain t owner p where a: "(if m_cfgFocus m then activate (m_focustrap m) (m_owner s) (mp s) else (m_focustrap m, m_owner s, mp s)) = (t, owner, p)"
    by (metis prod_cases3)
  have c: "has_class p x cl = has_class (mp s) x cl" for x cl
    using a by (auto simp: activate_def dom_simps split: if_splits)
  have eq: "?t = (set_inst e (m\<lparr>m_focustrap := t, m_isTransitioning := False\<rparr>) s)\<lparr>m_owner := owner, mp := triggering h e ''shown.bs.modal'' p\<rparr>"
    using assms(2) a by (simp add: transitionComplete_def)
  have "only e s ?t"
    by (rule onlyI [OF assms, where m' = "m\<lparr>m_focustrap := t, m_isTransitioning := False\<rparr>"]) (simp_all add: eq set_inst_def c dom_simps)
  then show ?thesis by (simp add: becomes_def eq set_inst_def flags_def ending_def c dom_simps)
qed

lemma showElement_becomes:
  assumes "modal_wf s" "minsts s e = Some m"
  shows "becomes e s (showElement h v e s) (m_isShown m, m_isTransitioning m) {#TransitionComplete e#} True
    \<or> becomes e s (showElement h v e s) (m_isShown m, False) {#} True"
proof -
  define p where "p = add_class e ''show'' (setAttribute e ''role'' ''dialog'' (setAttribute e ''aria-modal'' (bool_str True)
     (removeAttribute e ''aria-hidden'' (setStyle e ''display'' ''block'' (if \<not> contains (mp s) (body v) e then append_el (body v) e (mp s) else mp s)))))"
  have c: "has_class p x cl = (if x = e \<and> cl = ''show'' then True else has_class (mp s) x cl)" for x cl
    by (auto simp: p_def dom_simps)
  let ?s = "s\<lparr>mp := p\<rparr>"
  have eq: "showElement h v e s = m_queue (TransitionComplete e) (m_dialog m) (m_isAnimated p e) (transitionComplete h e) ?s"
    using assms(2) by (simp add: showElement_def p_def Let_def)
  have only: "only e s ?s" by (rule onlyI [OF assms, where m' = m]) (auto simp: assms(2) c)
  then have wf: "modal_wf ?s" by (simp add: only_def)
  have b: "becomes e s ?s (m_isShown m, m_isTransitioning m) {#} True"
    using only assms(2) by (simp add: becomes_def flags_def ending_def c)
  show ?thesis
  proof (cases "m_isAnimated p e")
    case True
    have "only e s (showElement h v e s)" by (rule onlyI [OF assms, where m' = m]) (auto simp: eq m_queue_def True assms(2) c)
    then have "becomes e s (showElement h v e s) (m_isShown m, m_isTransitioning m) {#TransitionComplete e#} True"
      using assms(2) by (simp add: becomes_def eq m_queue_def True flags_def ending_def c)
    then show ?thesis ..
  next
    case False
    have "minsts ?s e = Some m" using assms(2) by simp
    from becomes_trans [OF b transitionComplete_becomes [OF wf this]] show ?thesis by (simp add: eq m_queue_def False c)
  qed
qed

lemma backdropHidden_becomes:
  assumes "modal_wf s" "minsts s e = Some m"
  shows "becomes e s (backdropHidden json h v e s) (m_isShown m, m_isTransitioning m) {#} (has_class (mp s) e ''show'')"
proof -
  obtain b p where bp: "bd_hidden (m_backdrop m) (mp s) = (b, p)" by fastforce
  note bh = backdrop_hidden [OF bp]
  have foc: "has_class (foldl (\<lambda>p x. if isVisible h p (JElem (snd x)) then focus_el (snd x) p else p) q xs) y cl = has_class q y cl" for q xs y cl
    by (induction xs arbitrary: q) (simp_all add: dom_simps)
  let ?p = "scroll_reset json v (resetAdjustments e (remove_class (body v) ''modal-open'' p))"
  have eq: "backdropHidden json h v e s
      = fire_onhidden h e ((set_inst e (m\<lparr>m_backdrop := b\<rparr>) s)\<lparr>mp := triggering h e ''hidden.bs.modal'' ?p\<rparr>)"
    using assms(2) bp by (simp add: backdropHidden_def Let_def)
  have c: "has_class (mp (backdropHidden json h v e s)) x ''show'' = has_class (mp s) x ''show''" for x
    by (simp add: eq fire_onhidden_def foc dom_simps bh)
  have "only e s (backdropHidden json h v e s)"
    by (rule onlyI [OF assms, where m' = "m\<lparr>m_backdrop := b\<rparr>"]) (auto simp: c, simp_all add: eq fire_onhidden_def set_inst_def bh)
  then show ?thesis using c [of e] by (simp add: becomes_def flags_def ending_def eq fire_onhidden_def set_inst_def)
qed

lemma hideModal_becomes:
  assumes "modal_wf s" "minsts s e = Some m"
  shows "becomes e s (hideModal json h v e s) (m_isShown m, False) {#} (has_class (mp s) e ''show'')"
proof -
  define p where "p = removeAttribute e ''role'' (removeAttribute e ''aria-modal'' (setAttribute e ''aria-hidden'' (bool_str True)
     (setStyle e ''display'' ''none'' (mp s))))"
  obtain w b fresh q where bd: "bd_hide (m_backdrop m) (m_fresh s) p = (w, b, fresh, q)" by (metis prod_cases4)
  note bh = backdrop_hide [OF bd]
  let ?m = "m\<lparr>m_isTransitioning := False, m_backdrop := b\<rparr>"
  define s1 where "s1 = (set_inst e ?m s)\<lparr>mp := q, m_fresh := fresh\<rparr>"
  have eq: "hideModal json h v e s = m_when (BackdropHidden e) w (backdropHidden json h v e) s1"
    using assms(2) bd by (simp add: hideModal_def p_def s1_def Let_def)
  have c: "has_class q x cl = has_class (mp s) x cl" if "minsts s x \<noteq> None" for x cl
  proof -
    have "x \<noteq> m_fresh s" "bd_element (m_backdrop m) \<noteq> Some x" using assms that by (auto simp: modal_wf_def)
    from bh(3) [OF this] show ?thesis by (simp add: p_def dom_simps)
  qed
  have i1: "minsts s1 = (minsts s)(e \<mapsto> ?m)" by (simp add: s1_def set_inst_def)
  have p1: "m_pending s1 = m_pending s" "mp s1 = q" "m_fresh s1 = fresh" by (simp_all add: s1_def set_inst_def)
  have only: "only e s s1" by (rule onlyI [OF assms i1]) (use bh c in \<open>auto simp: p1\<close>)
  then have wf: "modal_wf s1" by (simp add: only_def)
  have b1: "becomes e s s1 (m_isShown m, False) {#} (has_class (mp s) e ''show'')"
    using only c [of e] assms(2) by (simp add: becomes_def flags_def ending_def i1 p1)
  show ?thesis
  proof (cases w)
    case Now
    have "minsts s1 e = Some ?m" by (simp add: i1)
    from becomes_trans [OF b1 backdropHidden_becomes [OF wf this]] b1 show ?thesis
      by (simp add: eq m_when_def Now becomes_def)
  next
    case (After x)
    let ?t = "s1\<lparr>m_pending := m_pending s1 @ [(x, BackdropHidden e)]\<rparr>"
    have "only e s ?t" by (rule onlyI [OF assms, where m' = ?m]) (use bh c in \<open>auto simp: p1 i1\<close>)
    then show ?thesis using b1 by (simp add: eq m_when_def After becomes_def flags_def ending_def)
  qed
qed

lemma logged_becomes:
  assumes "modal_wf s" "minsts s e = Some m"
  shows "becomes e s (s\<lparr>mp := triggering h e ev (mp s)\<rparr>) (m_isShown m, m_isTransitioning m) {#} (has_class (mp s) e ''show'')"
proof -
  have "only e s (s\<lparr>mp := triggering h e ev (mp s)\<rparr>)"
    by (rule onlyI [OF assms, where m' = m]) (auto simp: assms(2) dom_simps)
  then show ?thesis using assms(2) by (simp add: becomes_def flags_def ending_def dom_simps)
qed

lemma idle_becomes:
  assumes "modal_wf s" "minsts s e = Some m"
  shows "becomes e s s (m_isShown m, m_isTransitioning m) {#} (has_class (mp s) e ''show'')"
proof -
  have "only e s s" by (rule onlyI [OF assms, where m' = m]) (auto simp: assms(2))
  then show ?thesis using assms(2) by (simp add: becomes_def flags_def)
qed

text \<open>The ways \<open>show\<close> and \<open>hide\<close> can end.\<close>

lemma show_becomes:
  assumes "modal_wf s" "minsts s e = Some m"
  shows "becomes e s (modal_show h v e s) (m_isShown m, m_isTransitioning m) {#} (has_class (mp s) e ''show'')
    \<or> \<not> m_isShown m \<and> \<not> m_isTransitioning m \<and>
      (becomes e s (modal_show h v e s) (True, True) {#BackdropShown e#} (has_class (mp s) e ''show'')
       \<or> becomes e s (modal_show h v e s) (True, True) {#TransitionComplete e#} True
       \<or> becomes e s (modal_show h v e s) (True, False) {#} True)"
proof (cases "m_isShown m \<or> m_isTransitioning m")
  case True
  then have "modal_show h v e s = s" using assms(2) by (simp add: modal_show_def)
  with idle_becomes [OF assms] show ?thesis by simp
next
  case False
  let ?p1 = "triggering h e ''show.bs.modal'' (mp s)"
  define s1 where "s1 = fire_onshow (prevented_by h e ''show.bs.modal'' (mp s)) e (s\<lparr>mp := ?p1\<rparr>)"
  have f1: "minsts s1 = minsts s" "m_pending s1 = m_pending s" "mp s1 = ?p1" "m_fresh s1 = m_fresh s"
    by (simp_all add: s1_def fire_onshow_def)
  show ?thesis
  proof (cases "prevented_by h e ''show.bs.modal'' (mp s)")
    case True
    then have eq: "modal_show h v e s = s1" using False assms(2) by (simp add: modal_show_def s1_def Let_def)
    have "only e s s1" by (rule onlyI [OF assms, where m' = m]) (auto simp: f1 assms(2) dom_simps)
    then have "becomes e s s1 (m_isShown m, m_isTransitioning m) {#} (has_class (mp s) e ''show'')"
      using assms(2) by (simp add: becomes_def flags_def ending_def f1 dom_simps)
    then show ?thesis unfolding eq ..
  next
    case noveto: False
    define p2 where "p2 = adjustDialog h v e (add_class (body v) ''modal-open'' (scroll_hide v ?p1))"
    obtain w b fresh q where bd: "bd_show (m_backdrop m) (m_fresh s) p2 = (w, b, fresh, q)" by (metis prod_cases4)
    note bs = backdrop_show [OF bd]
    let ?m = "m\<lparr>m_isShown := True, m_isTransitioning := True, m_backdrop := b\<rparr>"
    define s2 where "s2 = (set_inst e ?m s1)\<lparr>mp := q, m_fresh := fresh\<rparr>"
    have eq: "modal_show h v e s = m_when (BackdropShown e) w (showElement h v e) s2"
      using False noveto assms(2) bd by (simp add: modal_show_def s1_def s2_def p2_def Let_def split: prod.splits)
    have c: "has_class q x ''show'' = has_class (mp s) x ''show''" if "minsts s x \<noteq> None" for x
    proof -
      have "x \<noteq> m_fresh s" "bd_element (m_backdrop m) \<noteq> Some x" using assms that by (auto simp: modal_wf_def)
      from bs(3) [OF this] show ?thesis by (simp add: p2_def dom_simps)
    qed
    have i2: "minsts s2 = (minsts s)(e \<mapsto> ?m)" "m_pending s2 = m_pending s" "mp s2 = q" "m_fresh s2 = fresh"
      by (simp_all add: s2_def set_inst_def f1)
    have only: "only e s s2" by (rule onlyI [OF assms i2(1)]) (use bs c in \<open>auto simp: i2\<close>)
    then have wf: "modal_wf s2" by (simp add: only_def)
    have b2: "becomes e s s2 (True, True) {#} (has_class (mp s) e ''show'')"
      using only c [of e] assms(2) by (simp add: becomes_def flags_def ending_def i2)
    show ?thesis
    proof (cases w)
      case Now
      have "minsts s2 e = Some ?m" by (simp add: i2)
      from showElement_becomes [OF wf this, of h v] show ?thesis
        using becomes_trans [OF b2] False by (auto simp: eq m_when_def Now)
    next
      case (After x)
      let ?t = "s2\<lparr>m_pending := m_pending s2 @ [(x, BackdropShown e)]\<rparr>"
      have "only e s ?t" by (rule onlyI [OF assms, where m' = ?m]) (use bs c in \<open>auto simp: i2\<close>)
      then have "becomes e s ?t (True, True) {#BackdropShown e#} (has_class (mp s) e ''show'')"
        using b2 by (simp add: becomes_def flags_def ending_def)
      then show ?thesis using False by (simp add: eq m_when_def After)
    qed
  qed
qed

lemma hide_becomes:
  assumes "modal_wf s" "minsts s e = Some m"
  shows "becomes e s (modal_hide json h v e s) (m_isShown m, m_isTransitioning m) {#} (has_class (mp s) e ''show'')
    \<or> m_isShown m \<and> \<not> m_isTransitioning m \<and>
      (becomes e s (modal_hide json h v e s) (False, True) {#HideModal e#} False
       \<or> becomes e s (modal_hide json h v e s) (False, False) {#} False)"
proof (cases "\<not> m_isShown m \<or> m_isTransitioning m \<or> prevented_by h e ''hide.bs.modal'' (mp s)")
  case True
  then have "modal_hide json h v e s = s \<or> modal_hide json h v e s = s\<lparr>mp := triggering h e ''hide.bs.modal'' (mp s)\<rparr>"
    using assms(2) by (auto simp: modal_hide_def Let_def)
  with idle_becomes [OF assms] logged_becomes [OF assms, of h "''hide.bs.modal''"] show ?thesis by auto
next
  case False
  define p where "p = remove_class e ''show'' (triggering h e ''hide.bs.modal'' (mp s))"
  obtain t owner where d: "deactivate (m_focustrap m) (m_owner s) = (t, owner)" by fastforce
  let ?m = "m\<lparr>m_isShown := False, m_isTransitioning := True, m_focustrap := t\<rparr>"
  define s1 where "s1 = (set_inst e ?m s)\<lparr>m_owner := owner, mp := p\<rparr>"
  have eq: "modal_hide json h v e s = m_queue (HideModal e) e (m_isAnimated p e) (hideModal json h v e) s1"
    using False assms(2) d by (simp add: modal_hide_def s1_def p_def Let_def)
  have i1: "minsts s1 = (minsts s)(e \<mapsto> ?m)" "m_pending s1 = m_pending s" "mp s1 = p" "m_fresh s1 = m_fresh s"
    by (simp_all add: s1_def set_inst_def)
  have c: "has_class p x ''show'' = (x \<noteq> e \<and> has_class (mp s) x ''show'')" for x by (auto simp: p_def dom_simps)
  have only: "only e s s1" by (rule onlyI [OF assms i1(1)]) (auto simp: i1 c)
  then have wf: "modal_wf s1" by (simp add: only_def)
  have b1: "becomes e s s1 (False, True) {#} False" using only by (simp add: becomes_def flags_def ending_def i1 c)
  show ?thesis
  proof (cases "m_isAnimated p e")
    case True
    let ?t = "s1\<lparr>m_pending := m_pending s1 @ [(e, HideModal e)]\<rparr>"
    have "only e s ?t" by (rule onlyI [OF assms, where m' = ?m]) (auto simp: i1 c)
    then have "becomes e s ?t (False, True) {#HideModal e#} False" using b1 by (simp add: becomes_def flags_def ending_def)
    then show ?thesis using False by (simp add: eq m_queue_def True)
  next
    case noanim: False
    have m1: "minsts s1 e = Some ?m" by (simp add: i1)
    from becomes_trans [OF b1 hideModal_becomes [OF wf m1, of json h v]] show ?thesis
      using False by (simp add: eq m_queue_def noanim i1 c)
  qed
qed

lemma static_becomes:
  assumes "modal_wf s" "minsts s e = Some m"
  shows "becomes e s (triggerBackdropTransition h v e s) (m_isShown m, m_isTransitioning m) {#} (has_class (mp s) e ''show'')"
proof -
  let ?t = "triggerBackdropTransition h v e s"
  have f: "minsts ?t = minsts s" "m_fresh ?t = m_fresh s"
    "m_pending ?t = m_pending s \<or> (\<exists>y o1. m_pending ?t = m_pending s @ [(y, StaticDone e o1)])"
    "has_class (mp ?t) x ''show'' = has_class (mp s) x ''show''" for x
    using assms(2) by (auto simp: triggerBackdropTransition_def Let_def dom_simps)
  have "only e s ?t" by (rule onlyI [OF assms, where m' = m]) (use f(3) in \<open>auto simp: f(1,2,4) assms(2)\<close>)
  then show ?thesis using assms(2) f(3) by (auto simp: becomes_def flags_def ending_def f(1,4))
qed

lemma becomes_inv:
  assumes "modal_wf s" "\<And>x. x \<noteq> e \<Longrightarrow> modal_tracked rest s x" "becomes e s s' f new c"
    and "tracked_core e (Some f) (ending rest s e + new) c"
  shows "modal_inv rest s'"
proof -
  from assms(3) have only: "only e s s'" and e: "flags s' e = Some f" "ending rest s' e = ending rest s e + new" "has_class (mp s') e ''show'' = c"
    by (simp_all add: becomes_def)
  have "modal_tracked rest s' x" for x
  proof (cases "x = e")
    case True
    then show ?thesis using e assms(4) by (simp add: modal_tracked_def)
  next
    case False
    show ?thesis
    proof (cases "minsts s x")
      case None
      then have "x \<notin> dom (minsts s')" using only unfolding only_def by auto
      then show ?thesis by (simp add: modal_tracked_def tracked_core_def flags_def domIff)
    next
      case (Some m)
      then show ?thesis using only assms(2) [OF False] False by (simp add: only_def modal_tracked_def)
    qed
  qed
  with only show ?thesis by (simp add: modal_inv_def only_def)
qed

lemma tracked_idle:
  assumes "modal_inv rest s" "becomes e s s' (m_isShown m, m_isTransitioning m) {#} (has_class (mp s) e ''show'')" "minsts s e = Some m"
  shows "modal_inv rest s'"
proof (rule becomes_inv [OF _ _ assms(2)])
  have "modal_tracked rest s e" using assms(1) by (simp add: modal_inv_def)
  then show "tracked_core e (Some (m_isShown m, m_isTransitioning m)) (ending rest s e + {#}) (has_class (mp s) e ''show'')"
    using assms(3) by (simp add: modal_tracked_def flags_def)
qed (use assms(1) in \<open>auto simp: modal_inv_def\<close>)

lemma show_inv: "modal_inv rest s \<Longrightarrow> modal_inv rest (modal_show h v e s)"
proof (cases "minsts s e")
  case None
  then show "modal_inv rest s \<Longrightarrow> ?thesis" by (simp add: modal_show_def)
next
  case (Some m)
  assume inv: "modal_inv rest s"
  then have wf: "modal_wf s" and tr: "\<And>x. modal_tracked rest s x" by (simp_all add: modal_inv_def)
  have core: "tracked_core e (Some (m_isShown m, m_isTransitioning m)) (ending rest s e) (has_class (mp s) e ''show'')"
    using tr [of e] Some by (simp add: modal_tracked_def flags_def)
  from show_becomes [OF wf Some, of h v] tracked_idle [OF inv _ Some] becomes_inv [OF wf tr] core show ?thesis
    by (auto simp: tracked_core_def)
qed

lemma hide_inv: "modal_inv rest s \<Longrightarrow> modal_inv rest (modal_hide json h v e s)"
proof (cases "minsts s e")
  case None
  then show "modal_inv rest s \<Longrightarrow> ?thesis" by (simp add: modal_hide_def)
next
  case (Some m)
  assume inv: "modal_inv rest s"
  then have wf: "modal_wf s" and tr: "\<And>x. modal_tracked rest s x" by (simp_all add: modal_inv_def)
  have core: "tracked_core e (Some (m_isShown m, m_isTransitioning m)) (ending rest s e) (has_class (mp s) e ''show'')"
    using tr [of e] Some by (simp add: modal_tracked_def flags_def)
  from hide_becomes [OF wf Some, of json h v] tracked_idle [OF inv _ Some] becomes_inv [OF wf tr] core show ?thesis
    by (auto simp: tracked_core_def)
qed

lemma static_inv: "modal_inv rest s \<Longrightarrow> modal_inv rest (triggerBackdropTransition h v e s)"
proof (cases "minsts s e")
  case None
  then show "modal_inv rest s \<Longrightarrow> ?thesis" by (simp add: triggerBackdropTransition_def)
next
  case (Some m)
  assume inv: "modal_inv rest s"
  then have "modal_wf s" by (simp add: modal_inv_def)
  from tracked_idle [OF inv static_becomes [OF this Some] Some] show ?thesis .
qed

text \<open>A callback that ends a transition is the only one of its modal; running it leaves none, or the next one.\<close>

lemma ending_call:
  assumes inv: "modal_inv (cb # rest) s" and cb: "ends e cb" and m: "minsts s e = Some m"
  shows "modal_wf s" "\<And>x. x \<noteq> e \<Longrightarrow> modal_tracked rest s x" "ending rest s e = {#}" "m_isTransitioning m"
    "m_isShown m = (cb \<noteq> HideModal e)" "has_class (mp s) e ''show'' = (cb = TransitionComplete e)"
proof -
  show "modal_wf s" using inv by (simp add: modal_inv_def)
  have "\<not> ends x cb" if "x \<noteq> e" for x using cb that by (cases cb) auto
  then have same: "ending (cb # rest) s x = ending rest s x" if "x \<noteq> e" for x using that by (simp add: ending_def)
  have tracked: "modal_tracked (cb # rest) s x" for x using inv by (simp add: modal_inv_def)
  show "modal_tracked rest s x" if "x \<noteq> e" for x using tracked [of x] same [OF that] by (simp add: modal_tracked_def)
  have add: "ending (cb # rest) s e = add_mset cb (ending rest s e)" using cb by (simp add: ending_def)
  have core: "tracked_core e (Some (m_isShown m, m_isTransitioning m)) (add_mset cb (ending rest s e)) (has_class (mp s) e ''show'')"
    using tracked [of e] m add by (simp add: modal_tracked_def flags_def)
  then show "ending rest s e = {#}" "m_isTransitioning m" "m_isShown m = (cb \<noteq> HideModal e)" "has_class (mp s) e ''show'' = (cb = TransitionComplete e)"
    by (auto simp: tracked_core_def split: if_splits)
qed

lemma not_ending_call:
  assumes "modal_inv (cb # rest) s" "\<And>x. minsts s x \<noteq> None \<Longrightarrow> \<not> ends x cb"
  shows "modal_inv rest s"
proof -
  have "modal_tracked rest s x" for x
  proof (cases "minsts s x")
    case None
    then show ?thesis by (simp add: modal_tracked_def tracked_core_def flags_def)
  next
    case (Some m)
    then have "ending (cb # rest) s x = ending rest s x" using assms(2) [of x] by (simp add: ending_def)
    moreover have "modal_tracked (cb # rest) s x" using assms(1) by (simp add: modal_inv_def)
    ultimately show ?thesis by (simp add: modal_tracked_def)
  qed
  then show ?thesis using assms(1) by (simp add: modal_inv_def)
qed

lemma call_inv:
  assumes inv: "modal_inv (cb # rest) s"
  shows "modal_inv rest (modal_call json h v s cb)"
proof (cases cb)
  case (BackdropShown e)
  show ?thesis
  proof (cases "minsts s e")
    case None
    then have "modal_inv rest s" using not_ending_call [OF inv] BackdropShown by fastforce
    with None show ?thesis by (simp add: BackdropShown showElement_def)
  next
    case (Some m)
    note c = ending_call [OF inv _ Some, unfolded BackdropShown, simplified]
    from showElement_becomes [OF c(1) Some, of h v] becomes_inv [OF c(1,2)] c(3-5) show ?thesis
      by (auto simp: BackdropShown tracked_core_def)
  qed
next
  case (TransitionComplete e)
  show ?thesis
  proof (cases "minsts s e")
    case None
    then have "modal_inv rest s" using not_ending_call [OF inv] TransitionComplete by fastforce
    with None show ?thesis by (simp add: TransitionComplete transitionComplete_def)
  next
    case (Some m)
    note c = ending_call [OF inv _ Some, unfolded TransitionComplete, simplified]
    from becomes_inv [OF c(1,2) transitionComplete_becomes [OF c(1) Some, of h]] c(3-6) show ?thesis
      by (auto simp: TransitionComplete tracked_core_def)
  qed
next
  case (HideModal e)
  show ?thesis
  proof (cases "minsts s e")
    case None
    then have "modal_inv rest s" using not_ending_call [OF inv] HideModal by fastforce
    with None show ?thesis by (simp add: HideModal hideModal_def)
  next
    case (Some m)
    note c = ending_call [OF inv _ Some, unfolded HideModal, simplified]
    from becomes_inv [OF c(1,2) hideModal_becomes [OF c(1) Some, of json h v]] c(3-6) show ?thesis
      by (auto simp: HideModal tracked_core_def)
  qed
next
  case (BackdropHidden e)
  then have i: "modal_inv rest s" using not_ending_call [OF inv] by simp
  show ?thesis
  proof (cases "minsts s e")
    case None
    then show ?thesis using i BackdropHidden by (simp add: backdropHidden_def)
  next
    case (Some m)
    then show ?thesis using tracked_idle [OF i backdropHidden_becomes [OF _ Some] Some] i BackdropHidden by (simp add: modal_inv_def)
  qed
next
  case (StaticDone e o1)
  then have i: "modal_inv rest s" using not_ending_call [OF inv] by simp
  then show ?thesis using StaticDone
    by (auto simp: modal_inv_def modal_wf_def modal_tracked_def flags_def ending_def dom_simps split: option.splits)
next
  case (StaticRestore e o1)
  then have i: "modal_inv rest s" using not_ending_call [OF inv] by simp
  then show ?thesis using StaticRestore
    by (auto simp: modal_inv_def modal_wf_def modal_tracked_def flags_def ending_def dom_simps)
qed

lemma due_mset: "mset (due x ps) + mset (map snd (not_due x ps)) = mset (map snd ps)"
  by (induction ps) (auto simp: due_def not_due_def)

lemma modal_transition_end_inv: "modal_inv [] s \<Longrightarrow> modal_inv [] (modal_transition_end json h v x s)"
proof -
  assume inv: "modal_inv [] s"
  have "ending (due x (m_pending s)) (s\<lparr>m_pending := not_due x (m_pending s)\<rparr>) e = ending [] s e" for e
    using due_mset [of x "m_pending s"] by (simp add: ending_def)
  then have "modal_inv (due x (m_pending s)) (s\<lparr>m_pending := not_due x (m_pending s)\<rparr>)"
    using inv by (simp add: modal_inv_def modal_wf_def modal_tracked_def flags_def)
  moreover have "modal_inv cbs t \<Longrightarrow> modal_inv [] (foldl (modal_call json h v) t cbs)" for cbs t
    by (induction cbs arbitrary: t) (simp_all add: call_inv)
  ultimately show ?thesis by (simp add: modal_transition_end_def)
qed

text \<open>Everything that can happen to the modals of a page: calls, transition ends, keys, clicks and resizes.\<close>

datatype modal_event =
    CallShow elem
  | CallHide elem
  | CallToggle elem
  | TransitionEnd elem
  | Keydown elem string
  | Mousedown elem elem
  | Click elem elem
  | CallUpdate elem
  | Resize

fun modal_step :: "(string \<Rightarrow> jsval option) \<Rightarrow> host \<Rightarrow> view \<Rightarrow> mdl \<Rightarrow> modal_event \<Rightarrow> mdl" where
  "modal_step json h v s (CallShow e) = modal_show h v e s"
| "modal_step json h v s (CallHide e) = modal_hide json h v e s"
| "modal_step json h v s (CallToggle e) = modal_toggle json h v e s"
| "modal_step json h v s (TransitionEnd x) = modal_transition_end json h v x s"
| "modal_step json h v s (Keydown e key) = modal_keydown json h v key e s"
| "modal_step json h v s (Mousedown e target) = modal_mousedown e target s"
| "modal_step json h v s (Click e target) = modal_click json h v e target s"
| "modal_step json h v s (CallUpdate e) = handleUpdate h v e s"
| "modal_step json h v s Resize = modal_resize h v s"

definition modal_run :: "(string \<Rightarrow> jsval option) \<Rightarrow> host \<Rightarrow> view \<Rightarrow> modal_event list \<Rightarrow> mdl \<Rightarrow> mdl" where
  "modal_run json h v evs s = foldl (modal_step json h v) s evs"

lemma set_downs_inv:
  assumes "modal_inv rest s" "minsts s e = Some m"
  shows "modal_inv rest (set_inst e (m\<lparr>m_downs := d\<rparr>) s)"
proof -
  have "flags (set_inst e (m\<lparr>m_downs := d\<rparr>) s) x = flags s x" for x using assms(2) by (simp add: flags_def set_inst_def)
  moreover have "modal_wf (set_inst e (m\<lparr>m_downs := d\<rparr>) s)"
    using assms unfolding modal_inv_def modal_wf_def set_inst_def by (auto split: if_splits) (metis option.distinct(1))
  ultimately show ?thesis using assms(1) by (simp add: modal_inv_def modal_tracked_def ending_def) (simp add: set_inst_def)
qed

lemma adjust_inv: "modal_inv rest s \<Longrightarrow> modal_inv rest (s\<lparr>mp := adjustDialog h v e (mp s)\<rparr>)"
  by (simp add: modal_inv_def modal_wf_def modal_tracked_def flags_def ending_def dom_simps)

lemma step_inv:
  assumes "modal_inv [] s"
  shows "modal_inv [] (modal_step json h v s ev)"
proof (cases ev)
  case (Click e target)
  have "modal_inv [] t \<Longrightarrow> modal_inv [] (foldl (click_dismiss json h v e target) t ds)" for t ds
    by (induction ds arbitrary: t) (auto simp: click_dismiss_def static_inv hide_inv split: option.splits)
  then show ?thesis using Click assms set_downs_inv [OF assms] by (simp add: modal_click_def split: option.splits)
next
  case Resize
  have "modal_inv [] t \<Longrightarrow> modal_inv [] (foldl (\<lambda>t e. case minsts t e of None \<Rightarrow> t
      | Some m \<Rightarrow> if m_isShown m \<and> \<not> m_isTransitioning m then t\<lparr>mp := adjustDialog h v e (mp t)\<rparr> else t) t es)" for t es
    by (induction es arbitrary: t) (auto simp: adjust_inv split: option.splits)
  then show ?thesis using Resize assms by (simp add: modal_resize_def)
qed (use assms in \<open>auto simp: show_inv hide_inv static_inv modal_transition_end_inv set_downs_inv adjust_inv modal_toggle_def modal_keydown_def handleUpdate_def
    modal_mousedown_def split: option.splits\<close>)

interpretation modal: event_machine "modal_step json h v" "\<lambda>_ _. True" "modal_inv []" for json h v
  by unfold_locales (rule step_inv)

text \<open>
  C17: a modal never loses track of its transition.  Through any sequence of calls of \<open>show\<close>, \<open>hide\<close>
  and \<open>toggle\<close>, ends of transitions, keys, mouse clicks and resizes on all modals of the page: a
  modal in transition has exactly one callback pending that ends it, a modal at rest has none;
  and the class \<open>show\<close> is on exactly the modals that are shown and not still waiting for their
  backdrop.  So a modal cannot get stuck between open and closed.
\<close>

theorem modal_transitions_tracked:
  assumes "modal_inv [] s" "minsts (modal_run json h v evs s) e = Some m"
  defines "t \<equiv> modal_run json h v evs s"
  shows "size (filter_mset (ends e) (mset (map snd (m_pending t)))) = (if m_isTransitioning m then 1 else 0)
    \<and> (has_class (mp t) e ''show'' \<longleftrightarrow> m_isShown m \<and> BackdropShown e \<notin> snd ` set (m_pending t))"
proof -
  note modal.run_keeps [OF assms(1) allowed_run_always]
  then have inv: "modal_tracked [] t e" using assms(1) by (simp add: t_def modal_run_def modal_inv_def)
  have pend: "BackdropShown e \<in> snd ` set (m_pending t) \<longleftrightarrow> BackdropShown e \<in># ending [] t e" by (simp add: ending_def)
  have m: "minsts t e = Some m" using assms(2) by (simp add: t_def)
  have "size (ending [] t e) = (if m_isTransitioning m then 1 else 0)
      \<and> (has_class (mp t) e ''show'' \<longleftrightarrow> m_isShown m \<and> BackdropShown e \<notin># ending [] t e)"
    using inv m by (auto simp: modal_tracked_def tracked_core_def flags_def split: if_splits)
  then show ?thesis unfolding pend by (simp add: ending_def)
qed

text \<open>A page with one fading modal, its dialog inside, and a button that toggles it.\<close>

definition modal_page :: page where
  "modal_page = \<lparr>tree = Elem 2 [Elem 3 [Elem 4 [Elem 5 []], Elem 6 []]],
     nodes = (\<lambda>e. \<lparr>tagName = (if e = 6 then ''button'' else ''div''),
       classList = (if e = 4 then [''modal'', ''fade''] else if e = 5 then [''modal-dialog''] else []),
       attributes = (if e = 6 then [(''data-bs-target'', ''.modal'')] else []), style = (\<lambda>_. []), textContent = []\<rparr>),
     focused = None, ev_log = []\<rparr>"

definition modal_view :: view where
  "modal_view = scroll_view\<lparr>body := 3\<rparr>"

definition no_modals :: mdl where
  "no_modals = \<lparr>mp = modal_page, minsts = (\<lambda>_. None), m_pending = [], m_owner = None, m_fresh = 10, m_resizers = [], m_onshow = [], m_onhidden = []\<rparr>"

definition demo_modal :: modal where
  "demo_modal = \<lparr>m_dialog = 5, m_backdrop = new_backdrop ''modal-backdrop'' True True 3, m_focustrap = new_trap 4, m_isShown = False,
     m_isTransitioning = False, m_cfgBackdrop = JBool True, m_cfgFocus = True, m_cfgKeyboard = True, m_downs = []\<rparr>"

definition one_modal :: mdl where
  "one_modal = (set_inst 4 demo_modal no_modals)\<lparr>m_resizers := [4]\<rparr>"

lemma one_modal_inv: "modal_inv [] one_modal"
proof -
  have m: "minsts one_modal = [4 \<mapsto> demo_modal]" by (simp add: one_modal_def set_inst_def no_modals_def)
  have "m_pending one_modal = []" "m_fresh one_modal = 10" "\<not> has_class (mp one_modal) 4 ''show''"
    by (simp_all add: one_modal_def set_inst_def no_modals_def modal_page_def has_class_def)
  then show ?thesis
    by (simp add: modal_inv_def modal_wf_def modal_tracked_def tracked_core_def flags_def ending_def m demo_modal_def new_backdrop_def)
qed

theorem modal_transitions_tracked_witness:
  "\<exists>m. minsts (modal_run (\<lambda>_. None) scroll_host modal_view [CallShow 4, TransitionEnd 10, CallHide 4] one_modal) 4 = Some m \<and> m_isTransitioning m
   \<and> size (filter_mset (ends 4) (mset (map snd (m_pending
       (modal_run (\<lambda>_. None) scroll_host modal_view [CallShow 4, TransitionEnd 10, CallHide 4] one_modal))))) = 1"
proof -
  let ?t = "modal_run (\<lambda>_. None) scroll_host modal_view [CallShow 4, TransitionEnd 10, CallHide 4] one_modal"
  have "\<not> Option.is_none (minsts ?t 4) \<and> m_isTransitioning (the (minsts ?t 4))" by code_simp
  then obtain m where m: "minsts ?t 4 = Some m" "m_isTransitioning m" by (auto simp: Option.is_none_def)
  from modal_transitions_tracked [OF one_modal_inv m(1)] m show ?thesis by simp
qed

lemma backdropHidden_unlocks:
  assumes "minsts s e = Some m" "bd_isVisible (m_backdrop m)" "bd_element (m_backdrop m) = Some x"
  shows "\<exists>m'. minsts (backdropHidden json h v e s) e = Some m' \<and> m_isShown m' = m_isShown m \<and> \<not> bd_isAppended (m_backdrop m')
    \<and> \<not> has_class (mp (backdropHidden json h v e s)) (body v) ''modal-open''"
proof -
  have foc: "has_class (foldl (\<lambda>p x. if isVisible h p (JElem (snd x)) then focus_el (snd x) p else p) q xs) y cl = has_class q y cl" for q xs y cl
    by (induction xs arbitrary: q) (simp_all add: dom_simps)
  show ?thesis using assms
    by (auto simp: backdropHidden_def bd_hidden_def bd_dispose_def fire_onhidden_def set_inst_def foc Let_def dom_simps split: prod.splits if_splits)
qed

lemma showElement_displays:
  assumes "minsts s e = Some m"
  shows "\<exists>m'. minsts (showElement h v e s) e = Some m' \<and> m_isShown m' = m_isShown m \<and> m_backdrop m' = m_backdrop m
    \<and> has_class (mp (showElement h v e s)) e ''show'' \<and> getStyle (mp (showElement h v e s)) e ''display'' = ''block''
    \<and> has_class (mp (showElement h v e s)) y ''modal-open'' = has_class (mp s) y ''modal-open''"
  using assms
  by (auto simp: showElement_def m_queue_def transitionComplete_def activate_def set_inst_def Let_def dom_simps split: prod.splits if_splits)

text \<open>
  C22: a modal shown again while its backdrop still fades out ends up without backdrop and scroll
  lock.  \<open>_hideModal\<close> clears \<open>_isTransitioning\<close> before the backdrop is gone, so \<open>show\<close> is accepted; the
  pending callback of the old \<open>hide\<close> then removes the backdrop and the class \<open>modal-open\<close> that \<open>show\<close>
  has just set, and the modal is displayed without them.
\<close>

theorem modal_reopened_unlocked:
  fixes v :: view
  assumes "minsts s e = Some m" "\<not> m_isShown m" "\<not> m_isTransitioning m" "m_pending s = [(x, BackdropHidden e)]"
    and "bd_isVisible (m_backdrop m)" "bd_isAnimated (m_backdrop m)" "bd_isAppended (m_backdrop m)" "bd_element (m_backdrop m) = Some x"
    and "\<not> prevented_by h e ''show.bs.modal'' (mp s)"
    and "t = modal_transition_end json h v x (modal_show h v e s)"
  shows "\<exists>m'. minsts t e = Some m' \<and> m_isShown m' \<and> has_class (mp t) e ''show'' \<and> getStyle (mp t) e ''display'' = ''block''
    \<and> \<not> bd_isAppended (m_backdrop m') \<and> \<not> has_class (mp t) (body v) ''modal-open''"
proof -
  let ?m = "m\<lparr>m_isShown := True, m_isTransitioning := True\<rparr>" and ?s = "modal_show h v e s"
  have s1: "minsts ?s e = Some ?m" "m_pending ?s = [(x, BackdropHidden e), (x, BackdropShown e)]"
    using assms(1-9) by (simp_all add: modal_show_def bd_show_def bd_append_def bd_getElement_def emulateAnimation_def m_when_def
        fire_onshow_def Let_def set_inst_def)
  let ?u = "backdropHidden json h v e (?s\<lparr>m_pending := []\<rparr>)"
  have t: "t = showElement h v e ?u" unfolding assms(10) by (simp add: modal_transition_end_def due_def not_due_def s1)
  have "minsts (?s\<lparr>m_pending := []\<rparr>) e = Some ?m" using s1 by simp
  from backdropHidden_unlocks [OF this, of x json h v] assms(5,8) obtain n where n: "minsts ?u e = Some n" "m_isShown n"
    "\<not> bd_isAppended (m_backdrop n)" "\<not> has_class (mp ?u) (body v) ''modal-open''" by auto
  from showElement_displays [OF n(1), of h v "body v"] n(2-4) show ?thesis unfolding t by auto
qed

definition fading_out :: "host \<Rightarrow> elem \<Rightarrow> elem \<Rightarrow> mdl \<Rightarrow> bool" where
  "fading_out h e x s =
     (case minsts s e of
        None \<Rightarrow> False
      | Some m \<Rightarrow> \<not> m_isShown m \<and> \<not> m_isTransitioning m \<and> m_pending s = [(x, BackdropHidden e)] \<and> bd_isVisible (m_backdrop m)
          \<and> bd_isAnimated (m_backdrop m) \<and> bd_isAppended (m_backdrop m) \<and> bd_element (m_backdrop m) = Some x
          \<and> \<not> prevented_by h e ''show.bs.modal'' (mp s))"

lemma fading_outD:
  "fading_out h e x s \<Longrightarrow> \<exists>m. minsts s e = Some m \<and> \<not> m_isShown m \<and> \<not> m_isTransitioning m \<and> m_pending s = [(x, BackdropHidden e)]
     \<and> bd_isVisible (m_backdrop m) \<and> bd_isAnimated (m_backdrop m) \<and> bd_isAppended (m_backdrop m) \<and> bd_element (m_backdrop m) = Some x
     \<and> \<not> prevented_by h e ''show.bs.modal'' (mp s)"
  by (auto simp: fading_out_def split: option.splits)

theorem modal_reopened_unlocked_witness:
  "\<exists>m. minsts (modal_run (\<lambda>_. None) scroll_host modal_view
       [CallShow 4, TransitionEnd 10, TransitionEnd 5, CallHide 4, TransitionEnd 4, CallShow 4, TransitionEnd 10] one_modal) 4 = Some m
     \<and> m_isShown m \<and> \<not> bd_isAppended (m_backdrop m)"
proof -
  let ?s = "modal_run (\<lambda>_. None) scroll_host modal_view [CallShow 4, TransitionEnd 10, TransitionEnd 5, CallHide 4, TransitionEnd 4] one_modal"
  have "fading_out scroll_host 4 10 ?s" by code_simp
  from fading_outD [OF this] obtain m where m: "minsts ?s 4 = Some m" "\<not> m_isShown m" "\<not> m_isTransitioning m" "m_pending ?s = [(10, BackdropHidden 4)]"
    "bd_isVisible (m_backdrop m)" "bd_isAnimated (m_backdrop m)" "bd_isAppended (m_backdrop m)" "bd_element (m_backdrop m) = Some 10"
    "\<not> prevented_by scroll_host 4 ''show.bs.modal'' (mp ?s)" by (elim exE conjE)
  note r = modal_reopened_unlocked [OF m refl, of "\<lambda>_. None" modal_view]
  have "modal_run (\<lambda>_. None) scroll_host modal_view
      [CallShow 4, TransitionEnd 10, TransitionEnd 5, CallHide 4, TransitionEnd 4, CallShow 4, TransitionEnd 10] one_modal
    = modal_transition_end (\<lambda>_. None) scroll_host modal_view 10 (modal_show scroll_host modal_view 4 ?s)"
    by (simp only: modal_run_def foldl.simps modal_step.simps)
  with r show ?thesis by (simp only:) blast
qed

end
