(* ===== verification/Bs_Offcanvas.thy ===== *)
theory Bs_Offcanvas
  imports Bs_Overlay
begin

text \<open>
  Bootstrap's \<open>offcanvas.js\<close> in \<open>bootstrap.bundle.js\<close>: panels that slide in from an edge, with their
  backdrop, focus trap and scroll lock.  The state holds all panels of the page.
\<close>

section \<open>State\<close>

record offcanvas =
  oc_backdrop :: backdrop
  oc_focustrap :: focustrap
  oc_isShown :: bool
  oc_cfgBackdrop :: jsval
  oc_cfgKeyboard :: bool
  oc_cfgScroll :: bool

text \<open>
  The closures behind transitions: the two \<open>completeCallBack\<close>s, and the one with which the backdrop
  disposes of itself.  The callback of the backdrop's \<open>show\<close> does nothing here.
\<close>

datatype oc_callback = OcShown elem | OcHidden elem | OcBackdropGone elem

record ocs =
  op :: page
  oinsts :: "elem \<Rightarrow> offcanvas option"
  o_pending :: "oc_callback pending"
  o_owner :: "elem option"
  o_fresh :: elem
  o_onhidden :: "(elem \<times> elem) list"

definition set_oc :: "elem \<Rightarrow> offcanvas \<Rightarrow> ocs \<Rightarrow> ocs" where
  "set_oc e c s = s\<lparr>oinsts := (oinsts s)(e \<mapsto> c)\<rparr>"

section \<open>Showing and hiding\<close>

definition oc_show :: "host \<Rightarrow> view \<Rightarrow> elem \<Rightarrow> ocs \<Rightarrow> ocs" where
  "oc_show h v e s =
     (case oinsts s e of
        None \<Rightarrow> s
      | Some c \<Rightarrow>
          if oc_isShown c then s
          else (let p1 = triggering h e ''show.bs.offcanvas'' (op s)
                in if prevented_by h e ''show.bs.offcanvas'' (op s) then s\<lparr>op := p1\<rparr>
                   else (let (w, b, fresh, p2) = bd_show (oc_backdrop c) (o_fresh s) p1;
                             p3 = (if \<not> oc_cfgScroll c then scroll_hide v p2 else p2);
                             p4 = add_class e ''showing'' (setAttribute e ''role'' ''dialog'' (setAttribute e ''aria-modal'' (bool_str True) p3))
                         in (set_oc e (c\<lparr>oc_isShown := True, oc_backdrop := b\<rparr>) s)
                              \<lparr>op := p4, o_fresh := fresh, o_pending := o_pending s @ [(e, OcShown e)]\<rparr>)))"

definition oc_hide :: "host \<Rightarrow> elem \<Rightarrow> ocs \<Rightarrow> ocs" where
  "oc_hide h e s =
     (case oinsts s e of
        None \<Rightarrow> s
      | Some c \<Rightarrow>
          if \<not> oc_isShown c then s
          else (let p1 = triggering h e ''hide.bs.offcanvas'' (op s)
                in if prevented_by h e ''hide.bs.offcanvas'' (op s) then s\<lparr>op := p1\<rparr>
                   else (let (t, owner) = deactivate (oc_focustrap c) (o_owner s);
                             p2 = add_class e ''hiding'' (blur_el e p1);
                             (w, b, fresh, p3) = bd_hide (oc_backdrop c) (o_fresh s) p2;
                             gone = (case w of Now \<Rightarrow> [] | After x \<Rightarrow> [(x, OcBackdropGone e)])
                         in (set_oc e (c\<lparr>oc_isShown := False, oc_focustrap := t, oc_backdrop := b\<rparr>) s)
                              \<lparr>op := p3, o_owner := owner, o_fresh := fresh, o_pending := o_pending s @ gone @ [(e, OcHidden e)]\<rparr>)))"

definition oc_toggle :: "host \<Rightarrow> view \<Rightarrow> elem \<Rightarrow> ocs \<Rightarrow> ocs" where
  "oc_toggle h v e s =
     (if (case oinsts s e of None \<Rightarrow> False | Some c \<Rightarrow> oc_isShown c) then oc_hide h e s else oc_show h v e s)"

section \<open>Callbacks\<close>

definition oc_shown :: "host \<Rightarrow> elem \<Rightarrow> ocs \<Rightarrow> ocs" where
  "oc_shown h e s =
     (case oinsts s e of
        None \<Rightarrow> s
      | Some c \<Rightarrow>
          (let (t, owner, p1) = (if \<not> oc_cfgScroll c \<or> js_truthy (oc_cfgBackdrop c) then activate (oc_focustrap c) (o_owner s) (op s)
                                 else (oc_focustrap c, o_owner s, op s));
               p2 = remove_class e ''showing'' (add_class e ''show'' p1)
           in (set_oc e (c\<lparr>oc_focustrap := t\<rparr>) s)\<lparr>o_owner := owner, op := triggering h e ''shown.bs.offcanvas'' p2\<rparr>))"

text \<open>The one-time handlers of the data API give the focus back to a visible toggler.\<close>

definition oc_fire_hidden :: "host \<Rightarrow> elem \<Rightarrow> ocs \<Rightarrow> ocs" where
  "oc_fire_hidden h e s =
     s\<lparr>o_onhidden := filter (\<lambda>x. fst x \<noteq> e) (o_onhidden s),
       op := foldl (\<lambda>p x. if isVisible h p (JElem (snd x)) then focus_el (snd x) p else p) (op s) (filter (\<lambda>x. fst x = e) (o_onhidden s))\<rparr>"

definition oc_hidden :: "(string \<Rightarrow> jsval option) \<Rightarrow> host \<Rightarrow> view \<Rightarrow> elem \<Rightarrow> ocs \<Rightarrow> ocs" where
  "oc_hidden json h v e s =
     (case oinsts s e of
        None \<Rightarrow> s
      | Some c \<Rightarrow>
          (let p1 = remove_class e ''hiding'' (remove_class e ''show'' (op s));
               p2 = removeAttribute e ''role'' (removeAttribute e ''aria-modal'' p1);
               p3 = (if \<not> oc_cfgScroll c then scroll_reset json v p2 else p2)
           in oc_fire_hidden h e (s\<lparr>op := triggering h e ''hidden.bs.offcanvas'' p3\<rparr>)))"

fun oc_call :: "(string \<Rightarrow> jsval option) \<Rightarrow> host \<Rightarrow> view \<Rightarrow> ocs \<Rightarrow> oc_callback \<Rightarrow> ocs" where
  "oc_call json h v s (OcShown e) = oc_shown h e s"
| "oc_call json h v s (OcHidden e) = oc_hidden json h v e s"
| "oc_call json h v s (OcBackdropGone e) =
     (case oinsts s e of
        None \<Rightarrow> s
      | Some c \<Rightarrow> (let (b, p) = bd_hidden (oc_backdrop c) (op s) in (set_oc e (c\<lparr>oc_backdrop := b\<rparr>) s)\<lparr>op := p\<rparr>))"

definition oc_transition_end :: "(string \<Rightarrow> jsval option) \<Rightarrow> host \<Rightarrow> view \<Rightarrow> elem \<Rightarrow> ocs \<Rightarrow> ocs" where
  "oc_transition_end json h v x s = foldl (oc_call json h v) (s\<lparr>o_pending := not_due x (o_pending s)\<rparr>) (due x (o_pending s))"

section \<open>Events\<close>

text \<open>A press on the backdrop; the handler is there while the backdrop is appended.\<close>

definition oc_backdrop_click :: "host \<Rightarrow> elem \<Rightarrow> ocs \<Rightarrow> ocs" where
  "oc_backdrop_click h e s =
     (case oinsts s e of
        None \<Rightarrow> s
      | Some c \<Rightarrow>
          if \<not> bd_isAppended (oc_backdrop c) \<or> \<not> bd_isVisible (oc_backdrop c) then s
          else if oc_cfgBackdrop c = JStr ''static'' then s\<lparr>op := triggering h e ''hidePrevented.bs.offcanvas'' (op s)\<rparr>
          else oc_hide h e s)"

definition oc_keydown :: "host \<Rightarrow> string \<Rightarrow> elem \<Rightarrow> ocs \<Rightarrow> ocs" where
  "oc_keydown h key e s =
     (case oinsts s e of
        None \<Rightarrow> s
      | Some c \<Rightarrow>
          if key \<noteq> ''Escape'' then s
          else if oc_cfgKeyboard c then oc_hide h e s
          else s\<lparr>op := triggering h e ''hidePrevented.bs.offcanvas'' (op s)\<rparr>)"

section \<open>Instances\<close>

definition oc_default :: config where
  "oc_default = [(''backdrop'', JBool True), (''keyboard'', JBool True), (''scroll'', JBool False)]"

definition oc_defaultType :: "(string \<times> string) list" where
  "oc_defaultType = [(''backdrop'', ''(boolean|string)''), (''keyboard'', ''boolean''), (''scroll'', ''boolean'')]"

text \<open>
  The backdrop of a panel is placed under the panel's parent.  The constructor throws when the
  configuration has a wrong type or the panel has no parent.
\<close>

definition oc_initializeBackDrop :: "config \<Rightarrow> elem \<Rightarrow> backdrop" where
  "oc_initializeBackDrop c q = new_backdrop ''offcanvas-backdrop'' (js_truthy (js_get c ''backdrop'')) True q"

definition oc_new :: "(string \<Rightarrow> jsval option) \<Rightarrow> host \<Rightarrow> elem \<Rightarrow> jsval \<Rightarrow> ocs \<Rightarrow> ocs option" where
  "oc_new json h e config s =
     (case getConfig h json (op s) ''offcanvas'' oc_default oc_defaultType id config (Some e) of
        Inl err \<Rightarrow> None
      | Inr c \<Rightarrow>
          (case parentNode (op s) e of
             None \<Rightarrow> None
           | Some q \<Rightarrow>
               Some (set_oc e \<lparr>oc_backdrop = oc_initializeBackDrop c q,
                       oc_focustrap = new_trap e, oc_isShown = False, oc_cfgBackdrop = js_get c ''backdrop'',
                       oc_cfgKeyboard = js_truthy (js_get c ''keyboard''), oc_cfgScroll = js_truthy (js_get c ''scroll'')\<rparr> s)))"

definition oc_get_or_create :: "(string \<Rightarrow> jsval option) \<Rightarrow> host \<Rightarrow> elem \<Rightarrow> ocs \<Rightarrow> ocs option" where
  "oc_get_or_create json h e s = (if oinsts s e \<noteq> None then Some s else oc_new json h e JNull s)"

definition oc_dispose :: "elem \<Rightarrow> ocs \<Rightarrow> ocs" where
  "oc_dispose e s =
     (case oinsts s e of
        None \<Rightarrow> s
      | Some c \<Rightarrow>
          (let (b, p) = bd_dispose (oc_backdrop c) (op s); (t, owner) = deactivate (oc_focustrap c) (o_owner s)
           in s\<lparr>op := p, o_owner := owner, oinsts := (oinsts s)(e := None)\<rparr>))"

text \<open>
  The click handler of the data API: nothing on a disabled toggler; another open panel is hidden
  first.  \<open>None\<close> is an exception.
\<close>

definition oc_api_click :: "(string \<Rightarrow> jsval option) \<Rightarrow> host \<Rightarrow> view \<Rightarrow> elem \<Rightarrow> ocs \<Rightarrow> bool \<times> ocs option" where
  "oc_api_click json h v this s =
     (tagName (nodes (op s) this) \<in> {''A'', ''AREA''},
      case getElementFromSelector h (op s) this of
        None \<Rightarrow> None
      | Some target \<Rightarrow>
          if isDisabled h (op s) (Some this) then Some s
          else (case target of
                  None \<Rightarrow> None
                | Some e \<Rightarrow>
                    (let s1 = s\<lparr>o_onhidden := o_onhidden s @ [(e, this)]\<rparr>;
                         opened = SE_findOne (op s) (doc_root (op s)) [[[SelClass ''offcanvas'', SelClass ''show'']]]
                     in (case opened of
                           None \<Rightarrow> map_option (oc_toggle h v e) (oc_get_or_create json h e s1)
                         | Some x \<Rightarrow>
                             if x = e then map_option (oc_toggle h v e) (oc_get_or_create json h e s1)
                             else if oinsts s1 x = None then None
                             else map_option (oc_toggle h v e) (oc_get_or_create json h e (oc_hide h x s1))))))"

text \<open>On load the panels that the markup shows are opened; on resize the ones that are no longer fixed are hidden.\<close>

fun oc_each :: "(string \<Rightarrow> jsval option) \<Rightarrow> host \<Rightarrow> (elem \<Rightarrow> page \<Rightarrow> bool) \<Rightarrow> (elem \<Rightarrow> ocs \<Rightarrow> ocs) \<Rightarrow> elem list \<Rightarrow> ocs \<Rightarrow> ocs option" where
  "oc_each json h cond f [] s = Some s"
| "oc_each json h cond f (e # es) s =
     (if \<not> cond e (op s) then oc_each json h cond f es s
      else (case oc_get_or_create json h e s of None \<Rightarrow> None | Some t \<Rightarrow> oc_each json h cond f es (f e t)))"

definition oc_load :: "(string \<Rightarrow> jsval option) \<Rightarrow> host \<Rightarrow> view \<Rightarrow> ocs \<Rightarrow> ocs option" where
  "oc_load json h v s =
     oc_each json h (\<lambda>_ _. True) (oc_show h v) (SE_find (op s) (doc_root (op s)) [[[SelClass ''offcanvas'', SelClass ''show'']]]) s"

text \<open>\<open>[aria-modal][class*=show][class*=offcanvas-]\<close>: the last two tests are on the text of the class attribute.\<close>

definition oc_resizable :: "page \<Rightarrow> elem \<Rightarrow> bool" where
  "oc_resizable p e = (getAttribute p e ''aria-modal'' \<noteq> None
     \<and> str_includes (join_with '' '' (classList (nodes p e))) ''show''
     \<and> str_includes (join_with '' '' (classList (nodes p e))) ''offcanvas-'')"

definition oc_resize :: "(string \<Rightarrow> jsval option) \<Rightarrow> host \<Rightarrow> view \<Rightarrow> ocs \<Rightarrow> ocs option" where
  "oc_resize json h v s =
     oc_each json h (\<lambda>e p. computedStyle v p e ''position'' \<noteq> ''fixed'') (oc_hide h)
       (filter (oc_resizable (op s)) (descendants (op s) (doc_root (op s)))) s"

section \<open>Panels settle\<close>

text \<open>The completions of one panel, all of which wait for the panel's own transition.\<close>

fun completes :: "elem \<Rightarrow> oc_callback \<Rightarrow> bool" where
  "completes e (OcShown x) = (x = e)"
| "completes e (OcHidden x) = (x = e)"
| "completes e (OcBackdropGone x) = False"

definition waiting_for :: "oc_callback list \<Rightarrow> ocs \<Rightarrow> elem \<Rightarrow> oc_callback list" where
  "waiting_for rest s e = filter (completes e) (rest @ map snd (o_pending s))"

definition oc_settled :: "elem \<Rightarrow> bool option \<Rightarrow> oc_callback list \<Rightarrow> bool \<Rightarrow> bool \<Rightarrow> bool \<Rightarrow> bool" where
  "oc_settled e shown ws show showing hiding =
     (case shown of
        None \<Rightarrow> True
      | Some sh \<Rightarrow> (if ws = [] then show = sh else (last ws = OcShown e) = sh)
          \<and> (showing \<longrightarrow> OcShown e \<in> set ws) \<and> (hiding \<longrightarrow> OcHidden e \<in> set ws))"

definition oc_tracked :: "oc_callback list \<Rightarrow> ocs \<Rightarrow> elem \<Rightarrow> bool" where
  "oc_tracked rest s e =
     oc_settled e (map_option oc_isShown (oinsts s e)) (waiting_for rest s e)
       (has_class (op s) e ''show'') (has_class (op s) e ''showing'') (has_class (op s) e ''hiding'')"

definition oc_wf :: "ocs \<Rightarrow> bool" where
  "oc_wf s = ((\<forall>e c. oinsts s e = Some c \<longrightarrow> e < o_fresh s
      \<and> (\<forall>b. bd_element (oc_backdrop c) = Some b \<longrightarrow> b < o_fresh s \<and> oinsts s b = None))
    \<and> (\<forall>x cb e. (x, cb) \<in> set (o_pending s) \<longrightarrow> completes e cb \<longrightarrow> x = e))"

definition oc_inv :: "oc_callback list \<Rightarrow> ocs \<Rightarrow> bool" where
  "oc_inv rest s = (oc_wf s \<and> (\<forall>e. oc_tracked rest s e))"

text \<open>An operation on one panel keeps what is tracked of the others.\<close>

definition oc_only :: "elem \<Rightarrow> ocs \<Rightarrow> ocs \<Rightarrow> bool" where
  "oc_only e s s' = (oc_wf s' \<and> dom (oinsts s') = dom (oinsts s)
     \<and> (\<forall>x rest cl. x \<noteq> e \<longrightarrow> oinsts s x \<noteq> None \<longrightarrow> map_option oc_isShown (oinsts s' x) = map_option oc_isShown (oinsts s x)
          \<and> waiting_for rest s' x = waiting_for rest s x \<and> (cl \<in> {''show'', ''showing'', ''hiding''} \<longrightarrow> has_class (op s') x cl = has_class (op s) x cl)))"

lemma oc_onlyI:
  assumes wf: "oc_wf s" and c: "oinsts s e = Some c" and inst: "oinsts s' = (oinsts s)(e \<mapsto> c')" and fr: "o_fresh s \<le> o_fresh s'"
    and b: "\<And>y. bd_element (oc_backdrop c') = Some y \<Longrightarrow> bd_element (oc_backdrop c) = Some y \<or> y = o_fresh s \<and> o_fresh s' = Suc y"
    and cls: "\<And>x cl. x \<noteq> e \<Longrightarrow> oinsts s x \<noteq> None \<Longrightarrow> cl \<in> {''show'', ''showing'', ''hiding''}
      \<Longrightarrow> has_class (op s') x cl = has_class (op s) x cl"
    and pend: "o_pending s' = o_pending s @ new" "\<And>y cb x. (y, cb) \<in> set new \<Longrightarrow> completes x cb \<Longrightarrow> x = e \<and> y = e"
  shows "oc_only e s s'"
proof -
  have none: "oinsts s (o_fresh s) = None" using wf by (cases "oinsts s (o_fresh s)") (auto simp: oc_wf_def)
  have e: "e < o_fresh s" using wf c by (simp add: oc_wf_def)
  have inst_wf: "x < o_fresh s' \<and> (\<forall>y. bd_element (oc_backdrop n) = Some y \<longrightarrow> y < o_fresh s' \<and> oinsts s' y = None)"
    if n: "oinsts s' x = Some n" for x n
  proof -
    have "x < o_fresh s'" using n wf fr e unfolding inst oc_wf_def by (auto split: if_splits intro: less_le_trans)
    moreover have "y < o_fresh s' \<and> oinsts s' y = None" if y: "bd_element (oc_backdrop n) = Some y" for y
    proof (cases "bd_element (oc_backdrop c) = Some y \<and> x = e \<or> x \<noteq> e")
      case True
      then have "y < o_fresh s \<and> oinsts s y = None" using n y wf c unfolding inst oc_wf_def by (auto split: if_splits)
      then show ?thesis using fr e c unfolding inst by auto
    next
      case False
      then have "y = o_fresh s" "o_fresh s' = Suc y" using n y b unfolding inst by auto
      then show ?thesis using none e unfolding inst by auto
    qed
    ultimately show ?thesis by blast
  qed
  have "x = e'" if "(x, cb) \<in> set (o_pending s')" "completes e' cb" for x cb e'
    using that pend wf unfolding oc_wf_def by auto
  with inst_wf have "oc_wf s'" unfolding oc_wf_def by blast
  moreover have "waiting_for rest s' x = waiting_for rest s x" if "x \<noteq> e" for x rest
  proof -
    have "filter (completes x) (map snd new) = []" using pend(2) that by (auto simp: filter_empty_conv)
    then show ?thesis by (simp add: waiting_for_def pend(1))
  qed
  ultimately show ?thesis using cls c by (auto simp: oc_only_def inst)
qed

lemma oc_only_inv:
  assumes "oc_wf s" "\<And>x. x \<noteq> e \<Longrightarrow> oc_tracked rest s x" "oc_only e s s'" "oc_tracked rest s' e"
  shows "oc_inv rest s'"
proof -
  have "oc_tracked rest s' x" for x
  proof -
    consider "x = e" | "oinsts s x = None" | "x \<noteq> e" "oinsts s x \<noteq> None" by blast
    then show ?thesis
    proof cases
      case 1 then show ?thesis using assms(4) by simp
    next
      case 2
      then have "oinsts s' x = None" using assms(3) unfolding oc_only_def by (metis domIff)
      then show ?thesis by (simp add: oc_tracked_def oc_settled_def)
    next
      case 3 with assms(2) [of x] assms(3) show ?thesis by (simp add: oc_only_def oc_tracked_def)
    qed
  qed
  then show ?thesis using assms(3) by (simp add: oc_inv_def oc_only_def)
qed

lemma focus_back_classes:
  "has_class (foldl (\<lambda>p x. if isVisible h p (JElem (snd x)) then focus_el (snd x) p else p) q xs) y cl = has_class q y cl"
  by (induction xs arbitrary: q) (simp_all add: dom_simps)

lemma logged_oc: "oc_inv rest s \<Longrightarrow> oc_inv rest (s\<lparr>op := triggering h e ev (op s)\<rparr>)"
  by (simp add: oc_inv_def oc_wf_def oc_tracked_def waiting_for_def dom_simps)

lemma oc_show_inv:
  assumes "oc_inv rest s"
  shows "oc_inv rest (oc_show h v e s)"
proof (cases "oinsts s e")
  case None
  then show ?thesis using assms by (simp add: oc_show_def)
next
  case (Some c)
  note wf = assms [unfolded oc_inv_def, THEN conjunct1] and tr = assms [unfolded oc_inv_def, THEN conjunct2, rule_format]
  show ?thesis
  proof (cases "oc_isShown c \<or> prevented_by h e ''show.bs.offcanvas'' (op s)")
    case True
    then show ?thesis using assms logged_oc [OF assms, of h e "''show.bs.offcanvas''"] Some by (auto simp: oc_show_def Let_def)
  next
    case False
    let ?p1 = "triggering h e ''show.bs.offcanvas'' (op s)"
    obtain w b fresh p2 where bd: "bd_show (oc_backdrop c) (o_fresh s) ?p1 = (w, b, fresh, p2)" by (metis prod_cases4)
    note bs = backdrop_show [OF bd]
    define p where "p = add_class e ''showing'' (setAttribute e ''role'' ''dialog'' (setAttribute e ''aria-modal'' (bool_str True)
       (if \<not> oc_cfgScroll c then scroll_hide v p2 else p2)))"
    let ?c = "c\<lparr>oc_isShown := True, oc_backdrop := b\<rparr>"
    let ?t = "(set_oc e ?c s)\<lparr>op := p, o_fresh := fresh, o_pending := o_pending s @ [(e, OcShown e)]\<rparr>"
    have eq: "oc_show h v e s = ?t" using False Some bd by (simp add: oc_show_def p_def Let_def)
    have cls: "has_class p x cl = (x = e \<and> cl = ''showing'' \<or> has_class (op s) x cl)" if "oinsts s x \<noteq> None" for x cl
    proof -
      have "x \<noteq> o_fresh s" "bd_element (oc_backdrop c) \<noteq> Some x" using wf Some that by (auto simp: oc_wf_def)
      from bs(3) [OF this] show ?thesis by (auto simp: p_def dom_simps)
    qed
    have only: "oc_only e s ?t"
      by (rule oc_onlyI [OF wf Some, where c' = ?c and new = "[(e, OcShown e)]"]) (use bs(1,2) cls in \<open>auto simp: set_oc_def\<close>)
    have "oc_tracked rest ?t e" using tr [of e] Some cls [of e]
      by (auto simp: oc_tracked_def oc_settled_def set_oc_def waiting_for_def)
    from oc_only_inv [OF wf tr only this] show ?thesis unfolding eq .
  qed
qed

lemma oc_hide_inv:
  assumes "oc_inv rest s"
  shows "oc_inv rest (oc_hide h e s)"
proof (cases "oinsts s e")
  case None
  then show ?thesis using assms by (simp add: oc_hide_def)
next
  case (Some c)
  note wf = assms [unfolded oc_inv_def, THEN conjunct1] and tr = assms [unfolded oc_inv_def, THEN conjunct2, rule_format]
  show ?thesis
  proof (cases "\<not> oc_isShown c \<or> prevented_by h e ''hide.bs.offcanvas'' (op s)")
    case True
    then show ?thesis using assms logged_oc [OF assms, of h e "''hide.bs.offcanvas''"] Some by (auto simp: oc_hide_def Let_def)
  next
    case False
    define p where "p = add_class e ''hiding'' (blur_el e (triggering h e ''hide.bs.offcanvas'' (op s)))"
    obtain t owner where d: "deactivate (oc_focustrap c) (o_owner s) = (t, owner)" by fastforce
    obtain w b fresh p2 where bd: "bd_hide (oc_backdrop c) (o_fresh s) p = (w, b, fresh, p2)" by (metis prod_cases4)
    note bs = backdrop_hide [OF bd]
    let ?c = "c\<lparr>oc_isShown := False, oc_focustrap := t, oc_backdrop := b\<rparr>"
    let ?new = "(case w of Now \<Rightarrow> [] | After x \<Rightarrow> [(x, OcBackdropGone e)]) @ [(e, OcHidden e)]"
    let ?t = "(set_oc e ?c s)\<lparr>op := p2, o_owner := owner, o_fresh := fresh, o_pending := o_pending s @ ?new\<rparr>"
    have eq: "oc_hide h e s = ?t" using False Some bd d by (simp add: oc_hide_def p_def Let_def)
    have cls: "has_class p2 x cl = (x = e \<and> cl = ''hiding'' \<or> has_class (op s) x cl)" if "oinsts s x \<noteq> None" for x cl
    proof -
      have "x \<noteq> o_fresh s" "bd_element (oc_backdrop c) \<noteq> Some x" using wf Some that by (auto simp: oc_wf_def)
      from bs(3) [OF this] show ?thesis by (auto simp: p_def dom_simps)
    qed
    have only: "oc_only e s ?t"
      by (rule oc_onlyI [OF wf Some, where c' = ?c and new = ?new]) (use bs(1,2) cls in \<open>auto simp: set_oc_def split: moment.splits\<close>)
    have "waiting_for rest ?t e = waiting_for rest s e @ [OcHidden e]" by (simp add: waiting_for_def set_oc_def split: moment.splits)
    then have "oc_tracked rest ?t e" using tr [of e] Some cls [of e]
      by (auto simp: oc_tracked_def oc_settled_def set_oc_def)
    from oc_only_inv [OF wf tr only this] show ?thesis unfolding eq .
  qed
qed

lemma oc_call_inv:
  assumes inv: "oc_inv (cb # rest) s"
  shows "oc_inv rest (oc_call json h v s cb)"
proof -
  obtain e where cb: "cb = OcShown e \<or> cb = OcHidden e \<or> cb = OcBackdropGone e" by (cases cb) auto
  have wf: "oc_wf s" and tr: "\<And>x. oc_tracked (cb # rest) s x" using inv by (simp_all add: oc_inv_def)
  have others: "oc_tracked rest s x" if "\<not> completes x cb \<or> oinsts s x = None" for x
  proof (cases "oinsts s x")
    case None then show ?thesis by (simp add: oc_tracked_def oc_settled_def)
  next
    case (Some c)
    then have "waiting_for (cb # rest) s x = waiting_for rest s x" using that by (simp add: waiting_for_def)
    then show ?thesis using tr [of x] by (simp add: oc_tracked_def)
  qed
  show ?thesis
  proof (cases "oinsts s e")
    case None
    then have "oc_tracked rest s x" for x using others [of x] cb by (cases "x = e") auto
    then show ?thesis using wf cb None by (auto simp: oc_inv_def oc_shown_def oc_hidden_def)
  next
    case (Some c)
    have ne: "oc_tracked rest s x" if "x \<noteq> e" for x using others [of x] cb that by auto
    from cb consider (shown) "cb = OcShown e" | (hidden) "cb = OcHidden e" | (gone) "cb = OcBackdropGone e" by blast
    then show ?thesis
    proof cases
      case shown
      obtain t owner p1 where a: "(if \<not> oc_cfgScroll c \<or> js_truthy (oc_cfgBackdrop c) then activate (oc_focustrap c) (o_owner s) (op s)
          else (oc_focustrap c, o_owner s, op s)) = (t, owner, p1)" by (metis prod_cases3)
      have p1: "has_class p1 x cl = has_class (op s) x cl" for x cl using a by (auto simp: activate_def dom_simps split: if_splits)
      let ?c = "c\<lparr>oc_focustrap := t\<rparr>"
      let ?t = "(set_oc e ?c s)\<lparr>o_owner := owner, op := triggering h e ''shown.bs.offcanvas'' (remove_class e ''showing'' (add_class e ''show'' p1))\<rparr>"
      have eq: "oc_call json h v s cb = ?t" using shown Some a by (simp add: oc_shown_def Let_def)
      have only: "oc_only e s ?t"
        by (rule oc_onlyI [OF wf Some, where c' = ?c and new = "[]"]) (auto simp: set_oc_def dom_simps p1)
      have "oc_tracked rest ?t e" using tr [of e] Some shown
        by (auto simp: oc_tracked_def oc_settled_def waiting_for_def set_oc_def dom_simps p1 split: if_splits)
      from oc_only_inv [OF wf ne only this] show ?thesis unfolding eq .
    next
      case hidden
      define u where "u = oc_call json h v s cb"
      have p: "has_class (op u) x cl = (has_class (op s) x cl \<and> (x = e \<longrightarrow> cl \<noteq> ''show'' \<and> cl \<noteq> ''hiding''))" for x cl
        using Some hidden by (auto simp: u_def oc_hidden_def oc_fire_hidden_def focus_back_classes Let_def dom_simps)
      have f: "oinsts u = oinsts s" "o_pending u = o_pending s" "o_fresh u = o_fresh s"
        using Some hidden by (simp_all add: u_def oc_hidden_def oc_fire_hidden_def Let_def)
      have only: "oc_only e s u"
        by (rule oc_onlyI [OF wf Some, where c' = c and new = "[]"]) (auto simp: f p Some)
      have "waiting_for (cb # rest) s e = OcHidden e # waiting_for rest u e" by (simp add: waiting_for_def f hidden)
      then have "oc_tracked rest u e" using tr [of e] Some
        by (auto simp: oc_tracked_def oc_settled_def f p split: if_splits)
      from oc_only_inv [OF wf ne only this] show ?thesis unfolding u_def .
    next
      case gone
      obtain b p where bp: "bd_hidden (oc_backdrop c) (op s) = (b, p)" by fastforce
      let ?t = "(set_oc e (c\<lparr>oc_backdrop := b\<rparr>) s)\<lparr>op := p\<rparr>"
      have eq: "oc_call json h v s cb = ?t" using gone Some bp by simp
      have only: "oc_only e s ?t"
        by (rule oc_onlyI [OF wf Some, where c' = "c\<lparr>oc_backdrop := b\<rparr>" and new = "[]"])
           (auto simp: set_oc_def backdrop_hidden [OF bp])
      have "oc_tracked rest ?t e" using tr [of e] Some gone
        by (auto simp: oc_tracked_def oc_settled_def waiting_for_def set_oc_def backdrop_hidden [OF bp])
      from oc_only_inv [OF wf ne only this] show ?thesis unfolding eq .
    qed
  qed
qed

lemma oc_transition_end_inv:
  assumes "oc_inv [] s"
  shows "oc_inv [] (oc_transition_end json h v x s)"
proof -
  have wf: "oc_wf s" using assms by (simp add: oc_inv_def)
  then have own: "(y, cb) \<in> set (o_pending s) \<Longrightarrow> completes e cb \<Longrightarrow> y = e" for y cb e unfolding oc_wf_def by blast
  have split: "filter (completes e) (due x ps @ map snd (not_due x ps)) = filter (completes e) (map snd ps)"
    if "\<And>y cb. (y, cb) \<in> set ps \<Longrightarrow> completes e cb \<Longrightarrow> y = e" for e ps
    using that
  proof (induction ps)
    case (Cons q ps)
    have "\<And>cb. (x, cb) \<in> set ps \<Longrightarrow> completes e cb \<Longrightarrow> x = e" using Cons.prems by (meson list.set_intros(2))
    then have "filter (completes e) (due x ps) = [] \<or> x = e" by (auto simp: due_def filter_empty_conv)
    moreover have "filter (completes e) (due x ps @ map snd (not_due x ps)) = filter (completes e) (map snd ps)"
      using Cons.IH Cons.prems by (meson list.set_intros(2))
    moreover have "completes e (snd q) \<Longrightarrow> fst q = e" using Cons.prems by (metis list.set_intros(1) prod.collapse)
    ultimately show ?case by (auto simp: due_def not_due_def)
  qed (simp add: due_def not_due_def)
  let ?s = "s\<lparr>o_pending := not_due x (o_pending s)\<rparr>"
  have "oc_wf ?s" using wf unfolding oc_wf_def by (auto simp: not_due_def)
  moreover have "waiting_for (due x (o_pending s)) ?s e = waiting_for [] s e" for e
    using split [OF own] by (simp add: waiting_for_def)
  ultimately have "oc_inv (due x (o_pending s)) ?s" using assms by (simp add: oc_inv_def oc_tracked_def)
  moreover have "oc_inv cbs t \<Longrightarrow> oc_inv [] (foldl (oc_call json h v) t cbs)" for cbs t
    by (induction cbs arbitrary: t) (simp_all add: oc_call_inv)
  ultimately show ?thesis by (simp add: oc_transition_end_def)
qed

datatype oc_event = OcCallShow elem | OcCallHide elem | OcCallToggle elem | OcTransitionEnd elem | OcKeydown elem string | OcBackdropClick elem

fun oc_step :: "(string \<Rightarrow> jsval option) \<Rightarrow> host \<Rightarrow> view \<Rightarrow> ocs \<Rightarrow> oc_event \<Rightarrow> ocs" where
  "oc_step json h v s (OcCallShow e) = oc_show h v e s"
| "oc_step json h v s (OcCallHide e) = oc_hide h e s"
| "oc_step json h v s (OcCallToggle e) = oc_toggle h v e s"
| "oc_step json h v s (OcTransitionEnd x) = oc_transition_end json h v x s"
| "oc_step json h v s (OcKeydown e key) = oc_keydown h key e s"
| "oc_step json h v s (OcBackdropClick e) = oc_backdrop_click h e s"

lemma oc_step_inv: "oc_inv [] s \<Longrightarrow> oc_inv [] (oc_step json h v s ev)"
  by (cases ev) (auto simp: oc_show_inv oc_hide_inv oc_transition_end_inv logged_oc oc_toggle_def oc_keydown_def oc_backdrop_click_def
      split: option.splits)

interpretation oc: event_machine "oc_step json h v" "\<lambda>_ _. True" "oc_inv []" for json h v
  by unfold_locales (rule oc_step_inv)

text \<open>
  C18: an offcanvas panel ends up as it was last asked to.  Through any sequence of calls, transition
  ends, keys and clicks on the backdrop, however they overlap: once no completion of the panel is
  pending, it has the class \<open>show\<close> exactly when it is shown, and neither \<open>showing\<close> nor \<open>hiding\<close>; and a
  transition of the panel's own element leaves no completion pending.
\<close>

theorem offcanvas_settles:
  assumes "oc_inv [] s" "oinsts (foldl (oc_step json h v) s evs) e = Some c"
  defines "t \<equiv> foldl (oc_step json h v) s evs"
  shows "(filter (completes e) (map snd (o_pending t)) = [] \<longrightarrow> has_class (op t) e ''show'' = oc_isShown c
      \<and> \<not> has_class (op t) e ''showing'' \<and> \<not> has_class (op t) e ''hiding'')
    \<and> filter (completes e) (map snd (not_due e (o_pending t))) = []"
proof -
  note oc.run_keeps [OF assms(1) allowed_run_always]
  then have inv: "oc_inv [] t" using assms(1) by (simp add: t_def)
  then have "oc_tracked [] t e" "oc_wf t" by (simp_all add: oc_inv_def)
  moreover have "filter (completes e) (map snd (not_due e (o_pending t))) = []"
    using \<open>oc_wf t\<close> by (auto simp: oc_wf_def not_due_def filter_empty_conv)
  moreover have "oinsts t e = Some c" using assms(2) by (simp add: t_def)
  ultimately show ?thesis by (cases "filter (completes e) (map snd (o_pending t))") (simp_all add: oc_tracked_def oc_settled_def waiting_for_def)
qed

definition panel_page :: page where
  "panel_page = \<lparr>tree = Elem 2 [Elem 3 [Elem 4 [], Elem 5 []]],
     nodes = (\<lambda>e. \<lparr>tagName = ''div'', classList = (if e = 4 then [''offcanvas''] else []), attributes = [], style = (\<lambda>_. []), textContent = []\<rparr>),
     focused = None, ev_log = []\<rparr>"

definition demo_panel :: offcanvas where
  "demo_panel = \<lparr>oc_backdrop = new_backdrop ''offcanvas-backdrop'' True True 3, oc_focustrap = new_trap 4, oc_isShown = False,
     oc_cfgBackdrop = JBool True, oc_cfgKeyboard = True, oc_cfgScroll = False\<rparr>"

definition one_panel :: ocs where
  "one_panel = \<lparr>op = panel_page, oinsts = [4 \<mapsto> demo_panel], o_pending = [], o_owner = None, o_fresh = 10, o_onhidden = []\<rparr>"

lemma one_panel_inv: "oc_inv [] one_panel"
  by (simp add: one_panel_def oc_inv_def oc_wf_def oc_tracked_def oc_settled_def waiting_for_def demo_panel_def new_backdrop_def
      has_class_def panel_page_def)

theorem offcanvas_settles_witness:
  "\<exists>c. oinsts (foldl (oc_step (\<lambda>_. None) scroll_host scroll_view) one_panel [OcCallShow 4, OcCallHide 4]) 4 = Some c
   \<and> filter (completes 4) (map snd (not_due 4 (o_pending (foldl (oc_step (\<lambda>_. None) scroll_host scroll_view) one_panel [OcCallShow 4, OcCallHide 4])))) = []"
proof -
  let ?t = "foldl (oc_step (\<lambda>_. None) scroll_host scroll_view) one_panel [OcCallShow 4, OcCallHide 4]"
  have "dom (oinsts (oc_show h v e s)) = dom (oinsts s)" "dom (oinsts (oc_hide h e s)) = dom (oinsts s)" for h v e s
    by (auto simp: oc_show_def oc_hide_def set_oc_def Let_def split: option.splits prod.splits if_splits)
  then have "dom (oinsts ?t) = dom (oinsts one_panel)" by (simp only: foldl.simps oc_step.simps)
  then have "oinsts ?t 4 \<noteq> None" by (simp add: one_panel_def domIff set_eq_iff)
  then obtain c where "oinsts ?t 4 = Some c" by blast
  from offcanvas_settles [OF one_panel_inv this] this show ?thesis by blast
qed

text \<open>
  C23: hiding an offcanvas panel before it has finished opening leaves the focus trapped in the hidden
  panel.  \<open>hide\<close> deactivates the trap before it is active; the completion of \<open>show\<close>, still pending,
  then activates it, and the completion of \<open>hide\<close> does not deactivate it again.
\<close>

theorem offcanvas_trap_left_active:
  fixes v :: view
  assumes "oinsts s e = Some c" "\<not> oc_isShown c" "\<not> ft_isActive (oc_focustrap c)" "trapElement (oc_focustrap c) = e" "o_pending s = []"
    and "\<not> oc_cfgScroll c \<or> js_truthy (oc_cfgBackdrop c)" "bd_element (oc_backdrop c) \<noteq> Some e" "o_fresh s \<noteq> e"
    and "\<And>ev p. \<not> prevented_by h e ev p" and "t = oc_transition_end json h v e (oc_hide h e (oc_show h v e s))"
  shows "\<exists>c'. oinsts t e = Some c' \<and> \<not> oc_isShown c' \<and> \<not> has_class (op t) e ''show''
    \<and> ft_isActive (oc_focustrap c') \<and> o_owner t = Some e"
proof -
  let ?a = "oc_show h v e s" and ?b = "oc_hide h e (oc_show h v e s)"
  obtain w b fresh p where bd: "bd_show (oc_backdrop c) (o_fresh s) (triggering h e ''show.bs.offcanvas'' (op s)) = (w, b, fresh, p)"
    by (metis prod_cases4)
  have be: "bd_element b \<noteq> Some e" using backdrop_show(2) [OF bd, of e] assms(7,8) by auto
  have fe: "fresh \<noteq> e \<or> bd_element b \<noteq> None \<or> \<not> bd_isVisible b"
    using bd by (auto simp: bd_show_def bd_append_def bd_getElement_def Let_def split: if_splits option.splits prod.splits)
  let ?c = "c\<lparr>oc_isShown := True, oc_backdrop := b\<rparr>"
  have a: "oinsts ?a e = Some ?c" "o_pending ?a = [(e, OcShown e)]" "o_owner ?a = o_owner s" "o_fresh ?a = fresh"
    using assms(1,2,5,9) bd by (simp_all add: oc_show_def set_oc_def Let_def)
  obtain w2 b2 fresh2 p2 where bd2: "bd_hide b fresh (add_class e ''hiding'' (blur_el e (triggering h e ''hide.bs.offcanvas'' (op ?a)))) = (w2, b2, fresh2, p2)"
    by (metis prod_cases4)
  have w2: "w2 \<noteq> After e" using bd2 be fe by (auto simp: bd_hide_def bd_getElement_def emulateAnimation_def split: if_splits option.splits)
  let ?c2 = "?c\<lparr>oc_isShown := False, oc_backdrop := b2\<rparr>"
  have d: "deactivate (oc_focustrap c) (o_owner s) = (oc_focustrap c, o_owner s)" using assms(3) by (simp add: deactivate_def)
  have b: "oinsts ?b e = Some ?c2"
    "o_pending ?b = [(e, OcShown e)] @ (case w2 of Now \<Rightarrow> [] | After x \<Rightarrow> [(x, OcBackdropGone e)]) @ [(e, OcHidden e)]"
    using a assms(9) bd2 d by (simp_all add: oc_hide_def set_oc_def Let_def)
  have due: "due e (o_pending ?b) = [OcShown e, OcHidden e]" using w2 by (auto simp: b(2) due_def split: moment.splits)
  let ?u = "oc_shown h e (?b\<lparr>o_pending := not_due e (o_pending ?b)\<rparr>)"
  have t: "t = oc_hidden json h v e ?u" unfolding assms(10) oc_transition_end_def due by simp
  have u: "oinsts ?u e = Some (?c2\<lparr>oc_focustrap := (oc_focustrap c)\<lparr>ft_isActive := True\<rparr>\<rparr>)" "o_owner ?u = Some e"
    using b(1) assms(3,4,6) by (auto simp: oc_shown_def activate_def set_oc_def Let_def)
  then show ?thesis unfolding t
    by (simp add: oc_hidden_def oc_fire_hidden_def focus_back_classes Let_def dom_simps)
qed

theorem offcanvas_trap_left_active_witness:
  "\<exists>c. oinsts (oc_transition_end (\<lambda>_. None) scroll_host scroll_view 4 (oc_hide scroll_host 4 (oc_show scroll_host scroll_view 4 one_panel))) 4 = Some c
   \<and> \<not> oc_isShown c \<and> ft_isActive (oc_focustrap c)"
proof -
  have 1: "oinsts one_panel 4 = Some demo_panel" "o_pending one_panel = []" "o_fresh one_panel \<noteq> 4" by (simp_all add: one_panel_def)
  have 2: "\<not> oc_isShown demo_panel" "\<not> ft_isActive (oc_focustrap demo_panel)" "trapElement (oc_focustrap demo_panel) = 4"
    "\<not> oc_cfgScroll demo_panel \<or> js_truthy (oc_cfgBackdrop demo_panel)" "bd_element (oc_backdrop demo_panel) \<noteq> Some 4"
    by (simp_all add: demo_panel_def new_trap_def new_backdrop_def)
  have "\<not> prevented_by scroll_host 4 ev p" for ev p by (simp add: trigger_def scroll_host_def Let_def)
  from offcanvas_trap_left_active [OF 1(1) 2(1-3) 1(2) 2(4,5) 1(3) this refl, of "\<lambda>_. None" scroll_view] show ?thesis by blast
qed

end
