(* ===== verification/Bs_Sanitizer.thy ===== *)
theory Bs_Sanitizer
  imports Bs_Base
begin

text \<open>
  Bootstrap's \<open>util/sanitizer.js\<close> in \<open>bootstrap.bundle.js\<close>, which cleans the HTML a caller gives to
  tooltips and popovers.  The parsed document is a page; parsing and serialising are the
  browser's and are arguments.  What a browser makes of the serialised text when it parses it
  again is outside the model.
\<close>

section \<open>The allow list\<close>

text \<open>An entry is the name of an attribute or a regular expression on names.\<close>

datatype attr_rule = AttrIs string | AttrLike "string \<Rightarrow> bool"

type_synonym allow_list = "(string \<times> attr_rule list) list"

text \<open>\<open>/^aria-[\w-]*$/i\<close>.\<close>

definition word_char :: "char \<Rightarrow> bool" where
  "word_char c = (let n = of_char (to_lower_char c) :: nat in 48 \<le> n \<and> n \<le> 57 \<or> 97 \<le> n \<and> n \<le> 122 \<or> c = CHR ''_'')"

definition ARIA_ATTRIBUTE_PATTERN :: "string \<Rightarrow> bool" where
  "ARIA_ATTRIBUTE_PATTERN s =
     (startsWith (map to_lower_char s) ''aria-'' \<and> list_all (\<lambda>c. word_char c \<or> c = CHR ''-'') (drop 5 s))"

definition DefaultAllowlist :: allow_list where
  "DefaultAllowlist =
     [(''*'', map AttrIs [''class'', ''dir'', ''id'', ''lang'', ''role''] @ [AttrLike ARIA_ATTRIBUTE_PATTERN]),
      (''a'', map AttrIs [''target'', ''href'', ''title'', ''rel'']), (''area'', []), (''b'', []), (''br'', []), (''col'', []), (''code'', []),
      (''dd'', []), (''div'', []), (''dl'', []), (''dt'', []), (''em'', []), (''hr'', []), (''h1'', []), (''h2'', []), (''h3'', []), (''h4'', []),
      (''h5'', []), (''h6'', []), (''i'', []),
      (''img'', map AttrIs [''src'', ''srcset'', ''alt'', ''title'', ''width'', ''height'']), (''li'', []), (''ol'', []), (''p'', []), (''pre'', []),
      (''s'', []), (''small'', []), (''span'', []), (''sub'', []), (''sup'', []), (''strong'', []), (''u'', []), (''ul'', [])]"

definition uriAttributes :: "string list" where
  "uriAttributes = [''background'', ''cite'', ''href'', ''itemtype'', ''longdesc'', ''poster'', ''src'', ''xlink:href'']"

section \<open>Safe URLs\<close>

text \<open>
  \<open>/^(?!javascript:)(?:[a-z0-9+.-]+:|[^&:/?#]*(?:[/?#]|$))/i\<close>.  A colon is not in either class, so
  each class can only match the longest prefix.
\<close>

definition scheme_char :: "char \<Rightarrow> bool" where
  "scheme_char c = (let n = of_char (to_lower_char c) :: nat
     in 97 \<le> n \<and> n \<le> 122 \<or> 48 \<le> n \<and> n \<le> 57 \<or> c = CHR ''+'' \<or> c = CHR ''.'' \<or> c = CHR ''-'')"

definition path_char :: "char \<Rightarrow> bool" where
  "path_char c = (c \<notin> {CHR ''&'', CHR '':'', CHR ''/'', CHR ''?'', CHR ''#''})"

definition SAFE_URL_PATTERN :: "string \<Rightarrow> bool" where
  "SAFE_URL_PATTERN s =
     (\<not> startsWith (map to_lower_char s) ''javascript:''
      \<and> (takeWhile scheme_char s \<noteq> [] \<and> startsWith (dropWhile scheme_char s) '':''
         \<or> (case dropWhile path_char s of [] \<Rightarrow> True | c # _ \<Rightarrow> c \<in> {CHR ''/'', CHR ''?'', CHR ''#''})))"

section \<open>Sanitising\<close>

fun is_name :: "string \<Rightarrow> attr_rule \<Rightarrow> bool" where
  "is_name a (AttrIs n) = (n = a)"
| "is_name a (AttrLike r) = False"

fun is_like :: "string \<Rightarrow> attr_rule \<Rightarrow> bool" where
  "is_like a (AttrIs n) = False"
| "is_like a (AttrLike r) = r a"

definition allowedAttribute :: "string \<times> string \<Rightarrow> attr_rule list \<Rightarrow> bool" where
  "allowedAttribute attribute allowedAttributeList =
     (let attributeName = map to_lower_char (fst attribute)
      in if list_ex (is_name attributeName) allowedAttributeList then
           (if attributeName \<in> set uriAttributes then SAFE_URL_PATTERN (snd attribute) else True)
         else list_ex (is_like attributeName) allowedAttributeList)"

definition allowed_for :: "allow_list \<Rightarrow> string \<Rightarrow> attr_rule list" where
  "allowed_for allowList elementName =
     (case map_of allowList ''*'' of None \<Rightarrow> [] | Some rs \<Rightarrow> rs) @ (case map_of allowList elementName of None \<Rightarrow> [] | Some rs \<Rightarrow> rs)"

definition nodeName :: "page \<Rightarrow> elem \<Rightarrow> string" where
  "nodeName p e = map to_lower_char (tagName (nodes p e))"

definition strip_attributes :: "attr_rule list \<Rightarrow> elem \<Rightarrow> page \<Rightarrow> page" where
  "strip_attributes allowedAttributes e p =
     foldl (\<lambda>q a. if \<not> allowedAttribute a allowedAttributes then removeAttribute e (fst a) q else q) p (attributes (nodes p e))"

definition sanitize_element :: "allow_list \<Rightarrow> page \<Rightarrow> elem \<Rightarrow> page" where
  "sanitize_element allowList p e =
     (if nodeName p e \<notin> set (map fst allowList) then remove_el e p
      else strip_attributes (allowed_for allowList (nodeName p e)) e p)"

text \<open>The loop over all elements below the body of the parsed document.\<close>

definition sanitize_body :: "allow_list \<Rightarrow> elem \<Rightarrow> page \<Rightarrow> page" where
  "sanitize_body allowList bodyElement p = foldl (sanitize_element allowList) p (descendants p bodyElement)"

record html_host =
  parseFromString :: "string \<Rightarrow> page"
  html_body :: "page \<Rightarrow> elem"
  innerHTML :: "page \<Rightarrow> elem \<Rightarrow> string"
  call_sanitizer :: "nat \<Rightarrow> string \<Rightarrow> string"

definition sanitizeHtml :: "html_host \<Rightarrow> string \<Rightarrow> allow_list \<Rightarrow> jsval \<Rightarrow> string" where
  "sanitizeHtml hh unsafeHtml allowList sanitizeFunction =
     (if unsafeHtml = [] then unsafeHtml
      else (case sanitizeFunction of
              JFun f \<Rightarrow> call_sanitizer hh f unsafeHtml
            | _ \<Rightarrow> (let createdDocument = parseFromString hh unsafeHtml; b = html_body hh createdDocument
                    in innerHTML hh (sanitize_body allowList b createdDocument) b)))"


section \<open>What is left is allowed\<close>

lemma fold_strip:
  "attributes (nodes (foldl (\<lambda>q a. if P a then removeAttribute e (fst a) q else q) p xs) e)
     = filter (\<lambda>x. \<forall>a\<in>set xs. P a \<longrightarrow> fst a \<noteq> fst x) (attributes (nodes p e))
   \<and> tree (foldl (\<lambda>q a. if P a then removeAttribute e (fst a) q else q) p xs) = tree p
   \<and> (\<forall>y. tagName (nodes (foldl (\<lambda>q a. if P a then removeAttribute e (fst a) q else q) p xs) y) = tagName (nodes p y)
        \<and> (y \<noteq> e \<longrightarrow> nodes (foldl (\<lambda>q a. if P a then removeAttribute e (fst a) q else q) p xs) y = nodes p y))"
proof (induction xs arbitrary: p)
  case (Cons a xs)
  have r: "attributes (nodes (removeAttribute e (fst a) p) e) = filter (\<lambda>x. fst a \<noteq> fst x) (attributes (nodes p e))"
    by (simp add: removeAttribute_def nodes_upd_node AList.delete_eq) (rule filter_cong, auto)
  have o: "y \<noteq> e \<Longrightarrow> nodes (removeAttribute e (fst a) p) y = nodes p y" for y by (simp add: removeAttribute_def nodes_upd_node)
  show ?case using Cons.IH [of "if P a then removeAttribute e (fst a) p else p"]
    by (cases "P a") (auto simp: r o dom_simps intro!: filter_cong)
qed simp

definition allowed_node :: "allow_list \<Rightarrow> node \<Rightarrow> bool" where
  "allowed_node A n \<longleftrightarrow> map to_lower_char (tagName n) \<in> set (map fst A)
     \<and> list_all (\<lambda>a. allowedAttribute a (allowed_for A (map to_lower_char (tagName n)))) (attributes n)"

lemma strip_allowed:
  fixes p :: page and e :: elem and rs :: "attr_rule list"
  defines "q \<equiv> strip_attributes rs e p"
  shows "list_all (\<lambda>a. allowedAttribute a rs) (attributes (nodes q e))" "tree q = tree p" "y \<noteq> e \<Longrightarrow> nodes q y = nodes p y"
    "tagName (nodes q y) = tagName (nodes p y)"
    "distinct (map fst (attributes (nodes p e))) \<Longrightarrow> attributes (nodes q e) = filter (\<lambda>a. allowedAttribute a rs) (attributes (nodes p e))"
proof -
  let ?as = "attributes (nodes p e)"
  note f = fold_strip [of "\<lambda>a. \<not> allowedAttribute a rs" e p ?as, folded strip_attributes_def, folded q_def]
  have as: "attributes (nodes q e) = filter (\<lambda>x. \<forall>a\<in>set ?as. \<not> allowedAttribute a rs \<longrightarrow> fst a \<noteq> fst x) ?as" using f by blast
  then show "list_all (\<lambda>a. allowedAttribute a rs) (attributes (nodes q e))" by (auto simp: list_all_iff)
  show "tree q = tree p" "y \<noteq> e \<Longrightarrow> nodes q y = nodes p y" "tagName (nodes q y) = tagName (nodes p y)" using f by blast+
  assume "distinct (map fst ?as)"
  then have "(\<forall>a\<in>set ?as. \<not> allowedAttribute a rs \<longrightarrow> fst a \<noteq> fst x) \<longleftrightarrow> allowedAttribute x rs" if "x \<in> set ?as" for x
    using that by (metis eq_key_imp_eq_value prod.collapse)
  then show "attributes (nodes q e) = filter (\<lambda>a. allowedAttribute a rs) ?as" unfolding as by (simp cong: filter_cong)
qed

text \<open>A node as \<open>sanitize_element\<close> leaves it, by the node it found.\<close>

definition clean_node :: "allow_list \<Rightarrow> node \<Rightarrow> node \<Rightarrow> bool" where
  "clean_node A n0 n \<longleftrightarrow> allowed_node A n \<and> tagName n = tagName n0
     \<and> (distinct (map fst (attributes n0)) \<longrightarrow> attributes n
          = filter (\<lambda>a. allowedAttribute a (allowed_for A (map to_lower_char (tagName n0)))) (attributes n0))"

text \<open>
  The loop over the elements: those still below the body are among the original ones, the ones
  that have been visited are allowed, and the others are untouched.
\<close>

definition cleaned :: "allow_list \<Rightarrow> elem \<Rightarrow> page \<Rightarrow> elem set \<Rightarrow> page \<Rightarrow> bool" where
  "cleaned A b p done q \<longleftrightarrow> chain b (tree q) = chain b (tree p) \<and> set (descendants q b) \<subseteq> set (descendants p b)
     \<and> (\<forall>x \<in> set (descendants q b). if x \<in> done then clean_node A (nodes p x) (nodes q x) else nodes q x = nodes p x)"

lemma sanitize_step:
  assumes wf: "wf_page p" and e: "e \<in> set (descendants p b)" "e \<notin> done" and c: "cleaned A b p done q"
  shows "cleaned A b p (insert e done) (sanitize_element A q e)"
proof (cases "nodeName q e \<in> set (map fst A)")
  case False
  have "e \<notin> set (chain b (tree q))" using descendant_not_above [OF wf e(1)] c by (simp add: cleaned_def)
  note d = descendants_remove_el [OF this]
  moreover have "nodes (remove_el e q) = nodes q" by (simp add: remove_el_def)
  ultimately show ?thesis using False c by (auto simp: sanitize_element_def cleaned_def subset_iff split: if_splits)
next
  case True
  let ?rs = "allowed_for A (nodeName q e)" let ?q = "strip_attributes ?rs e q"
  note s = strip_allowed [where rs = ?rs and e = e and p = q]
  have d: "descendants ?q b = descendants q b" "chain b (tree ?q) = chain b (tree q)" using s(2) by (simp_all add: descendants_def)
  have t: "sanitize_element A q e = ?q" using True by (simp add: sanitize_element_def)
  have a: "clean_node A (nodes q e) (nodes ?q e)" using True s(1,4,5) by (simp add: clean_node_def allowed_node_def nodeName_def)
  have "if x \<in> insert e done then clean_node A (nodes p x) (nodes ?q x) else nodes ?q x = nodes p x" if x: "x \<in> set (descendants q b)" for x
  proof (cases "x = e")
    case True
    with c e(2) x have "nodes q e = nodes p e" by (auto simp: cleaned_def)
    with a True show ?thesis by simp
  next
    case False
    with c x s(3) show ?thesis by (simp add: cleaned_def)
  qed
  with c show ?thesis unfolding t cleaned_def d by blast
qed

lemma sanitize_fold:
  assumes "wf_page p" "set es \<subseteq> set (descendants p b)" "distinct es" "set es \<inter> done = {}" "cleaned A b p done q"
  shows "cleaned A b p (done \<union> set es) (foldl (sanitize_element A) q es)"
  using assms(2-5)
proof (induction es arbitrary: q "done")
  case (Cons e es)
  have "cleaned A b p (insert e done) (sanitize_element A q e)"
    by (rule sanitize_step [OF assms(1)]) (use Cons.prems in auto)
  with Cons.IH [of "insert e done" "sanitize_element A q e"] Cons.prems show ?case by auto
qed simp

text \<open>
  C27: sanitising leaves only what the allow list permits.  Every element that is still below the
  body has a listed name and only permitted attributes, and when no attribute occurs twice it
  has kept exactly its permitted ones.
\<close>

theorem sanitized_is_allowed:
  assumes "wf_page p" "x \<in> set (descendants (sanitize_body A b p) b)"
  shows "x \<in> set (descendants p b) \<and> allowed_node A (nodes (sanitize_body A b p) x)
    \<and> tagName (nodes (sanitize_body A b p) x) = tagName (nodes p x)
    \<and> (distinct (map fst (attributes (nodes p x))) \<longrightarrow> attributes (nodes (sanitize_body A b p) x)
         = filter (\<lambda>a. allowedAttribute a (allowed_for A (nodeName p x))) (attributes (nodes p x)))"
proof -
  have "cleaned A b p {} p" by (simp add: cleaned_def)
  from sanitize_fold [OF assms(1) subset_refl distinct_descendants [OF assms(1)] _ this]
  have "cleaned A b p (set (descendants p b)) (sanitize_body A b p)" by (simp add: sanitize_body_def)
  with assms(2) have "x \<in> set (descendants p b)" "clean_node A (nodes p x) (nodes (sanitize_body A b p) x)"
    by (auto simp: cleaned_def)
  then show ?thesis by (simp add: clean_node_def nodeName_def)
qed


section \<open>No scripts\<close>

text \<open>
  The scheme a browser reads off a URL: leading control characters and spaces and all tabs and
  line ends are dropped; a scheme begins with a letter and ends with a colon.
\<close>

definition blank_char :: "char \<Rightarrow> bool" where
  "blank_char c = ((of_char c :: nat) \<le> 32)"

definition kept_char :: "char \<Rightarrow> bool" where
  "kept_char c = (c \<notin> {CHR 0x09, CHR 0x0A, CHR 0x0D})"

definition url_text :: "string \<Rightarrow> string" where
  "url_text s = filter kept_char (dropWhile blank_char s)"

definition url_scheme :: "string \<Rightarrow> string option" where
  "url_scheme s =
     (let u = url_text s; w = takeWhile scheme_char u
      in if w \<noteq> [] \<and> \<not> is_digit (hd w) \<and> hd w \<notin> {CHR ''+'', CHR ''.'', CHR ''-''} \<and> startsWith (dropWhile scheme_char u) '':''
         then Some (map to_lower_char w) else None)"

lemma dropWhile_dropWhile: "(\<And>c. D c \<Longrightarrow> P c) \<Longrightarrow> dropWhile P (dropWhile D s) = dropWhile P s"
  by (induction s) auto

lemma dropWhile_filter: "(\<And>c. \<not> P c \<Longrightarrow> Q c) \<Longrightarrow> dropWhile P (filter Q s) = filter Q (dropWhile P s)"
  by (induction s) auto

lemma path_char_dropped: "blank_char c \<Longrightarrow> path_char c" "\<not> path_char c \<Longrightarrow> kept_char c"
  by (auto simp: path_char_def blank_char_def kept_char_def)

lemma scheme_char_facts:
  assumes "scheme_char c"
  shows "path_char c" "\<not> blank_char c" "kept_char c"
proof -
  show "path_char c" using assms by (auto simp: scheme_char_def path_char_def to_lower_char_def Let_def)
  have "(of_char (to_lower_char c) :: nat) \<le> 32 \<or> 65 \<le> (of_char c :: nat)" if "(of_char c :: nat) \<le> 32"
    using that by (simp add: to_lower_char_def Let_def)
  then show "\<not> blank_char c" using assms by (auto simp: blank_char_def scheme_char_def to_lower_char_def Let_def split: if_splits)
  then show "kept_char c" by (auto simp: blank_char_def kept_char_def)
qed

text \<open>The first character that ends a path is the same in a URL and in the text the browser reads.\<close>

lemma path_end: "\<exists>r. dropWhile path_char (url_text s) = (case dropWhile path_char s of [] \<Rightarrow> [] | c # _ \<Rightarrow> c # r)"
proof -
  have "dropWhile path_char (dropWhile blank_char s) = dropWhile path_char s"
    by (rule dropWhile_dropWhile) (rule path_char_dropped)
  moreover have "dropWhile path_char (url_text s) = filter kept_char (dropWhile path_char (dropWhile blank_char s))"
    unfolding url_text_def by (rule dropWhile_filter) (rule path_char_dropped)
  ultimately have f: "dropWhile path_char (url_text s) = filter kept_char (dropWhile path_char s)" by simp
  show ?thesis
  proof (cases "dropWhile path_char s")
    case Nil
    then show ?thesis unfolding f by (simp only: list.case filter.simps simp_thms)
  next
    case (Cons c r)
    then have "kept_char c" using path_char_dropped(2) hd_dropWhile [of path_char s] by simp
    then show ?thesis unfolding f Cons by simp
  qed
qed

lemma safe_url_not_script:
  assumes safe: "SAFE_URL_PATTERN s"
  shows "url_scheme s \<noteq> Some ''javascript''"
proof
  assume js: "url_scheme s = Some ''javascript''"
  let ?u = "url_text s" let ?w = "takeWhile scheme_char ?u"
  from js have w: "map to_lower_char ?w = ''javascript''" and colon: "startsWith (dropWhile scheme_char ?u) '':''"
    by (auto simp: url_scheme_def Let_def split: if_splits)
  obtain r where r: "dropWhile scheme_char ?u = CHR '':'' # r" using colon
    by (cases "dropWhile scheme_char ?u") (auto simp: startsWith_def)
  have u: "?u = ?w @ CHR '':'' # r" using takeWhile_dropWhile_id [of scheme_char ?u] r by simp
  have p: "list_all path_char ?w" using scheme_char_facts(1) by (auto simp: list_all_iff dest: set_takeWhileD)
  have "dropWhile path_char ?u = CHR '':'' # r"
    by (subst u) (use p in \<open>simp add: dropWhile_append2 list_all_iff path_char_def\<close>)
  then obtain r' where r': "dropWhile path_char s = CHR '':'' # r'" using path_end [of s]
    by (cases "dropWhile path_char s") auto
  with safe have s: "takeWhile scheme_char s \<noteq> []" "startsWith (dropWhile scheme_char s) '':''"
    "\<not> startsWith (map to_lower_char s) ''javascript:''" by (auto simp: SAFE_URL_PATTERN_def)
  obtain z where z: "dropWhile scheme_char s = CHR '':'' # z" using s(2)
    by (cases "dropWhile scheme_char s") (auto simp: startsWith_def)
  let ?v = "takeWhile scheme_char s"
  have sv: "s = ?v @ CHR '':'' # z" using takeWhile_dropWhile_id [of scheme_char s] z by simp
  have v: "\<forall>c\<in>set ?v. scheme_char c \<and> \<not> blank_char c \<and> kept_char c" using scheme_char_facts by (auto dest: set_takeWhileD)
  have "dropWhile blank_char (?v @ y) = ?v @ y" for y using s(1) v by (cases ?v) auto
  moreover have "filter kept_char ?v = ?v" using v by simp
  moreover have "kept_char (CHR '':'')" by code_simp
  ultimately have "?u = ?v @ CHR '':'' # filter kept_char z" unfolding url_text_def by (subst sv) simp
  moreover have "\<not> scheme_char (CHR '':'')" by code_simp
  ultimately have "?w = ?v" using v by (simp add: takeWhile_append2)
  with w have "map to_lower_char s = ''javascript'' @ map to_lower_char (CHR '':'' # z)" by (subst sv) simp
  then have "startsWith (map to_lower_char s) ''javascript:''" by (simp add: startsWith_def to_lower_char_def)
  with s(3) show False ..
qed


lemma lower_lower: "to_lower_char (to_lower_char c) = to_lower_char c"
  by (auto simp: to_lower_char_def Let_def)

lemma default_names:
  "list_all (\<lambda>(n, rs). list_all (\<lambda>r. case r of AttrIs a \<Rightarrow> \<not> startsWith a ''on'' | AttrLike f \<Rightarrow> n = ''*'') rs) DefaultAllowlist"
  "''script'' \<notin> set (map fst DefaultAllowlist)"
  by code_simp+

lemma default_rules:
  assumes "r \<in> set (allowed_for DefaultAllowlist n)"
  shows "r = AttrLike ARIA_ATTRIBUTE_PATTERN \<or> (\<exists>a. r = AttrIs a \<and> \<not> startsWith a ''on'')"
proof -
  have star: "map_of DefaultAllowlist ''*'' = Some (map AttrIs [''class'', ''dir'', ''id'', ''lang'', ''role''] @ [AttrLike ARIA_ATTRIBUTE_PATTERN])"
    by (simp add: DefaultAllowlist_def)
  show ?thesis
  proof (cases "\<exists>rs. map_of DefaultAllowlist n = Some rs \<and> r \<in> set rs \<and> n \<noteq> ''*''")
    case True
    then obtain rs where "(n, rs) \<in> set DefaultAllowlist" "r \<in> set rs" "n \<noteq> ''*''" by (auto dest: map_of_SomeD)
    with default_names(1) have "case r of AttrIs a \<Rightarrow> \<not> startsWith a ''on'' | AttrLike f \<Rightarrow> n = ''*''" by (fastforce simp: list_all_iff)
    with \<open>n \<noteq> ''*''\<close> show ?thesis by (simp split: attr_rule.splits)
  next
    case False
    with assms have "r \<in> set (map AttrIs [''class'', ''dir'', ''id'', ''lang'', ''role''] @ [AttrLike ARIA_ATTRIBUTE_PATTERN])"
      by (auto simp: allowed_for_def star split: option.splits)
    then show ?thesis by (auto simp: startsWith_def)
  qed
qed


text \<open>A document with a script, a link that hides one behind a blank and a tab, and a handler.\<close>

definition unsafe_page :: page where
  "unsafe_page = \<lparr>tree = Elem 1 [Elem 2 [Elem 3 [Elem 4 []], Elem 5 []]],
     nodes = (\<lambda>e. \<lparr>tagName = (if e = 3 then ''DIV'' else if e = 4 then ''A'' else if e = 5 then ''SCRIPT'' else ''BODY''), classList = [],
       attributes = (if e = 4 then [(''href'', '' java'' @ [CHR 0x09] @ ''script:alert(1)''), (''title'', ''t'')]
                     else if e = 3 then [(''onclick'', ''alert(1)'')] else []),
       style = (\<lambda>_. []), textContent = []\<rparr>), focused = None, ev_log = []\<rparr>"

theorem sanitized_is_allowed_witness:
  "attributes (nodes (sanitize_body DefaultAllowlist 2 unsafe_page) 4) = [(''title'', ''t'')]
   \<and> descendants (sanitize_body DefaultAllowlist 2 unsafe_page) 2 = [3, 4]"
proof -
  have *: "wf_page unsafe_page" "4 \<in> set (descendants (sanitize_body DefaultAllowlist 2 unsafe_page) 2)"
    "descendants (sanitize_body DefaultAllowlist 2 unsafe_page) 2 = [3, 4]" "distinct (map fst (attributes (nodes unsafe_page 4)))"
    "filter (\<lambda>a. allowedAttribute a (allowed_for DefaultAllowlist (nodeName unsafe_page 4))) (attributes (nodes unsafe_page 4)) = [(''title'', ''t'')]"
    by code_simp+
  from sanitized_is_allowed [OF *(1,2)] * show ?thesis by simp
qed


end
