(* ===== verification/Bs_ScrollSpy.thy ===== *)
theory Bs_ScrollSpy
  imports Bs_Base
begin

text \<open>
  Bootstrap's \<open>scrollspy.js\<close> in \<open>bootstrap.bundle.js\<close>: the link of a menu that belongs to the section
  in view is highlighted.  The intersection observer is the browser; the entries it reports are the
  input of \<open>observerCallback\<close>, and what the code reads of the layout is the record \<open>spy_view\<close>.
\<close>

section \<open>decodeURI\<close>

text \<open>Strings as bytes of their UTF-8 form; \<open>None\<close> is the \<open>URIError\<close>.\<close>

definition hex_value :: "char \<Rightarrow> nat option" where
  "hex_value c =
     (let n = of_char c :: nat
      in if 48 \<le> n \<and> n \<le> 57 then Some (n - 48) else if 65 \<le> n \<and> n \<le> 70 then Some (n - 55)
         else if 97 \<le> n \<and> n \<le> 102 then Some (n - 87) else None)"

fun escape_value :: "string \<Rightarrow> (nat \<times> string) option" where
  "escape_value (c # a # b # cs) =
     (if c \<noteq> CHR ''%'' then None
      else (case (hex_value a, hex_value b) of (Some x, Some y) \<Rightarrow> Some (16 * x + y, cs) | _ \<Rightarrow> None))"
| "escape_value _ = None"

text \<open>The continuation bytes \<open>10xxxxxx\<close> of a character, all of them escaped.\<close>

fun continuation :: "nat \<Rightarrow> string \<Rightarrow> (nat list \<times> string) option" where
  "continuation 0 cs = Some ([], cs)"
| "continuation (Suc k) cs =
     (case escape_value cs of
        None \<Rightarrow> None
      | Some (v, cs') \<Rightarrow>
          if v div 64 = 2 then (case continuation k cs' of None \<Rightarrow> None | Some (vs, r) \<Rightarrow> Some (v # vs, r)) else None)"

definition sequence_length :: "nat \<Rightarrow> nat option" where
  "sequence_length v = (if v div 32 = 6 then Some 1 else if v div 16 = 14 then Some 2 else if v div 8 = 30 then Some 3 else None)"

definition code_point :: "nat \<Rightarrow> nat list \<Rightarrow> nat" where
  "code_point v vs = foldl (\<lambda>a b. 64 * a + b mod 64) (v mod 2 ^ (6 - length vs)) vs"

definition valid_code_point :: "nat \<Rightarrow> nat \<Rightarrow> bool" where
  "valid_code_point k cp \<longleftrightarrow> (if k = 1 then 128 \<le> cp else if k = 2 then 2048 \<le> cp \<and> \<not> (55296 \<le> cp \<and> cp \<le> 57343) else 65536 \<le> cp \<and> cp \<le> 1114111)"

definition uri_reserved :: string where
  "uri_reserved = '';/?:@&=+$,#''"

text \<open>The text of one character and what follows it.\<close>

definition decode_one :: "string \<Rightarrow> (string \<times> string) option" where
  "decode_one cs =
     (case escape_value cs of
        None \<Rightarrow> None
      | Some (v, r) \<Rightarrow>
          if v < 128 then Some (if char_of v \<in> set uri_reserved then take 3 cs else [char_of v], r)
          else (case sequence_length v of
                  None \<Rightarrow> None
                | Some k \<Rightarrow>
                    (case continuation k r of
                       None \<Rightarrow> None
                     | Some (vs, r') \<Rightarrow> if valid_code_point k (code_point v vs) then Some (map char_of (v # vs), r') else None)))"

lemma escape_value_length: "escape_value cs = Some (v, r) \<Longrightarrow> length r < length cs"
  by (cases cs rule: escape_value.cases) (auto split: if_splits option.splits)

lemma continuation_length: "continuation k cs = Some (vs, r) \<Longrightarrow> length r \<le> length cs"
  by (induction k arbitrary: cs vs) (force split: option.splits if_splits dest: escape_value_length)+

lemma decode_one_length: "decode_one cs = Some (t, r) \<Longrightarrow> length r < length cs"
  by (auto simp: decode_one_def split: option.splits if_splits dest!: escape_value_length continuation_length)

function decodeURI :: "string \<Rightarrow> string option" where
  "decodeURI [] = Some []"
| "decodeURI (c # cs) =
     (if c \<noteq> CHR ''%'' then map_option (\<lambda>r. c # r) (decodeURI cs)
      else (case decode_one (c # cs) of None \<Rightarrow> None | Some (t, r) \<Rightarrow> map_option (\<lambda>u. t @ u) (decodeURI r)))"
  by pat_completeness auto
termination
  by (relation "measure length") (auto dest: decode_one_length)

section \<open>State\<close>

datatype spy_active = NoTarget | UndefinedTarget | ActiveTarget elem

record spy =
  sp_target :: elem
  sp_smooth :: bool
  sp_rootMargin :: jsval
  sp_threshold :: jsval
  sp_root :: "elem option"
  sp_links :: "(string \<times> elem) list"
  sp_sections :: "(string \<times> elem) list"
  sp_active :: spy_active
  sp_top :: rat
  sp_scroll :: rat
  sp_observed :: "elem list option"

record spies =
  yp :: page
  yinsts :: "elem \<Rightarrow> spy option"

text \<open>\<open>link_hash\<close> is the \<open>hash\<close> of a link, empty when it has none; \<open>number_text\<close> how a number is written.\<close>

record spy_view =
  link_hash :: "elem \<Rightarrow> string"
  offset_top :: "elem \<Rightarrow> rat"
  scroll_top :: "elem \<Rightarrow> rat"
  overflow_y :: "elem \<Rightarrow> string"
  body_el :: elem
  write_number :: "rat \<Rightarrow> string"

datatype spy_error = MalformedURI | SelectorSyntax | NullTarget | ConfigError string

type_synonym spy_result = "spies \<times> spy_error option"

definition set_spy :: "elem \<Rightarrow> spy \<Rightarrow> spies \<Rightarrow> spies" where
  "set_spy e c s = s\<lparr>yinsts := (yinsts s)(e \<mapsto> c)\<rparr>"

section \<open>Configuration\<close>

definition spy_default :: config where
  "spy_default = [(''offset'', JNull), (''rootMargin'', JStr ''0px 0px -25%''), (''smoothScroll'', JBool False), (''target'', JNull),
     (''threshold'', JArr [JNum (1/10), JNum (1/2), JNum 1])]"

definition spy_defaultType :: "(string \<times> string) list" where
  "spy_defaultType = [(''offset'', ''(number|null)''), (''rootMargin'', ''string''), (''smoothScroll'', ''boolean''), (''target'', ''element''),
     (''threshold'', ''array'')]"

fun offset_text :: "spy_view \<Rightarrow> jsval \<Rightarrow> string" where
  "offset_text v (JNum r) = write_number v r"
| "offset_text v (JStr t) = t"
| "offset_text v (JBool b) = bool_str b"
| "offset_text v (JInf neg) = (if neg then ''-Infinity'' else ''Infinity'')"
| "offset_text v _ = ''[object Object]''"

fun threshold_list :: "jsval \<Rightarrow> jsval" where
  "threshold_list (JStr t) = JArr (map (\<lambda>x. case parseFloat x of None \<Rightarrow> JNaN | Some r \<Rightarrow> JNum r) (split_on (CHR '','') t))"
| "threshold_list x = x"

definition spy_configAfterMerge :: "spy_view \<Rightarrow> elem option \<Rightarrow> config \<Rightarrow> config" where
  "spy_configAfterMerge v target c =
     (let c1 = AList.update ''target'' (JElem (case target of None \<Rightarrow> body_el v | Some x \<Rightarrow> x)) c;
          c2 = (if js_truthy (js_get c1 ''offset'') then AList.update ''rootMargin'' (JStr (offset_text v (js_get c1 ''offset'') @ ''px 0px -30%'')) c1 else c1)
      in AList.update ''threshold'' (threshold_list (js_get c2 ''threshold'')) c2)"

section \<open>Links and sections\<close>

definition SELECTOR_TARGET_LINKS :: selector where
  "SELECTOR_TARGET_LINKS = [[[SelHasAttr ''href'']]]"

definition SELECTOR_NAV_LIST_GROUP :: selector where
  "SELECTOR_NAV_LIST_GROUP = [[[SelClass ''nav'']], [[SelClass ''list-group'']]]"

text \<open>The alternative \<open>.nav-item > .nav-link\<close> of the source is contained in \<open>.nav-link\<close>.\<close>

definition SELECTOR_LINK_ITEMS :: selector where
  "SELECTOR_LINK_ITEMS = [[[SelClass ''nav-link'']], [[SelClass ''list-group-item'']]]"

text \<open>\<open>Map.set\<close> keeps the place of a key that is there already.\<close>

fun initialize_links :: "host \<Rightarrow> spy_view \<Rightarrow> page \<Rightarrow> elem \<Rightarrow> elem list \<Rightarrow> spy \<Rightarrow> spy \<times> spy_error option" where
  "initialize_links h v p e [] c = (c, None)"
| "initialize_links h v p e (anchor # rest) c =
     (if link_hash v anchor = [] \<or> isDisabled h p (Some anchor) then initialize_links h v p e rest c
      else (case decodeURI (link_hash v anchor) of
              None \<Rightarrow> (c, Some MalformedURI)
            | Some u \<Rightarrow>
                (case parse_sel h u of
                   None \<Rightarrow> (c, Some SelectorSyntax)
                 | Some sel \<Rightarrow>
                     (case SE_findOne p e sel of
                        None \<Rightarrow> initialize_links h v p e rest c
                      | Some x \<Rightarrow>
                          initialize_links h v p e rest
                            (if isVisible h p (JElem x) then c\<lparr>sp_links := AList.update u anchor (sp_links c),
                               sp_sections := AList.update (link_hash v anchor) x (sp_sections c)\<rparr> else c)))))"

definition initializeTargetsAndObservables :: "host \<Rightarrow> spy_view \<Rightarrow> page \<Rightarrow> elem \<Rightarrow> spy \<Rightarrow> spy \<times> spy_error option" where
  "initializeTargetsAndObservables h v p e c =
     initialize_links h v p e (SE_find p (sp_target c) SELECTOR_TARGET_LINKS) (c\<lparr>sp_links := [], sp_sections := []\<rparr>)"

text \<open>\<open>observe\<close> adds a section that is not observed yet.\<close>

definition observe_all :: "(string \<times> elem) list \<Rightarrow> elem list" where
  "observe_all secs = remdups (map snd secs)"

definition spy_refresh :: "host \<Rightarrow> spy_view \<Rightarrow> elem \<Rightarrow> spies \<Rightarrow> spy_result" where
  "spy_refresh h v e s =
     (case yinsts s e of
        None \<Rightarrow> (s, None)
      | Some c \<Rightarrow>
          (case initializeTargetsAndObservables h v (yp s) e c of
             (c1, Some err) \<Rightarrow> (set_spy e c1 s, Some err)
           | (c1, None) \<Rightarrow> (set_spy e (c1\<lparr>sp_observed := Some (observe_all (sp_sections c1))\<rparr>) s, None)))"

definition spy_dispose :: "elem \<Rightarrow> spies \<Rightarrow> spies" where
  "spy_dispose e s = s\<lparr>yinsts := (yinsts s)(e := None)\<rparr>"

definition spy_new :: "(string \<Rightarrow> jsval option) \<Rightarrow> host \<Rightarrow> spy_view \<Rightarrow> elem \<Rightarrow> jsval \<Rightarrow> spies \<Rightarrow> spy_result" where
  "spy_new json h v e config s =
     (case getElement h (yp s) (js_get (mergeConfigObj json (yp s) spy_default config (Some e)) ''target'') of
        None \<Rightarrow> (s, Some SelectorSyntax)
      | Some target \<Rightarrow>
          (case getConfig h json (yp s) ''scrollspy'' spy_default spy_defaultType (spy_configAfterMerge v target) config (Some e) of
             Inl err \<Rightarrow> (s, Some (ConfigError err))
           | Inr c \<Rightarrow>
               spy_refresh h v e (set_spy e \<lparr>sp_target = (case target of None \<Rightarrow> body_el v | Some x \<Rightarrow> x),
                 sp_smooth = js_truthy (js_get c ''smoothScroll''), sp_rootMargin = js_get c ''rootMargin'', sp_threshold = js_get c ''threshold'',
                 sp_root = (if overflow_y v e = ''visible'' then None else Some e), sp_links = [], sp_sections = [], sp_active = NoTarget,
                 sp_top = 0, sp_scroll = 0, sp_observed = None\<rparr> s)))"

text \<open>A click on a link of the menu with \<open>smoothScroll\<close>: where to scroll (\<open>None\<close> for the window) and how far.\<close>

definition smooth_click :: "spy_view \<Rightarrow> elem \<Rightarrow> elem \<Rightarrow> spies \<Rightarrow> (elem option \<times> rat) option" where
  "smooth_click v e clicked s =
     (case yinsts s e of
        None \<Rightarrow> None
      | Some c \<Rightarrow>
          if \<not> sp_smooth c then None
          else (case map_of (sp_sections c) (link_hash v clicked) of
                  None \<Rightarrow> None
                | Some x \<Rightarrow> Some (sp_root c, offset_top v x - offset_top v e)))"

section \<open>Highlighting\<close>

definition clearActiveClass :: "elem \<Rightarrow> page \<Rightarrow> page" where
  "clearActiveClass parent p =
     (let p1 = remove_class parent ''active'' p
      in foldl (\<lambda>q node. remove_class node ''active'' q) p1 (SE_find p1 parent [[[SelHasAttr ''href'', SelClass ''active'']]]))"

definition activate_prev :: "page \<Rightarrow> elem \<Rightarrow> page" where
  "activate_prev p listGroup = foldl (\<lambda>q item. add_class item ''active'' q) p (SE_prev p listGroup SELECTOR_LINK_ITEMS)"

definition activateParents :: "elem \<Rightarrow> page \<Rightarrow> page \<times> spy_error option" where
  "activateParents target p =
     (if has_class p target ''dropdown-item'' then
        (case closest p [[[SelClass ''dropdown'']]] target of
           None \<Rightarrow> (p, Some NullTarget)
         | Some d \<Rightarrow>
             (case SE_findOne p d [[[SelClass ''dropdown-toggle'']]] of
                None \<Rightarrow> (p, Some NullTarget)
              | Some t \<Rightarrow> (add_class t ''active'' p, None)))
      else (foldl activate_prev p (SE_parents p target SELECTOR_NAV_LIST_GROUP), None))"

fun same_target :: "spy_active \<Rightarrow> elem option \<Rightarrow> bool" where
  "same_target (ActiveTarget x) (Some y) = (x = y)"
| "same_target UndefinedTarget None = True"
| "same_target _ _ = False"

definition spy_process :: "host \<Rightarrow> elem \<Rightarrow> elem option \<Rightarrow> spies \<Rightarrow> spy_result" where
  "spy_process h e target s =
     (case yinsts s e of
        None \<Rightarrow> (s, None)
      | Some c \<Rightarrow>
          if same_target (sp_active c) target then (s, None)
          else (let p1 = clearActiveClass (sp_target c) (yp s)
                in (case target of
                      None \<Rightarrow> (set_spy e (c\<lparr>sp_active := UndefinedTarget\<rparr>) (s\<lparr>yp := p1\<rparr>), Some NullTarget)
                    | Some l \<Rightarrow>
                        (let s1 = set_spy e (c\<lparr>sp_active := ActiveTarget l\<rparr>) s
                         in (case activateParents l (add_class l ''active'' p1) of
                               (p2, Some err) \<Rightarrow> (s1\<lparr>yp := p2\<rparr>, Some err)
                             | (p2, None) \<Rightarrow> (s1\<lparr>yp := triggering h e ''activate.bs.scrollspy'' p2\<rparr>, None))))))"

section \<open>The observer callback\<close>

text \<open>An entry: the section and whether it intersects.\<close>

type_synonym spy_entry = "elem \<times> bool"

definition targetElement :: "page \<Rightarrow> spy \<Rightarrow> elem \<Rightarrow> elem option" where
  "targetElement p c x = map_of (sp_links c) (CHR ''#'' # (case getAttribute p x ''id'' of None \<Rightarrow> [] | Some i \<Rightarrow> i))"

definition spy_activate :: "host \<Rightarrow> spy_view \<Rightarrow> elem \<Rightarrow> elem \<Rightarrow> spies \<Rightarrow> spy_result" where
  "spy_activate h v e x s =
     (case yinsts s e of
        None \<Rightarrow> (s, None)
      | Some c \<Rightarrow> spy_process h e (targetElement (yp s) c x) (set_spy e (c\<lparr>sp_top := offset_top v x\<rparr>) s))"

definition spy_leave :: "elem \<Rightarrow> elem \<Rightarrow> spies \<Rightarrow> spy_result" where
  "spy_leave e x s =
     (case yinsts s e of
        None \<Rightarrow> (s, None)
      | Some c \<Rightarrow>
          (let s1 = set_spy e (c\<lparr>sp_active := NoTarget\<rparr>) s
           in (case targetElement (yp s) c x of
                 None \<Rightarrow> (s1, Some NullTarget)
               | Some l \<Rightarrow> (s1\<lparr>yp := clearActiveClass l (yp s)\<rparr>, None))))"

definition top_of :: "elem \<Rightarrow> spies \<Rightarrow> rat" where
  "top_of e s = (case yinsts s e of None \<Rightarrow> 0 | Some c \<Rightarrow> sp_top c)"

fun spy_entries :: "host \<Rightarrow> spy_view \<Rightarrow> elem \<Rightarrow> bool \<Rightarrow> rat \<Rightarrow> spy_entry list \<Rightarrow> spies \<Rightarrow> spy_result" where
  "spy_entries h v e userScrollsDown parentScrollTop [] s = (s, None)"
| "spy_entries h v e userScrollsDown parentScrollTop ((x, isIntersecting) # rest) s =
     (if \<not> isIntersecting then and_then (spy_leave e x s) (spy_entries h v e userScrollsDown parentScrollTop rest)
      else (let entryIsLowerThanPrevious = offset_top v x \<ge> top_of e s
            in if userScrollsDown \<and> entryIsLowerThanPrevious then
                 and_then (spy_activate h v e x s)
                   (if parentScrollTop = 0 then (\<lambda>s1. (s1, None)) else spy_entries h v e userScrollsDown parentScrollTop rest)
               else if \<not> userScrollsDown \<and> \<not> entryIsLowerThanPrevious then
                 and_then (spy_activate h v e x s) (spy_entries h v e userScrollsDown parentScrollTop rest)
               else spy_entries h v e userScrollsDown parentScrollTop rest s))"

definition observerCallback :: "host \<Rightarrow> spy_view \<Rightarrow> elem \<Rightarrow> spy_entry list \<Rightarrow> spies \<Rightarrow> spy_result" where
  "observerCallback h v e entries s =
     (case yinsts s e of
        None \<Rightarrow> (s, None)
      | Some c \<Rightarrow>
          (let parentScrollTop = scroll_top v (case sp_root c of None \<Rightarrow> doc_root (yp s) | Some r \<Rightarrow> r)
           in spy_entries h v e (parentScrollTop \<ge> sp_scroll c) parentScrollTop entries (set_spy e (c\<lparr>sp_scroll := parentScrollTop\<rparr>) s)))"

section \<open>Data API\<close>

fun spy_load_all :: "(string \<Rightarrow> jsval option) \<Rightarrow> host \<Rightarrow> spy_view \<Rightarrow> elem list \<Rightarrow> spies \<Rightarrow> spy_result" where
  "spy_load_all json h v [] s = (s, None)"
| "spy_load_all json h v (e # es) s =
     and_then (if yinsts s e \<noteq> None then (s, None) else spy_new json h v e (JObj []) s) (spy_load_all json h v es)"

definition spy_load :: "(string \<Rightarrow> jsval option) \<Rightarrow> host \<Rightarrow> spy_view \<Rightarrow> spies \<Rightarrow> spy_result" where
  "spy_load json h v s = spy_load_all json h v (SE_find (yp s) (doc_root (yp s)) [[[SelAttr ''data-bs-spy'' ''scroll'']]]) s"

section \<open>What is highlighted\<close>

lemma active_free [simp]: "free_of {''active''} [[[SelClass ''dropdown'']]]" "free_of {''active''} [[[SelClass ''dropdown-toggle'']]]"
  "free_of {''active''} SELECTOR_NAV_LIST_GROUP" "free_of {''active''} SELECTOR_LINK_ITEMS" "free_of {''active''} SELECTOR_TARGET_LINKS"
  by (simp_all add: free_of_def SELECTOR_NAV_LIST_GROUP_def SELECTOR_LINK_ITEMS_def SELECTOR_TARGET_LINKS_def)

lemma remove_all_classes:
  "has_class (foldl (\<lambda>q n. remove_class n c q) p ns) x d = (has_class p x d \<and> \<not> (d = c \<and> x \<in> set ns))"
  "same_but {c} p (foldl (\<lambda>q n. remove_class n c q) p ns)"
proof -
  show "has_class (foldl (\<lambda>q n. remove_class n c q) p ns) x d = (has_class p x d \<and> \<not> (d = c \<and> x \<in> set ns))"
    by (induction ns arbitrary: p) (auto simp: dom_simps)
  show "same_but {c} p (foldl (\<lambda>q n. remove_class n c q) p ns)"
    by (induction ns arbitrary: p) (auto intro: same_but_trans [OF same_but_class(2)])
qed

lemma add_all_classes:
  "has_class (foldl (\<lambda>q n. add_class n c q) p ns) x d = (has_class p x d \<or> d = c \<and> x \<in> set ns)"
  "same_but {c} p (foldl (\<lambda>q n. add_class n c q) p ns)"
proof -
  show "has_class (foldl (\<lambda>q n. add_class n c q) p ns) x d = (has_class p x d \<or> d = c \<and> x \<in> set ns)"
    by (induction ns arbitrary: p) (auto simp: dom_simps)
  show "same_but {c} p (foldl (\<lambda>q n. add_class n c q) p ns)"
    by (induction ns arbitrary: p) (auto intro: same_but_trans [OF same_but_class(1)])
qed

text \<open>The links of a menu.\<close>

definition menu_link :: "page \<Rightarrow> elem \<Rightarrow> elem \<Rightarrow> bool" where
  "menu_link p m x \<longleftrightarrow> x \<in> set (descendants p m) \<and> getAttribute p x ''href'' \<noteq> None"

lemma clear_effect:
  "has_class (clearActiveClass m p) x d = (has_class p x d \<and> \<not> (d = ''active'' \<and> (x = m \<or> menu_link p m x)))"
  "same_but {''active''} p (clearActiveClass m p)"
proof -
  let ?p = "remove_class m ''active'' p"
  have d: "descendants ?p m = descendants p m" by (rule descendants_tree) (simp add: dom_simps)
  show "has_class (clearActiveClass m p) x d = (has_class p x d \<and> \<not> (d = ''active'' \<and> (x = m \<or> menu_link p m x)))"
    unfolding clearActiveClass_def Let_def remove_all_classes SE_find_def querySelectorAll_compound d
    by (auto simp: dom_simps menu_link_def)
  show "same_but {''active''} p (clearActiveClass m p)"
    unfolding clearActiveClass_def Let_def by (rule same_but_trans [OF same_but_class(2) remove_all_classes(2)]) simp
qed

text \<open>The elements that are highlighted with a link.\<close>

definition spy_trail :: "page \<Rightarrow> elem \<Rightarrow> elem set" where
  "spy_trail p l =
     (if has_class p l ''dropdown-item'' then
        (case closest p [[[SelClass ''dropdown'']]] l of
           None \<Rightarrow> {}
         | Some d \<Rightarrow> (case SE_findOne p d [[[SelClass ''dropdown-toggle'']]] of None \<Rightarrow> {} | Some t \<Rightarrow> {t}))
      else (\<Union>g \<in> set (SE_parents p l SELECTOR_NAV_LIST_GROUP). set (SE_prev p g SELECTOR_LINK_ITEMS)))"

lemma same_walks:
  assumes "same_but C p q" "free_of C sel"
  shows "SE_parents q l sel = SE_parents p l sel" "SE_prev q l sel = SE_prev p l sel" "SE_findOne q l sel = SE_findOne p l sel"
proof -
  have t: "tree q = tree p" using assms(1) by (simp add: same_but_def)
  have "matches q sel = matches p sel" by (rule ext) (simp add: same_matches [OF assms])
  moreover have "siblings_before q l = siblings_before p l" unfolding siblings_before_def parentNode_def children_def t ..
  ultimately show "SE_parents q l sel = SE_parents p l sel" "SE_prev q l sel = SE_prev p l sel"
    by (simp_all add: SE_parents_filter SE_prev_def first_matching_first_of t)
  show "SE_findOne q l sel = SE_findOne p l sel" by (simp add: SE_findOne_def same_queries [OF assms])
qed

lemma trail_same: "same_but {''active''} p q \<Longrightarrow> spy_trail q l = spy_trail p l"
proof -
  assume s: "same_but {''active''} p q"
  then have "has_class q l ''dropdown-item'' = has_class p l ''dropdown-item''" by (simp add: same_but_def)
  then show ?thesis by (simp add: spy_trail_def same_queries [OF s] same_walks [OF s] split: option.split)
qed

lemma prev_effect:
  "has_class (foldl activate_prev p gs) x d = (has_class p x d \<or> d = ''active'' \<and> (\<exists>g \<in> set gs. x \<in> set (SE_prev p g SELECTOR_LINK_ITEMS)))
    \<and> same_but {''active''} p (foldl activate_prev p gs)"
proof (induction gs arbitrary: p)
  case (Cons g gs)
  have s: "same_but {''active''} p (activate_prev p g)" by (simp add: activate_prev_def add_all_classes(2))
  show ?case using Cons.IH [of "activate_prev p g"] same_but_trans [OF s] same_walks(2) [OF s]
    by (auto simp: activate_prev_def add_all_classes)
qed simp

lemma parents_effect:
  assumes "activateParents l p = (p', err)"
  shows "same_but {''active''} p p'" "has_class p' x ''active'' \<Longrightarrow> has_class p x ''active'' \<or> x \<in> spy_trail p l"
    "err = None \<Longrightarrow> has_class p' x ''active'' = (has_class p x ''active'' \<or> x \<in> spy_trail p l)"
  using assms prev_effect [of p "SE_parents p l SELECTOR_NAV_LIST_GROUP"]
  by (auto simp: activateParents_def spy_trail_def same_but_class dom_simps split: if_splits option.splits)

subsection \<open>One trail at a time\<close>

text \<open>The links of the menu that are highlighted lie on the trail of one link.\<close>

fun on_trail :: "page \<Rightarrow> elem option \<Rightarrow> elem \<Rightarrow> bool" where
  "on_trail p None x = False"
| "on_trail p (Some l) x = (x = l \<or> x \<in> spy_trail p l)"

definition one_trail :: "page \<Rightarrow> elem \<Rightarrow> bool" where
  "one_trail p m \<longleftrightarrow> (\<exists>lo. \<forall>x. menu_link p m x \<longrightarrow> has_class p x ''active'' \<longrightarrow> on_trail p lo x)"

lemma link_same: "same_but {''active''} p q \<Longrightarrow> menu_link q m x = menu_link p m x"
proof -
  assume s: "same_but {''active''} p q"
  then have "descendants q m = descendants p m" by (intro descendants_tree) (simp add: same_but_def)
  with s show ?thesis by (simp add: menu_link_def same_but_def)
qed

lemma on_trail_same: "same_but {''active''} p q \<Longrightarrow> on_trail q lo x = on_trail p lo x"
  by (cases lo) (simp_all add: trail_same)

lemma one_trail_less:
  assumes "one_trail p m" "same_but {''active''} p q" "\<And>x. has_class q x ''active'' \<Longrightarrow> has_class p x ''active''"
  shows "one_trail q m"
  using assms(1,3) unfolding one_trail_def link_same [OF assms(2)] on_trail_same [OF assms(2)] by blast

definition spy_ok :: "elem \<Rightarrow> elem \<Rightarrow> page \<Rightarrow> spies \<Rightarrow> bool" where
  "spy_ok e m p s \<longleftrightarrow> one_trail (yp s) m \<and> same_but {''active''} p (yp s) \<and> (\<forall>c. yinsts s e = Some c \<longrightarrow> sp_target c = m)"

lemma process_effect:
  assumes ok: "spy_ok e m p s" and r: "spy_process h e target s = (s', err)"
  shows "spy_ok e m p s'"
proof -
  have go: "spy_ok e m p s'" if c: "yinsts s e = Some c" "\<not> same_target (sp_active c) target" for c
  proof -
    have m: "sp_target c = m" and one: "one_trail (yp s) m" and pg: "same_but {''active''} p (yp s)" using ok c(1) by (simp_all add: spy_ok_def)
    let ?p1 = "clearActiveClass m (yp s)"
    note k = clear_effect [where m = m and p = "yp s"]
    show ?thesis
    proof (cases target)
      case None
      have "one_trail ?p1 m" by (rule one_trail_less [OF one k(2)]) (simp add: k(1))
      with c m r None same_but_trans [OF pg k(2)] show ?thesis by (auto simp: spy_process_def Let_def set_spy_def spy_ok_def)
    next
      case (Some y)
      obtain p2 e2 where p2: "activateParents y (add_class y ''active'' ?p1) = (p2, e2)" by fastforce
      note q = parents_effect [OF p2]
      have s2: "same_but {''active''} (yp s) (add_class y ''active'' ?p1)" by (rule same_but_trans [OF k(2) same_but_class(1)]) simp
      have s3: "same_but {''active''} (yp s) p2" by (rule same_but_trans [OF s2 q(1)])
      have tr: "spy_trail (add_class y ''active'' ?p1) y = spy_trail (yp s) y" by (rule trail_same [OF s2])
      have "on_trail p2 (Some y) x" if "menu_link p2 m x" "has_class p2 x ''active''" for x
        using q(2) [OF that(2)] that(1) unfolding tr link_same [OF s3] on_trail_same [OF s3] by (auto simp: k(1) dom_simps)
      then have one2: "one_trail p2 m" unfolding one_trail_def by blast
      have yps: "(yp s' = p2 \<or> yp s' = triggering h e ''activate.bs.scrollspy'' p2)" and i: "yinsts s' = (yinsts s)(e \<mapsto> c\<lparr>sp_active := ActiveTarget y\<rparr>)"
        using r c m Some p2 by (auto simp: spy_process_def Let_def set_spy_def split: option.splits)
      have s4: "same_but {''active''} p2 (yp s')" and a4: "has_class (yp s') x ''active'' = has_class p2 x ''active''" for x
        using yps by (auto simp: same_but_def dom_simps)
      have "one_trail (yp s') m" by (rule one_trail_less [OF one2 s4]) (simp add: a4)
      then show "spy_ok e m p s'" using m i same_but_trans [OF pg same_but_trans [OF s3 s4]] by (simp add: spy_ok_def)
    qed
  qed
  show "spy_ok e m p s'"
  proof (cases "\<exists>c. yinsts s e = Some c \<and> \<not> same_target (sp_active c) target")
    case False
    with r have "s' = s" by (auto simp: spy_process_def split: option.splits)
    with ok show ?thesis by simp
  qed (use go in blast)
qed

lemma set_spy_ok: "spy_ok e m p s \<Longrightarrow> sp_target c = m \<Longrightarrow> spy_ok e m p (set_spy e c s)"
  by (simp add: spy_ok_def set_spy_def)

lemma activate_ok:
  assumes "spy_ok e m p s"
  shows "spy_ok e m p (fst (spy_activate h v e x s))"
proof (cases "yinsts s e")
  case (Some c)
  have "spy_ok e m p (set_spy e (c\<lparr>sp_top := offset_top v x\<rparr>) s)" by (rule set_spy_ok [OF assms]) (use assms Some in \<open>simp add: spy_ok_def\<close>)
  from process_effect [OF this surjective_pairing] Some show ?thesis by (simp add: spy_activate_def)
qed (use assms in \<open>simp add: spy_activate_def\<close>)

lemma leave_ok:
  assumes "spy_ok e m p s"
  shows "spy_ok e m p (fst (spy_leave e x s))"
proof (cases "yinsts s e")
  case (Some c)
  have s1: "spy_ok e m p (set_spy e (c\<lparr>sp_active := NoTarget\<rparr>) s)" by (rule set_spy_ok [OF assms]) (use assms Some in \<open>simp add: spy_ok_def\<close>)
  have "one_trail (clearActiveClass l (yp s)) m" for l
    by (rule one_trail_less [OF _ clear_effect(2)]) (use assms in \<open>simp_all add: spy_ok_def clear_effect(1)\<close>)
  moreover have "same_but {''active''} p (clearActiveClass l (yp s))" for l
    by (rule same_but_trans [OF _ clear_effect(2)]) (use assms in \<open>simp add: spy_ok_def\<close>)
  ultimately show ?thesis using Some s1 by (auto simp: spy_leave_def Let_def spy_ok_def set_spy_def split: option.splits)
qed (use assms in \<open>simp add: spy_leave_def\<close>)

lemma and_then_fst:
  assumes "P (fst r)" "\<And>s. P s \<Longrightarrow> P (fst (f s))"
  shows "P (fst (and_then r f))"
  using assms by (cases r; cases "snd r") auto

lemma entries_ok: "spy_ok e m p s \<Longrightarrow> spy_ok e m p (fst (spy_entries h v e down st es s))"
proof (induction es arbitrary: s)
  case (Cons en es)
  obtain x b where en: "en = (x, b)" by fastforce
  note a = and_then_fst [where P = "spy_ok e m p", OF activate_ok [OF Cons.prems]] and_then_fst [where P = "spy_ok e m p", OF leave_ok [OF Cons.prems]]
  have r: "spy_ok e m p (fst (and_then (spy_activate h v e x s) (spy_entries h v e down st es)))"
    "spy_ok e m p (fst (and_then (spy_leave e x s) (spy_entries h v e down st es)))"
    "spy_ok e m p (fst (and_then (spy_activate h v e x s) (\<lambda>s1. (s1, None))))" by (rule a, rule Cons.IH, assumption)+ (rule a, simp)
  show ?case unfolding en spy_entries.simps Let_def
    by (simp only: r Cons.IH [OF Cons.prems] simp_thms split: if_split)
qed simp

lemma callback_ok:
  assumes "spy_ok e m p s"
  shows "spy_ok e m p (fst (observerCallback h v e es s))"
proof (cases "yinsts s e")
  case (Some c)
  have "spy_ok e m p (set_spy e (c\<lparr>sp_scroll := r\<rparr>) s)" for r by (rule set_spy_ok [OF assms]) (use assms Some in \<open>simp add: spy_ok_def\<close>)
  then show ?thesis using Some entries_ok by (simp add: observerCallback_def Let_def)
qed (use assms in \<open>simp add: observerCallback_def\<close>)

subsection \<open>Which section is chosen\<close>

text \<open>A dropdown item needs a dropdown with a toggle.\<close>

definition lights :: "page \<Rightarrow> elem \<Rightarrow> bool" where
  "lights p l \<longleftrightarrow> snd (activateParents l p) = None"

lemma lights_same: "same_but {''active''} p q \<Longrightarrow> lights q l = lights p l"
proof -
  assume s: "same_but {''active''} p q"
  then have "has_class q l ''dropdown-item'' = has_class p l ''dropdown-item''" by (simp add: same_but_def)
  then show ?thesis by (simp add: lights_def activateParents_def same_queries [OF s] same_walks [OF s] split: option.split)
qed

lemma process_lights:
  assumes c: "yinsts s e = Some c" and l: "lights (yp s) l"
  shows "\<exists>s'. spy_process h e (Some l) s = (s', None) \<and> yinsts s' = (yinsts s)(e \<mapsto> c\<lparr>sp_active := ActiveTarget l\<rparr>) \<and> same_but {''active''} (yp s) (yp s')"
proof (cases "same_target (sp_active c) (Some l)")
  case True
  then have "sp_active c = ActiveTarget l" by (cases "sp_active c") simp_all
  then have "c\<lparr>sp_active := ActiveTarget l\<rparr> = c" by simp
  with c True show ?thesis by (simp add: spy_process_def fun_upd_idem)
next
  case False
  let ?p = "add_class l ''active'' (clearActiveClass (sp_target c) (yp s))"
  have s: "same_but {''active''} (yp s) ?p" by (rule same_but_trans [OF clear_effect(2) same_but_class(1)]) simp
  obtain p2 where p2: "activateParents l ?p = (p2, None)" using l lights_same [OF s, of l] by (metis lights_def prod.collapse)
  have "same_but {''active''} p2 (triggering h e ''activate.bs.scrollspy'' p2)" by (simp add: same_but_def dom_simps)
  then have "same_but {''active''} (yp s) (triggering h e ''activate.bs.scrollspy'' p2)"
    using same_but_trans [OF same_but_trans [OF s parents_effect(1) [OF p2]]] by blast
  then show ?thesis using c False p2 by (simp add: spy_process_def Let_def set_spy_def)
qed

lemma activate_lights:
  assumes c: "yinsts s e = Some c" and x: "targetElement (yp s) c x = Some l" and l: "lights (yp s) l"
  obtains s' where "spy_activate h v e x s = (s', None)" "yinsts s' e = Some (c\<lparr>sp_top := offset_top v x, sp_active := ActiveTarget l\<rparr>)"
    "same_but {''active''} (yp s) (yp s')"
proof -
  let ?s = "set_spy e (c\<lparr>sp_top := offset_top v x\<rparr>) s"
  have "yinsts ?s e = Some (c\<lparr>sp_top := offset_top v x\<rparr>)" "lights (yp ?s) l" using l by (simp_all add: set_spy_def)
  from process_lights [OF this, of h] obtain s' where "spy_process h e (Some l) ?s = (s', None)"
    "yinsts s' e = Some (c\<lparr>sp_top := offset_top v x, sp_active := ActiveTarget l\<rparr>)" "same_but {''active''} (yp s) (yp s')" by (auto simp: set_spy_def)
  with c x that show ?thesis by (simp add: spy_activate_def)
qed

definition beats :: "bool \<Rightarrow> rat \<Rightarrow> rat \<Rightarrow> bool" where
  "beats down a b \<longleftrightarrow> (if down then b \<le> a else a < b)"

definition beyond :: "bool \<Rightarrow> rat \<Rightarrow> rat \<Rightarrow> bool" where
  "beyond down a b \<longleftrightarrow> (if down then b \<le> a else a \<le> b)"

lemma targetElement_same: "same_but {''active''} p q \<Longrightarrow> sp_links d = sp_links c \<Longrightarrow> targetElement q d x = targetElement p c x"
  by (simp add: targetElement_def same_but_def)

lemma entries_pick:
  assumes "yinsts s e = Some c" "\<forall>x \<in> set xs. \<exists>l. targetElement (yp s) c x = Some l \<and> lights (yp s) l" "down \<longrightarrow> st \<noteq> 0"
  shows "\<exists>s' c'. spy_entries h v e down st (map (\<lambda>x. (x, True)) xs) s = (s', None) \<and> yinsts s' e = Some c'
    \<and> beyond down (sp_top c') (sp_top c) \<and> (\<forall>x \<in> set xs. beyond down (sp_top c') (offset_top v x))
    \<and> (sp_active c' = sp_active c \<and> sp_top c' = sp_top c \<and> (\<forall>x \<in> set xs. \<not> beats down (offset_top v x) (sp_top c))
       \<or> (\<exists>x \<in> set xs. \<exists>l. offset_top v x = sp_top c' \<and> targetElement (yp s) c x = Some l \<and> sp_active c' = ActiveTarget l))"
  using assms
proof (induction xs arbitrary: s c)
  case Nil
  then show ?case by (auto simp: beyond_def)
next
  case (Cons x xs)
  have top: "top_of e s = sp_top c" using Cons.prems(1) by (simp add: top_of_def)
  show ?case
  proof (cases "beats down (offset_top v x) (sp_top c)")
    case True
    obtain l where l: "targetElement (yp s) c x = Some l" "lights (yp s) l" using Cons.prems(2) by auto
    from activate_lights [OF Cons.prems(1) l, of h v] obtain s1 where s1: "spy_activate h v e x s = (s1, None)"
      "yinsts s1 e = Some (c\<lparr>sp_top := offset_top v x, sp_active := ActiveTarget l\<rparr>)" "same_but {''active''} (yp s) (yp s1)" .
    let ?c = "c\<lparr>sp_top := offset_top v x, sp_active := ActiveTarget l\<rparr>"
    have t: "targetElement (yp s1) ?c y = targetElement (yp s) c y" for y by (rule targetElement_same [OF s1(3)]) simp
    have "\<forall>y \<in> set xs. \<exists>l. targetElement (yp s1) ?c y = Some l \<and> lights (yp s1) l"
      using Cons.prems(2) unfolding t lights_same [OF s1(3)] by simp
    from Cons.IH [OF s1(2) this Cons.prems(3)] obtain s' c' where s': "spy_entries h v e down st (map (\<lambda>x. (x, True)) xs) s1 = (s', None)"
      "yinsts s' e = Some c'" "beyond down (sp_top c') (offset_top v x)" "\<forall>x \<in> set xs. beyond down (sp_top c') (offset_top v x)"
      "sp_active c' = ActiveTarget l \<and> sp_top c' = offset_top v x
       \<or> (\<exists>y \<in> set xs. \<exists>l. offset_top v y = sp_top c' \<and> targetElement (yp s) c y = Some l \<and> sp_active c' = ActiveTarget l)" unfolding t by auto
    have "spy_entries h v e down st (map (\<lambda>x. (x, True)) (x # xs)) s = (s', None)"
      using True s1(1) s'(1) Cons.prems(3) by (auto simp: beats_def top split: if_splits)
    moreover have "beyond down (sp_top c') (sp_top c)" using s'(3) True by (auto simp: beyond_def beats_def split: if_splits)
    moreover have "\<exists>y \<in> set (x # xs). \<exists>l. offset_top v y = sp_top c' \<and> targetElement (yp s) c y = Some l \<and> sp_active c' = ActiveTarget l"
      using s'(5) l(1) by auto
    ultimately show ?thesis using s'(2-4) by (intro exI [of _ s'] exI [of _ c']) simp
  next
    case False
    have "\<forall>y \<in> set xs. \<exists>l. targetElement (yp s) c y = Some l \<and> lights (yp s) l" using Cons.prems(2) by simp
    from Cons.IH [OF Cons.prems(1) this Cons.prems(3)] obtain s' c' where s': "spy_entries h v e down st (map (\<lambda>x. (x, True)) xs) s = (s', None)"
      "yinsts s' e = Some c'" "beyond down (sp_top c') (sp_top c)" "\<forall>x \<in> set xs. beyond down (sp_top c') (offset_top v x)"
      "sp_active c' = sp_active c \<and> sp_top c' = sp_top c \<and> (\<forall>x \<in> set xs. \<not> beats down (offset_top v x) (sp_top c))
       \<or> (\<exists>x \<in> set xs. \<exists>l. offset_top v x = sp_top c' \<and> targetElement (yp s) c x = Some l \<and> sp_active c' = ActiveTarget l)" by blast
    have "spy_entries h v e down st (map (\<lambda>x. (x, True)) (x # xs)) s = (s', None)"
      using False s'(1) by (auto simp: beats_def top split: if_splits)
    moreover have "beyond down (sp_top c') (offset_top v x)" using s'(3) False by (auto simp: beyond_def beats_def split: if_splits)
    ultimately show ?thesis using s'(2-5) False by auto
  qed
qed

section \<open>Properties\<close>

datatype spy_event = SpyCallback spy_view "spy_entry list" | SpyRefresh spy_view

fun spy_step :: "host \<Rightarrow> elem \<Rightarrow> spies \<Rightarrow> spy_event \<Rightarrow> spies" where
  "spy_step h e s (SpyCallback v entries) = fst (observerCallback h v e entries s)"
| "spy_step h e s (SpyRefresh v) = fst (spy_refresh h v e s)"

lemma initialize_target: "sp_target (fst (initialize_links h v p e as c)) = sp_target c"
  by (induction as arbitrary: c) (simp_all split: option.splits)

lemma refresh_ok:
  assumes "spy_ok e m p s"
  shows "spy_ok e m p (fst (spy_refresh h v e s))"
proof (cases "yinsts s e")
  case (Some c)
  have "sp_target (fst (initializeTargetsAndObservables h v (yp s) e c)) = m"
    using assms Some by (simp add: initializeTargetsAndObservables_def initialize_target spy_ok_def)
  with Some set_spy_ok [OF assms] show ?thesis by (auto simp: spy_refresh_def split: prod.splits option.splits)
qed (use assms in \<open>simp add: spy_refresh_def\<close>)

lemma spy_step_ok: "spy_ok e m p s \<Longrightarrow> spy_ok e m p (spy_step h e s ev)"
  by (cases ev) (simp_all add: callback_ok refresh_ok)

interpretation spy: event_machine "spy_step h e" "\<lambda>_ _. True" "spy_ok e m p" for h e m p
  by unfold_locales (rule spy_step_ok)

text \<open>C33: At most one link of the menu is highlighted, together with the entries it is nested under.  Whatever entries the observer
  reports, in whatever order, refreshes and failing callbacks included, the highlighted links of the menu lie on the trail
  of one link.\<close>

theorem spy_single_trail:
  assumes "\<And>x. menu_link (yp s) m x \<Longrightarrow> \<not> has_class (yp s) x ''active''" "yinsts s e = Some c" "sp_target c = m"
  shows "\<exists>lo. \<forall>x. menu_link (yp s) m x \<longrightarrow> has_class (yp (foldl (spy_step h e) s evs)) x ''active'' \<longrightarrow> on_trail (yp s) lo x"
proof -
  let ?t = "foldl (spy_step h e) s evs"
  have "spy_ok e m (yp s) s" using assms by (auto simp: spy_ok_def one_trail_def)
  from spy.run_keeps [OF this allowed_run_always] have o: "one_trail (yp ?t) m" and s: "same_but {''active''} (yp s) (yp ?t)" by (simp_all add: spy_ok_def)
  from o show ?thesis unfolding one_trail_def link_same [OF s] on_trail_same [OF s] .
qed

text \<open>Highlighting a link is exact: when a new link is processed without error, a link of the menu is highlighted afterwards if and
  only if it is that link or one it is nested under.\<close>

theorem spy_process_exact:
  assumes "yinsts s e = Some c" "sp_target c = m" "\<not> same_target (sp_active c) (Some l)" "lights (yp s) l"
  shows "\<exists>s'. spy_process h e (Some l) s = (s', None)
    \<and> (\<forall>x. menu_link (yp s) m x \<longrightarrow> (has_class (yp s') x ''active'' \<longleftrightarrow> x = l \<or> x \<in> spy_trail (yp s) l))"
proof -
  from process_lights [OF assms(1,4), of h] obtain s' where s': "spy_process h e (Some l) s = (s', None)" by blast
  let ?p1 = "clearActiveClass m (yp s)"
  let ?q = "add_class l ''active'' ?p1"
  have q: "same_but {''active''} (yp s) ?q" by (rule same_but_trans [OF clear_effect(2) same_but_class(1)]) simp
  obtain p2 where p2: "activateParents l ?q = (p2, None)" using assms(4) lights_same [OF q, of l] by (metis lights_def prod.collapse)
  have "yp s' = triggering h e ''activate.bs.scrollspy'' p2" using s' assms p2 by (auto simp: spy_process_def Let_def set_spy_def)
  then have "has_class (yp s') x ''active'' \<longleftrightarrow> x = l \<or> x \<in> spy_trail (yp s) l" if "menu_link (yp s) m x" for x
    using parents_effect(3) [OF p2, of x] that trail_same [OF q, of l] clear_effect(1) [of m "yp s" x] by (auto simp: dom_simps)
  with s' show ?thesis by blast
qed


text \<open>C35: A dropdown toggle that is not a link stays highlighted for good.  \<open>_activateParents\<close> highlights the toggle of a dropdown, but
  \<open>_clearActiveClass\<close> looks only at elements with an \<open>href\<close>: a toggle that is a button, once highlighted, survives every
  later change of the target.\<close>

theorem spy_toggle_stays:
  assumes "yinsts s e = Some c" "t \<noteq> sp_target c" "getAttribute (yp s) t ''href'' = None" "has_class (yp s) t ''active''"
  shows "has_class (yp (fst (spy_process h e target s))) t ''active''"
proof -
  let ?p = "clearActiveClass (sp_target c) (yp s)"
  have k: "has_class ?p t ''active''" using assms by (simp add: clear_effect(1) menu_link_def)
  have keep: "has_class (fst (activateParents l p)) t ''active''" if "has_class p t ''active''" for l p
    using that prev_effect [of p "SE_parents p l SELECTOR_NAV_LIST_GROUP" t "''active''"]
    by (auto simp: activateParents_def dom_simps split: option.splits)
  have "has_class (fst (activateParents l (add_class l ''active'' ?p))) t ''active''" for l by (rule keep) (simp add: k dom_simps)
  then show ?thesis using assms k
    by (auto simp: spy_process_def Let_def set_spy_def dom_simps split: option.splits prod.splits) (metis fst_conv)+
qed

text \<open>A menu of two links, one of them in a dropdown with a button, and two sections.\<close>

definition spy_page :: page where
  "spy_page = \<lparr>tree = Elem 0 [Elem 7 [Elem 2 [], Elem 8 [Elem 9 [], Elem 3 []]], Elem 4 [Elem 5 [], Elem 6 []]],
     nodes = (\<lambda>e. \<lparr>tagName = ''DIV'', classList = (if e = 3 then [''dropdown-item''] else if e = 8 then [''dropdown''] else if e = 9 then [''dropdown-toggle''] else []),
        attributes = (if e = 2 then [(''href'', ''#a'')] else if e = 3 then [(''href'', ''#b'')] else if e = 5 then [(''id'', ''a'')]
          else if e = 6 then [(''id'', ''b'')] else []), style = (\<lambda>_. []), textContent = []\<rparr>), focused = None, ev_log = []\<rparr>"

definition spy_host :: host where
  "spy_host = \<lparr>cancels = (\<lambda>_ _. False), parse_sel = (\<lambda>t. Some [[[SelId (tl t)]]]), css_escape = id, rtl = False, hidden_doc = False, touch = False,
     client_rects = (\<lambda>_. 1), visibility = (\<lambda>_. ''visible''), disabled_prop = (\<lambda>_. None), interface_name = (\<lambda>_. []), jquery = None\<rparr>"

definition demo_spy :: spy where
  "demo_spy = \<lparr>sp_target = 7, sp_smooth = False, sp_rootMargin = JNull, sp_threshold = JNull, sp_root = None, sp_links = [(''#a'', 2), (''#b'', 3)],
     sp_sections = [(''#a'', 5), (''#b'', 6)], sp_active = NoTarget, sp_top = 0, sp_scroll = 0, sp_observed = Some [5, 6]\<rparr>"

definition demo_spies :: spies where
  "demo_spies = \<lparr>yp = spy_page, yinsts = [4 \<mapsto> demo_spy]\<rparr>"

definition demo_view :: spy_view where
  "demo_view = \<lparr>link_hash = (\<lambda>_. []), offset_top = (\<lambda>e. if e = 5 then 10 else if e = 6 then 500 else 0), scroll_top = (\<lambda>_. 40),
     overflow_y = (\<lambda>_. ''visible''), body_el = 0, write_number = (\<lambda>_. [])\<rparr>"

lemma demo_links:
  "targetElement spy_page demo_spy 5 = Some 2" "targetElement spy_page demo_spy 6 = Some 3" "lights spy_page 2" "lights spy_page 3"
  "descendants spy_page 7 = [2, 8, 9, 3]" "yinsts demo_spies 4 = Some demo_spy" "yp demo_spies = spy_page" "doc_root spy_page = 0"
  by (code_simp, code_simp, code_simp, code_simp, code_simp, simp_all add: demo_spies_def doc_root_def spy_page_def)

lemma demo_menu: "menu_link spy_page 7 x \<longleftrightarrow> x = 2 \<or> x = 3"
  by (auto simp: menu_link_def demo_links) (auto simp: spy_page_def getAttribute_def)

theorem spy_single_trail_witness:
  "\<exists>lo. \<forall>x \<in> {2, 3}. has_class (yp (foldl (spy_step spy_host 4) demo_spies [SpyCallback demo_view [(5, True), (6, True)]])) x ''active'' \<longrightarrow> on_trail spy_page lo x"
proof -
  have "\<not> has_class spy_page x ''active''" for x by (simp add: spy_page_def has_class_def)
  then have 1: "\<not> has_class (yp demo_spies) x ''active''" if "menu_link (yp demo_spies) 7 x" for x by (simp add: demo_links)
  have 2: "sp_target demo_spy = 7" by (simp add: demo_spy_def)
  define t where "t = foldl (spy_step spy_host 4) demo_spies [SpyCallback demo_view [(5, True), (6, True)]]"
  from spy_single_trail [OF 1 demo_links(6) 2, of spy_host "[SpyCallback demo_view [(5, True), (6, True)]]"]
  show ?thesis unfolding t_def [symmetric] demo_links(7) demo_menu by blast
qed

theorem spy_process_exact_witness:
  "\<exists>s'. spy_process spy_host 4 (Some 2) demo_spies = (s', None) \<and> has_class (yp s') 2 ''active''"
proof -
  have "sp_target demo_spy = 7" "\<not> same_target (sp_active demo_spy) (Some 2)" by (simp_all add: demo_spy_def)
  from spy_process_exact [OF demo_links(6) this, of spy_host] demo_links(3,7) demo_menu show ?thesis by auto
qed


theorem spy_toggle_stays_witness:
  "has_class (yp (fst (spy_process spy_host 4 (Some 2) (demo_spies\<lparr>yp := add_class 9 ''active'' spy_page\<rparr>)))) 9 ''active''"
proof -
  let ?s = "demo_spies\<lparr>yp := add_class 9 ''active'' spy_page\<rparr>"
  have "yinsts ?s 4 = Some demo_spy" "9 \<noteq> sp_target demo_spy" "getAttribute (yp ?s) 9 ''href'' = None" "has_class (yp ?s) 9 ''active''"
    by (simp_all add: demo_spies_def demo_spy_def dom_simps) (simp add: spy_page_def getAttribute_def)
  from spy_toggle_stays [OF this] show ?thesis .
qed

end
