(* ===== verification/Bs_Tab.thy ===== *)
theory Bs_Tab
  imports Bs_Base
begin

text \<open>
  Bootstrap's \<open>tab.js\<close> in \<open>bootstrap.bundle.js\<close>: tabs of a tab list and the panels they show.
  \<open>_activate\<close> and \<open>_deactivate\<close> call themselves on the target of an element, so they can exhaust
  the call stack; the depth that is left is an argument, and running out of it is an error.  An
  operation returns the state it leaves and the error that ended it, if one did.
\<close>

section \<open>State\<close>

text \<open>An instance knows its tab list; only with a tab list it listens to the keyboard.\<close>

record tab =
  tab_parent :: "elem option"
  tab_listening :: bool

datatype tab_callback = TabShown elem | TabHidden elem

record tabs =
  bp :: page
  binsts :: "elem \<Rightarrow> tab option"
  b_pending :: "tab_callback pending"

datatype tab_error = NoTabList | InvalidSelector | NullElement | StackOverflow

type_synonym tab_result = "tabs \<times> tab_error option"

section \<open>Selectors\<close>

definition SELECTOR_TAB_PANEL :: selector where
  "SELECTOR_TAB_PANEL = [[[SelClass ''list-group'']], [[SelClass ''nav'']], [[SelAttr ''role'' ''tablist'']]]"

definition SELECTOR_OUTER :: selector where
  "SELECTOR_OUTER = [[[SelClass ''nav-item'']], [[SelClass ''list-group-item'']]]"

definition SELECTOR_INNER :: selector where
  "SELECTOR_INNER = [[[SelClass ''nav-link'', SelNot (SelClass ''dropdown-toggle'')]],
     [[SelClass ''list-group-item'', SelNot (SelClass ''dropdown-toggle'')]],
     [[SelAttr ''role'' ''tab'', SelNot (SelClass ''dropdown-toggle'')]]]"

definition SELECTOR_TAB_TOGGLE :: selector where
  "SELECTOR_TAB_TOGGLE = [[[SelAttr ''data-bs-toggle'' ''tab'']], [[SelAttr ''data-bs-toggle'' ''pill'']], [[SelAttr ''data-bs-toggle'' ''list'']]]"

definition SELECTOR_INNER_ELEM :: selector where
  "SELECTOR_INNER_ELEM = SELECTOR_INNER @ SELECTOR_TAB_TOGGLE"

definition SELECTOR_TAB_TOGGLE_ACTIVE :: selector where
  "SELECTOR_TAB_TOGGLE_ACTIVE = [[[SelClass ''active'', SelAttr ''data-bs-toggle'' ''tab'']],
     [[SelClass ''active'', SelAttr ''data-bs-toggle'' ''pill'']], [[SelClass ''active'', SelAttr ''data-bs-toggle'' ''list'']]]"

section \<open>Reading the page\<close>

definition elemIsActive :: "page \<Rightarrow> elem \<Rightarrow> bool" where
  "elemIsActive p e = has_class p e ''active''"

definition tab_getChildren :: "page \<Rightarrow> elem \<Rightarrow> elem list" where
  "tab_getChildren p parent = SE_find p parent SELECTOR_INNER_ELEM"

definition getActiveElem :: "page \<Rightarrow> elem \<Rightarrow> elem option" where
  "getActiveElem p parent = find (elemIsActive p) (tab_getChildren p parent)"

definition getInnerElement :: "page \<Rightarrow> elem \<Rightarrow> elem option" where
  "getInnerElement p e = (if matches p SELECTOR_INNER_ELEM e then Some e else SE_findOne p e SELECTOR_INNER_ELEM)"

definition getOuterElement :: "page \<Rightarrow> elem \<Rightarrow> elem" where
  "getOuterElement p e = (case closest p SELECTOR_OUTER e of None \<Rightarrow> e | Some x \<Rightarrow> x)"

section \<open>Initial attributes\<close>

definition setAttributeIfNotExists :: "elem \<Rightarrow> string \<Rightarrow> string \<Rightarrow> page \<Rightarrow> page" where
  "setAttributeIfNotExists e a v p = (if getAttribute p e a = None then setAttribute e a v p else p)"

definition setInitialAttributesOnTargetPanel :: "host \<Rightarrow> elem \<Rightarrow> tabs \<Rightarrow> tab_result" where
  "setInitialAttributesOnTargetPanel h child s =
     (case getElementFromSelector h (bp s) child of
        None \<Rightarrow> (s, Some InvalidSelector)
      | Some None \<Rightarrow> (s, None)
      | Some (Some target) \<Rightarrow>
          (let p1 = setAttributeIfNotExists target ''role'' ''tabpanel'' (bp s)
           in (case getAttribute p1 child ''id'' of
                 None \<Rightarrow> (s\<lparr>bp := p1\<rparr>, None)
               | Some i \<Rightarrow> if i = [] then (s\<lparr>bp := p1\<rparr>, None)
                            else (s\<lparr>bp := setAttributeIfNotExists target ''aria-labelledby'' i p1\<rparr>, None))))"

definition initial_page :: "elem \<Rightarrow> page \<Rightarrow> page" where
  "initial_page child p =
     (let isActive = elemIsActive p child; outerElem = getOuterElement p child;
          p1 = setAttribute child ''aria-selected'' (bool_str isActive) p;
          p2 = (if outerElem \<noteq> child then setAttributeIfNotExists outerElem ''role'' ''presentation'' p1 else p1);
          p3 = (if isActive then p2 else setAttribute child ''tabindex'' ''-1'' p2)
      in setAttributeIfNotExists child ''role'' ''tab'' p3)"

definition setInitialAttributesOnChild :: "host \<Rightarrow> elem \<Rightarrow> tabs \<Rightarrow> tab_result" where
  "setInitialAttributesOnChild h child s =
     (case getInnerElement (bp s) child of
        None \<Rightarrow> (s, Some NullElement)
      | Some c \<Rightarrow> setInitialAttributesOnTargetPanel h c (s\<lparr>bp := initial_page c (bp s)\<rparr>))"

fun setInitialAttributesOn :: "host \<Rightarrow> elem list \<Rightarrow> tabs \<Rightarrow> tab_result" where
  "setInitialAttributesOn h [] s = (s, None)"
| "setInitialAttributesOn h (child # cs) s = and_then (setInitialAttributesOnChild h child s) (setInitialAttributesOn h cs)"

definition setInitialAttributes :: "host \<Rightarrow> elem \<Rightarrow> elem list \<Rightarrow> tabs \<Rightarrow> tab_result" where
  "setInitialAttributes h parent cs s =
     setInitialAttributesOn h cs (s\<lparr>bp := setAttributeIfNotExists parent ''role'' ''tablist'' (bp s)\<rparr>)"

text \<open>\<open>BaseComponent\<close> has registered the instance before the rest of the constructor runs.\<close>

definition set_tab :: "elem \<Rightarrow> tab \<Rightarrow> tabs \<Rightarrow> tabs" where
  "set_tab e c s = s\<lparr>binsts := (binsts s)(e \<mapsto> c)\<rparr>"

definition tab_new :: "host \<Rightarrow> elem \<Rightarrow> tabs \<Rightarrow> tab_result" where
  "tab_new h e s =
     (case closest (bp s) SELECTOR_TAB_PANEL e of
        None \<Rightarrow> (set_tab e \<lparr>tab_parent = None, tab_listening = False\<rparr> s, None)
      | Some parent \<Rightarrow>
          and_then (setInitialAttributes h parent (tab_getChildren (bp s) parent) (set_tab e \<lparr>tab_parent = Some parent, tab_listening = False\<rparr> s))
            (\<lambda>s1. (set_tab e \<lparr>tab_parent = Some parent, tab_listening = True\<rparr> s1, None)))"

definition tab_getOrCreate :: "host \<Rightarrow> elem \<Rightarrow> tabs \<Rightarrow> tab_result" where
  "tab_getOrCreate h e s = (if binsts s e \<noteq> None then (s, None) else tab_new h e s)"

definition tab_dispose :: "elem \<Rightarrow> tabs \<Rightarrow> tabs" where
  "tab_dispose e s = s\<lparr>binsts := (binsts s)(e := None)\<rparr>"

section \<open>Activating and deactivating\<close>

definition toggle_in :: "elem \<Rightarrow> string \<Rightarrow> string \<Rightarrow> bool \<Rightarrow> page \<Rightarrow> page" where
  "toggle_in outer cls className opened p =
     (case SE_findOne p outer [[[SelClass cls]]] of None \<Rightarrow> p | Some x \<Rightarrow> force_class x className opened p)"

definition toggleDropDown :: "elem \<Rightarrow> bool \<Rightarrow> page \<Rightarrow> page" where
  "toggleDropDown e opened p =
     (let outerElem = getOuterElement p e
      in if \<not> has_class p outerElem ''dropdown'' then p
         else setAttribute outerElem ''aria-expanded'' (bool_str opened)
                (toggle_in outerElem ''dropdown-menu'' ''show'' opened (toggle_in outerElem ''dropdown-toggle'' ''active'' opened p)))"

definition tab_shown :: "host \<Rightarrow> elem \<Rightarrow> page \<Rightarrow> page" where
  "tab_shown h e p =
     (if getAttribute p e ''role'' \<noteq> Some ''tab'' then add_class e ''show'' p
      else triggering h e ''shown.bs.tab''
             (toggleDropDown e True (setAttribute e ''aria-selected'' ''true'' (removeAttribute e ''tabindex'' p))))"

definition tab_hidden :: "host \<Rightarrow> elem \<Rightarrow> page \<Rightarrow> page" where
  "tab_hidden h e p =
     (if getAttribute p e ''role'' \<noteq> Some ''tab'' then remove_class e ''show'' p
      else triggering h e ''hidden.bs.tab''
             (toggleDropDown e False (setAttribute e ''tabindex'' ''-1'' (setAttribute e ''aria-selected'' ''false'' p))))"

fun tab_call :: "host \<Rightarrow> tabs \<Rightarrow> tab_callback \<Rightarrow> tabs" where
  "tab_call h s (TabShown e) = s\<lparr>bp := tab_shown h e (bp s)\<rparr>"
| "tab_call h s (TabHidden e) = s\<lparr>bp := tab_hidden h e (bp s)\<rparr>"

definition tab_queue :: "host \<Rightarrow> tab_callback \<Rightarrow> elem \<Rightarrow> tabs \<Rightarrow> tabs" where
  "tab_queue h cb e s = (if has_class (bp s) e ''fade'' then s\<lparr>b_pending := b_pending s @ [(e, cb)]\<rparr> else tab_call h s cb)"

fun tab_activate :: "nat \<Rightarrow> host \<Rightarrow> elem option \<Rightarrow> tabs \<Rightarrow> tab_result" where
  "tab_activate 0 h x s = (s, Some StackOverflow)"
| "tab_activate (Suc n) h None s = (s, None)"
| "tab_activate (Suc n) h (Some e) s =
     (let s1 = s\<lparr>bp := add_class e ''active'' (bp s)\<rparr>
      in (case getElementFromSelector h (bp s1) e of
            None \<Rightarrow> (s1, Some InvalidSelector)
          | Some target \<Rightarrow> and_then (tab_activate n h target s1) (\<lambda>s2. (tab_queue h (TabShown e) e s2, None))))"

fun tab_deactivate :: "nat \<Rightarrow> host \<Rightarrow> elem option \<Rightarrow> tabs \<Rightarrow> tab_result" where
  "tab_deactivate 0 h x s = (s, Some StackOverflow)"
| "tab_deactivate (Suc n) h None s = (s, None)"
| "tab_deactivate (Suc n) h (Some e) s =
     (let s1 = s\<lparr>bp := blur_el e (remove_class e ''active'' (bp s))\<rparr>
      in (case getElementFromSelector h (bp s1) e of
            None \<Rightarrow> (s1, Some InvalidSelector)
          | Some target \<Rightarrow> and_then (tab_deactivate n h target s1) (\<lambda>s2. (tab_queue h (TabHidden e) e s2, None))))"

definition tab_show :: "nat \<Rightarrow> host \<Rightarrow> elem \<Rightarrow> tabs \<Rightarrow> tab_result" where
  "tab_show n h e s =
     (case binsts s e of
        None \<Rightarrow> (s, None)
      | Some c \<Rightarrow>
          if elemIsActive (bp s) e then (s, None)
          else (case tab_parent c of
                  None \<Rightarrow> (s, Some NoTabList)
                | Some parent \<Rightarrow>
                    (let active = getActiveElem (bp s) parent;
                         vetoed = (case active of None \<Rightarrow> False | Some a \<Rightarrow> prevented_by h a ''hide.bs.tab'' (bp s));
                         p1 = (case active of None \<Rightarrow> bp s | Some a \<Rightarrow> triggering h a ''hide.bs.tab'' (bp s));
                         s1 = s\<lparr>bp := triggering h e ''show.bs.tab'' p1\<rparr>
                     in if prevented_by h e ''show.bs.tab'' p1 \<or> vetoed then (s1, None)
                        else and_then (tab_deactivate n h active s1) (tab_activate n h (Some e)))))"

section \<open>Keyboard and data API\<close>

text \<open>The tab a key leads to, among the enabled tabs of the list.\<close>

definition tab_key_target :: "elem list \<Rightarrow> string \<Rightarrow> elem \<Rightarrow> elem option" where
  "tab_key_target cs key target =
     (if key = ''Home'' then first_of cs
      else if key = ''End'' then first_of (rev cs)
      else getNextActiveElement cs target (key \<in> {''ArrowRight'', ''ArrowDown''}) True)"

definition tab_keys :: "string list" where
  "tab_keys = [''ArrowLeft'', ''ArrowRight'', ''ArrowUp'', ''ArrowDown'', ''Home'', ''End'']"

definition tab_keydown :: "nat \<Rightarrow> host \<Rightarrow> elem \<Rightarrow> string \<Rightarrow> elem \<Rightarrow> tabs \<Rightarrow> tab_result" where
  "tab_keydown n h e key target s =
     (case binsts s e of
        None \<Rightarrow> (s, None)
      | Some c \<Rightarrow>
          if \<not> tab_listening c then (s, None)
          else if key \<notin> set tab_keys then (s, None)
          else (case tab_parent c of
                  None \<Rightarrow> (s, Some NoTabList)
                | Some parent \<Rightarrow>
                    (case tab_key_target (filter (\<lambda>x. \<not> isDisabled h (bp s) (Some x)) (tab_getChildren (bp s) parent)) key target of
                       None \<Rightarrow> (s, None)
                     | Some x \<Rightarrow> and_then (tab_getOrCreate h x (s\<lparr>bp := focus_el x (bp s)\<rparr>)) (tab_show n h x))))"

text \<open>The answer is whether the handler calls \<open>preventDefault\<close>.\<close>

definition tab_click :: "nat \<Rightarrow> host \<Rightarrow> elem \<Rightarrow> tabs \<Rightarrow> bool \<times> tab_result" where
  "tab_click n h this s =
     (tagName (nodes (bp s) this) \<in> {''A'', ''AREA''},
      if isDisabled h (bp s) (Some this) then (s, None) else and_then (tab_getOrCreate h this s) (tab_show n h this))"

fun tab_load_all :: "host \<Rightarrow> elem list \<Rightarrow> tabs \<Rightarrow> tab_result" where
  "tab_load_all h [] s = (s, None)"
| "tab_load_all h (e # es) s = and_then (tab_getOrCreate h e s) (tab_load_all h es)"

definition tab_load :: "host \<Rightarrow> tabs \<Rightarrow> tab_result" where
  "tab_load h s = tab_load_all h (SE_find (bp s) (doc_root (bp s)) SELECTOR_TAB_TOGGLE_ACTIVE) s"

definition tab_transition_end :: "host \<Rightarrow> elem \<Rightarrow> tabs \<Rightarrow> tabs" where
  "tab_transition_end h x s = foldl (tab_call h) (s\<lparr>b_pending := not_due x (b_pending s)\<rparr>) (due x (b_pending s))"

text \<open>An error that reaches the browser ends the handler and leaves the state it has reached.\<close>

datatype tab_event = TabClick elem | TabKeydown elem string elem | TabTransitionEnd elem

fun tab_step :: "nat \<Rightarrow> host \<Rightarrow> tabs \<Rightarrow> tab_event \<Rightarrow> tabs" where
  "tab_step n h s (TabClick e) = fst (snd (tab_click n h e s))"
| "tab_step n h s (TabKeydown e key target) = fst (tab_keydown n h e key target s)"
| "tab_step n h s (TabTransitionEnd x) = tab_transition_end h x s"

section \<open>What the operations leave alone\<close>

text \<open>
  \<open>tab_frame q p p'\<close>: from \<open>p\<close> to \<open>p'\<close> at most the classes \<open>active\<close> and \<open>show\<close>, attributes no
  selector of the component reads, and missing roles (\<open>tablist\<close> only on \<open>q\<close>) have changed.
\<close>

definition tab_frame :: "elem \<Rightarrow> page \<Rightarrow> page \<Rightarrow> bool" where
  "tab_frame q p p' \<longleftrightarrow> tree p' = tree p
     \<and> (\<forall>x c. c \<noteq> ''active'' \<longrightarrow> c \<noteq> ''show'' \<longrightarrow> has_class p' x c = has_class p x c)
     \<and> (\<forall>x a. a \<in> {''data-bs-target'', ''href'', ''id'', ''data-bs-toggle'', ''disabled''} \<longrightarrow> getAttribute p' x a = getAttribute p x a)
     \<and> (\<forall>x. getAttribute p' x ''role'' = getAttribute p x ''role''
          \<or> getAttribute p x ''role'' = None \<and> (getAttribute p' x ''role'' \<in> {Some ''presentation'', Some ''tabpanel''}
              \<or> x = q \<and> getAttribute p' x ''role'' = Some ''tablist''))"

lemma frame_refl [simp]: "tab_frame q p p" by (simp add: tab_frame_def)

lemma frame_trans: "tab_frame q p p1 \<Longrightarrow> tab_frame q p1 p2 \<Longrightarrow> tab_frame q p p2"
  unfolding tab_frame_def by (smt (verit, best) insert_iff singletonD option.distinct(1))

lemma frame_class: "c \<in> {''active'', ''show''} \<Longrightarrow> tab_frame q p (add_class e c p)"
  "c \<in> {''active'', ''show''} \<Longrightarrow> tab_frame q p (remove_class e c p)"
  "c \<in> {''active'', ''show''} \<Longrightarrow> tab_frame q p (force_class e c b p)"
  by (auto simp: tab_frame_def dom_simps)

lemma frame_attr:
  "a \<in> {''aria-selected'', ''tabindex'', ''aria-expanded'', ''aria-labelledby''} \<Longrightarrow> tab_frame q p (setAttribute e a v p)"
  "a \<in> {''aria-selected'', ''tabindex'', ''aria-expanded'', ''aria-labelledby''} \<Longrightarrow> tab_frame q p (removeAttribute e a p)"
  "a \<in> {''aria-selected'', ''tabindex'', ''aria-expanded'', ''aria-labelledby''} \<Longrightarrow> tab_frame q p (setAttributeIfNotExists e a v p)"
  by (auto simp: tab_frame_def dom_simps setAttributeIfNotExists_def)

lemma frame_role:
  "v \<in> {''presentation'', ''tabpanel''} \<or> v = ''tablist'' \<and> e = q \<Longrightarrow> tab_frame q p (setAttributeIfNotExists e ''role'' v p)"
  by (auto simp: tab_frame_def dom_simps setAttributeIfNotExists_def)

lemma frame_other: "tab_frame q p (blur_el e p)" "tab_frame q p (focus_el e p)" "tab_frame q p (triggering h e ev p)"
  by (auto simp: tab_frame_def dom_simps)

lemma frame_roleD:
  "tab_frame q p p' \<Longrightarrow> getAttribute p' x ''role'' = getAttribute p x ''role''
    \<or> getAttribute p x ''role'' = None \<and> (getAttribute p' x ''role'' \<in> {Some ''presentation'', Some ''tabpanel''}
        \<or> x = q \<and> getAttribute p' x ''role'' = Some ''tablist'')"
  unfolding tab_frame_def by (elim conjE) (erule spec)

lemma frame_reads:
  assumes "tab_frame q p p'"
  shows "tree p' = tree p" "getAttribute p' x ''data-bs-target'' = getAttribute p x ''data-bs-target''" "getAttribute p' x ''href'' = getAttribute p x ''href''"
    "getAttribute p' x ''id'' = getAttribute p x ''id''" "getAttribute p' x ''data-bs-toggle'' = getAttribute p x ''data-bs-toggle''"
    "getAttribute p' x ''disabled'' = getAttribute p x ''disabled''" "(getAttribute p' x ''role'' = Some ''tab'') = (getAttribute p x ''role'' = Some ''tab'')"
proof -
  have a: "getAttribute p' x a = getAttribute p x a" if "a \<in> {''data-bs-target'', ''href'', ''id'', ''data-bs-toggle'', ''disabled''}" for a
    using assms that unfolding tab_frame_def by blast
  show "tree p' = tree p" using assms by (simp only: tab_frame_def)
  show "getAttribute p' x ''data-bs-target'' = getAttribute p x ''data-bs-target''" "getAttribute p' x ''href'' = getAttribute p x ''href''"
    "getAttribute p' x ''id'' = getAttribute p x ''id''" "getAttribute p' x ''data-bs-toggle'' = getAttribute p x ''data-bs-toggle''"
    "getAttribute p' x ''disabled'' = getAttribute p x ''disabled''" by (rule a; simp)+
  show "(getAttribute p' x ''role'' = Some ''tab'') = (getAttribute p x ''role'' = Some ''tab'')"
    using frame_roleD [OF assms, of x] by (elim disjE conjE insertE emptyE) simp_all
qed

lemma frame_classes: "tab_frame q p p' \<Longrightarrow> c \<noteq> ''active'' \<Longrightarrow> c \<noteq> ''show'' \<Longrightarrow> has_class p' x c = has_class p x c"
  unfolding tab_frame_def by (drule conjunct2, drule conjunct1, drule spec, drule spec, drule (1) mp, erule (1) mp)

lemmas frame_intros = frame_class frame_attr frame_role frame_other

subsection \<open>What selectors see\<close>

lemma match_compound: "in_page p x \<Longrightarrow> match_complex p rt [cs] (chain x (tree p)) = list_all (match_simple p rt x) cs"
  by (drule matches_in_compound) (simp add: matches_in_def)

lemma inner_matches: "in_page p x \<Longrightarrow> matches_in p rt SELECTOR_INNER_ELEM x \<longleftrightarrow>
    \<not> has_class p x ''dropdown-toggle'' \<and> (has_class p x ''nav-link'' \<or> has_class p x ''list-group-item'' \<or> getAttribute p x ''role'' = Some ''tab'')
    \<or> getAttribute p x ''data-bs-toggle'' \<in> {Some ''tab'', Some ''pill'', Some ''list''}"
proof -
  assume "in_page p x"
  note m = match_compound [OF this, of rt]
  show ?thesis unfolding matches_in_def SELECTOR_INNER_ELEM_def SELECTOR_INNER_def SELECTOR_TAB_TOGGLE_def append.simps list_ex_Cons_iff list_ex_Nil_iff m
      list.pred_inject match_simple.simps insert_iff empty_iff by (simp only: list.pred_inject simp_thms; blast)
qed

lemma frame_children: "tab_frame q p p' \<Longrightarrow> tab_getChildren p' rt = tab_getChildren p rt"
proof -
  assume f: "tab_frame q p p'"
  then have t: "tree p' = tree p" by (simp add: tab_frame_def)
  have "matches_in p' rt SELECTOR_INNER_ELEM x = matches_in p rt SELECTOR_INNER_ELEM x" if "x \<in> set (descendants p rt)" for x
  proof -
    have i: "in_page p x" "in_page p' x" using descendants_in_page [OF that] t by simp_all
    have c: "has_class p' x ''dropdown-toggle'' = has_class p x ''dropdown-toggle''" "has_class p' x ''nav-link'' = has_class p x ''nav-link''"
      "has_class p' x ''list-group-item'' = has_class p x ''list-group-item''" by (rule frame_classes [OF f]; simp)+
    show ?thesis unfolding inner_matches [OF i(1)] inner_matches [OF i(2)] c frame_reads(5,7) [OF f] ..
  qed
  then show ?thesis unfolding tab_getChildren_def SE_find_def querySelectorAll_def descendants_tree [OF t]
    by (intro filter_cong) auto
qed

lemma frame_fade: "tab_frame q p p' \<Longrightarrow> has_class p' x ''fade'' = has_class p x ''fade''"
  and frame_disabled: "tab_frame q p p' \<Longrightarrow> isDisabled h p' y = isDisabled h p y"
  by (simp_all add: frame_classes isDisabled_def frame_reads(6) split: option.splits)

lemma frame_selector: "tab_frame q p p' \<Longrightarrow> getSelector h p' x = getSelector h p x"
  unfolding getSelector_def by (simp only: frame_reads(2,3))

text \<open>Targets are given by id, or not at all.\<close>

fun id_text :: "host \<Rightarrow> string option \<Rightarrow> bool" where
  "id_text h None = True"
| "id_text h (Some t) = (\<exists>i. parse_sel h t = Some [[[SelId i]]])"

definition tab_target :: "host \<Rightarrow> page \<Rightarrow> elem \<Rightarrow> elem option" where
  "tab_target h p e = (case getElementFromSelector h p e of None \<Rightarrow> None | Some t \<Rightarrow> t)"

lemma id_target: "id_text h (getSelector h p e) \<Longrightarrow> getElementFromSelector h p e = Some (tab_target h p e)"
  by (auto simp: tab_target_def getElementFromSelector_def split: option.splits)

lemma frame_target:
  assumes "tab_frame q p p'" "id_text h (getSelector h p e)"
  shows "getElementFromSelector h p' e = Some (tab_target h p e)" "tab_target h p' e = tab_target h p e"
proof -
  note t = frame_reads(1) [OF assms(1)] and i = frame_reads(4) [OF assms(1)]
  have "SE_findOne p' rt [[[SelId i]]] = SE_findOne p rt [[[SelId i]]]" for rt i
    unfolding SE_findOne_def querySelector_def querySelectorAll_compound descendants_tree [OF t] by (simp add: i)
  then have same: "getElementFromSelector h p' e = getElementFromSelector h p e"
    using assms(2) unfolding getElementFromSelector_def frame_selector [OF assms(1)] doc_root_def t
    by (cases "getSelector h p e") auto
  show "getElementFromSelector h p' e = Some (tab_target h p e)" unfolding same by (rule id_target [OF assms(2)])
  show "tab_target h p' e = tab_target h p e" unfolding tab_target_def same ..
qed

lemma panel_matches: "in_page p x \<Longrightarrow> matches p SELECTOR_TAB_PANEL x \<longleftrightarrow>
    has_class p x ''list-group'' \<or> has_class p x ''nav'' \<or> getAttribute p x ''role'' = Some ''tablist''"
proof -
  assume "in_page p x"
  note m = match_compound [OF this, of x]
  show ?thesis unfolding matches_def matches_in_def SELECTOR_TAB_PANEL_def list_ex_Cons_iff list_ex_Nil_iff m list.pred_inject match_simple.simps by (simp only: list.pred_inject simp_thms; blast)
qed

lemma frame_parent:
  assumes f: "tab_frame q p p'" and c: "closest p SELECTOR_TAB_PANEL e = Some q"
  shows "closest p' SELECTOR_TAB_PANEL e = Some q"
proof -
  have t: "tree p' = tree p" by (rule frame_reads(1) [OF f])
  have "matches p' SELECTOR_TAB_PANEL x = matches p SELECTOR_TAB_PANEL x" if "x \<in> set (chain e (tree p))" "x \<noteq> q \<or> getAttribute p x ''role'' \<noteq> None" for x
  proof -
    have i: "in_page p x" "in_page p' x" using chain_in_page [OF that(1)] t by simp_all
    have "(getAttribute p' x ''role'' = Some ''tablist'') = (getAttribute p x ''role'' = Some ''tablist'')"
      using frame_roleD [OF f, of x] that(2) by (elim disjE conjE insertE emptyE) simp_all
    then show ?thesis unfolding panel_matches [OF i(1)] panel_matches [OF i(2)] by (simp add: frame_classes [OF f])
  qed
  note same = this
  have q: "q \<in> set (chain e (tree p))" "matches p SELECTOR_TAB_PANEL q"
    using c unfolding closest_def by (auto simp: first_of_def filter_eq_Cons_iff split: list.splits)
  have "matches p' SELECTOR_TAB_PANEL q"
  proof (cases "getAttribute p q ''role'' = None")
    case True
    have i: "in_page p q" "in_page p' q" using chain_in_page [OF q(1)] t by simp_all
    from q(2) True show ?thesis unfolding panel_matches [OF i(1)] panel_matches [OF i(2)] by (auto simp: frame_classes [OF f])
  qed (use same [OF q(1)] q(2) in simp)
  with q(2) have "matches p' SELECTOR_TAB_PANEL x = matches p SELECTOR_TAB_PANEL x" if "x \<in> set (chain e (tree p))" for x
    using same [OF that] by (cases "x = q") simp_all
  then have "filter (matches p' SELECTOR_TAB_PANEL) (chain e (tree p)) = filter (matches p SELECTOR_TAB_PANEL) (chain e (tree p))"
    by (intro filter_cong) simp_all
  with c show ?thesis by (simp only: closest_def t)
qed

section \<open>A tab list\<close>

text \<open>Decidable from the markup: the tabs belong to the list, are no dropdown toggles, and their targets, given by id, are panels.\<close>

definition plain_member :: "page \<Rightarrow> elem \<Rightarrow> bool" where
  "plain_member p x \<longleftrightarrow> \<not> has_class p x ''dropdown-toggle'' \<and> \<not> has_class p x ''dropdown-menu''"

definition is_panel :: "host \<Rightarrow> page \<Rightarrow> elem \<Rightarrow> elem \<Rightarrow> bool" where
  "is_panel h p q x \<longleftrightarrow> x \<notin> set (tab_getChildren p q) \<and> getSelector h p x = None \<and> plain_member p x \<and> getAttribute p x ''role'' \<noteq> Some ''tab''"

definition tab_list :: "host \<Rightarrow> elem \<Rightarrow> page \<Rightarrow> bool" where
  "tab_list h q p \<longleftrightarrow> wf_page p \<and> (\<forall>t \<in> set (tab_getChildren p q). closest p SELECTOR_TAB_PANEL t = Some q \<and> plain_member p t
     \<and> id_text h (getSelector h p t) \<and> (\<forall>x. tab_target h p t = Some x \<longrightarrow> is_panel h p q x))"

definition panels :: "host \<Rightarrow> page \<Rightarrow> elem \<Rightarrow> elem set" where
  "panels h p q = {x. \<exists>t \<in> set (tab_getChildren p q). tab_target h p t = Some x}"

definition members :: "host \<Rightarrow> page \<Rightarrow> elem \<Rightarrow> elem set" where
  "members h p q = set (tab_getChildren p q) \<union> panels h p q"

lemma frame_plain: "tab_frame q p p' \<Longrightarrow> plain_member p' x = plain_member p x"
  by (simp add: plain_member_def frame_classes)

lemma frame_panel: "tab_frame q p p' \<Longrightarrow> is_panel h p' q x = is_panel h p q x"
  unfolding is_panel_def by (simp only: frame_children frame_selector frame_plain frame_reads(7))

lemma frame_list: "tab_frame q p p' \<Longrightarrow> tab_list h q p \<Longrightarrow> tab_list h q p'"
  by (simp add: tab_list_def frame_children frame_plain frame_selector frame_target frame_panel frame_parent frame_reads(1) wf_page_def)

lemma frame_members:
  assumes "tab_frame q p p'" "tab_list h q p"
  shows "panels h p' q = panels h p q" "members h p' q = members h p q"
proof -
  show "panels h p' q = panels h p q"
    using assms(2) by (auto simp: panels_def frame_children [OF assms(1)] frame_target(2) [OF assms(1)] tab_list_def)
  then show "members h p' q = members h p q" by (simp add: members_def frame_children [OF assms(1)])
qed

lemma members_plain: "tab_list h q p \<Longrightarrow> x \<in> members h p q \<Longrightarrow> plain_member p x"
  by (auto simp: tab_list_def members_def panels_def is_panel_def)

section \<open>The effect of each operation on the tabs and panels\<close>

fun shows_cb :: "tab_callback \<Rightarrow> bool" where
  "shows_cb (TabShown e) = True"
| "shows_cb (TabHidden e) = False"

text \<open>How an element is presented now, and how it will be when its transitions have ended.\<close>

definition mark :: "page \<Rightarrow> elem \<Rightarrow> bool" where
  "mark p x = (if getAttribute p x ''role'' = Some ''tab'' then getAttribute p x ''aria-selected'' = Some ''true'' else has_class p x ''show'')"

definition settled :: "tabs \<Rightarrow> elem \<Rightarrow> bool" where
  "settled s x = (if due x (b_pending s) = [] then mark (bp s) x else shows_cb (last (due x (b_pending s))))"

definition callback_of :: "elem \<Rightarrow> tab_callback \<Rightarrow> bool" where
  "callback_of e cb \<longleftrightarrow> cb = TabShown e \<or> cb = TabHidden e"

definition pend_ok :: "tabs \<Rightarrow> bool" where
  "pend_ok s \<longleftrightarrow> (\<forall>x cb. (x, cb) \<in> set (b_pending s) \<longrightarrow> callback_of x cb \<and> has_class (bp s) x ''fade'')"

definition tab_moves :: "elem \<Rightarrow> tabs \<Rightarrow> tabs \<Rightarrow> bool" where
  "tab_moves q s s' \<longleftrightarrow> tab_frame q (bp s) (bp s') \<and> binsts s' = binsts s \<and> (pend_ok s \<longrightarrow> pend_ok s')"

lemma moves_refl [simp]: "tab_moves q s s" by (simp add: tab_moves_def)

lemma moves_trans: "tab_moves q s s1 \<Longrightarrow> tab_moves q s1 s2 \<Longrightarrow> tab_moves q s s2"
  unfolding tab_moves_def using frame_trans by metis

lemma moves_page: "tab_frame q (bp s) p \<Longrightarrow> tab_moves q s (s\<lparr>bp := p\<rparr>)"
  by (simp add: tab_moves_def pend_ok_def frame_fade)

lemma findOne_class: "SE_findOne p rt [[[SelClass c]]] = Some y \<Longrightarrow> has_class p y c"
  by (auto simp: SE_findOne_def querySelector_def querySelectorAll_compound first_of_def filter_eq_Cons_iff split: list.splits)

lemma toggle_in_frame:
  assumes "c \<in> {''active'', ''show''}"
  shows "tab_frame q p (toggle_in rt cls c b p)" "getAttribute (toggle_in rt cls c b p) x a = getAttribute p x a"
    "focused (toggle_in rt cls c b p) = focused p"
    "\<not> has_class p x cls \<Longrightarrow> has_class (toggle_in rt cls c b p) x d = has_class p x d"
  using assms by (auto simp: toggle_in_def frame_class dom_simps force_class_def split: option.splits dest: findOne_class)

lemma toggle_frame:
  shows "tab_frame q p (toggleDropDown e b p)" "a \<noteq> ''aria-expanded'' \<Longrightarrow> getAttribute (toggleDropDown e b p) x a = getAttribute p x a"
    "focused (toggleDropDown e b p) = focused p" "plain_member p x \<Longrightarrow> has_class (toggleDropDown e b p) x d = has_class p x d"
proof -
  let ?o = "getOuterElement p e"
  let ?p1 = "toggle_in ?o ''dropdown-toggle'' ''active'' b p"
  let ?p2 = "toggle_in ?o ''dropdown-menu'' ''show'' b ?p1"
  have f: "tab_frame q p ?p1" "tab_frame q ?p1 ?p2" "tab_frame q ?p2 (setAttribute ?o ''aria-expanded'' (bool_str b) ?p2)" for q
    by (simp_all add: toggle_in_frame frame_attr)
  note f12 = frame_trans [OF f(1,2)]
  have eq: "toggleDropDown e b p = (if has_class p ?o ''dropdown'' then setAttribute ?o ''aria-expanded'' (bool_str b) ?p2 else p)"
    by (simp add: toggleDropDown_def Let_def)
  show "tab_frame q p (toggleDropDown e b p)" unfolding eq using frame_trans [OF f12 f(3)] by simp
  show "a \<noteq> ''aria-expanded'' \<Longrightarrow> getAttribute (toggleDropDown e b p) x a = getAttribute p x a"
    and "focused (toggleDropDown e b p) = focused p" unfolding eq by (simp_all add: toggle_in_frame dom_simps)
  show "plain_member p x \<Longrightarrow> has_class (toggleDropDown e b p) x d = has_class p x d"
    using frame_plain [OF f(1)] unfolding eq plain_member_def by (simp add: toggle_in_frame dom_simps)
qed

lemma call_effect:
  assumes "callback_of e cb" and s': "s' = tab_call h s cb"
  shows "tab_moves q s s'" "b_pending s' = b_pending s" "focused (bp s') = focused (bp s)"
    "plain_member (bp s) x \<Longrightarrow> elemIsActive (bp s') x = elemIsActive (bp s) x"
    "plain_member (bp s) x \<Longrightarrow> mark (bp s') x = (if x = e then shows_cb cb else mark (bp s) x)"
proof -
  let ?p = "bp s"
  let ?a = "setAttribute e ''aria-selected'' ''true'' (removeAttribute e ''tabindex'' ?p)"
  let ?b = "setAttribute e ''tabindex'' ''-1'' (setAttribute e ''aria-selected'' ''false'' ?p)"
  have f: "tab_frame q ?p ?a" "tab_frame q ?p ?b" by (rule frame_trans [OF frame_attr(2) frame_attr(1)] frame_trans [OF frame_attr(1) frame_attr(1)]; simp)+
  have "tab_frame q ?p (tab_shown h e ?p)" "tab_frame q ?p (tab_hidden h e ?p)"
    unfolding tab_shown_def tab_hidden_def
    using frame_trans [OF frame_trans [OF f(1) toggle_frame(1)] frame_other(3)] frame_trans [OF frame_trans [OF f(2) toggle_frame(1)] frame_other(3)]
    by (simp_all add: frame_class)
  then show "tab_moves q s s'" using assms by (auto simp: callback_of_def intro!: moves_page)
  show "b_pending s' = b_pending s" "focused (bp s') = focused (bp s)"
    using assms by (auto simp: callback_of_def tab_shown_def tab_hidden_def toggle_frame(3) dom_simps)
  assume m: "plain_member ?p x"
  then have p: "plain_member ?a x" "plain_member ?b x" using frame_plain [OF f(1)] frame_plain [OF f(2)] by simp_all
  have "has_class (tab_shown h e ?p) x ''active'' = has_class ?p x ''active''" "has_class (tab_hidden h e ?p) x ''active'' = has_class ?p x ''active''"
    by (simp_all add: tab_shown_def tab_hidden_def toggle_frame(4) [OF p(1)] toggle_frame(4) [OF p(2)] dom_simps)
  then show "elemIsActive (bp s') x = elemIsActive ?p x" using assms by (auto simp: callback_of_def elemIsActive_def)
  have "mark (tab_shown h e ?p) x = (x = e \<or> mark ?p x)" "mark (tab_hidden h e ?p) x = (x \<noteq> e \<and> mark ?p x)"
    by (simp_all add: mark_def tab_shown_def tab_hidden_def toggle_frame(2) toggle_frame(4) [OF p(1)] toggle_frame(4) [OF p(2)] dom_simps)
  then show "mark (bp s') x = (if x = e then shows_cb cb else mark ?p x)" using assms by (auto simp: callback_of_def)
qed

lemma calls_effect:
  assumes "\<forall>cb \<in> set cbs. callback_of e cb"
  shows "tab_moves q s (foldl (tab_call h) s cbs) \<and> b_pending (foldl (tab_call h) s cbs) = b_pending s
    \<and> (\<forall>x. plain_member (bp s) x \<longrightarrow> elemIsActive (bp (foldl (tab_call h) s cbs)) x = elemIsActive (bp s) x
        \<and> mark (bp (foldl (tab_call h) s cbs)) x = (if x = e \<and> cbs \<noteq> [] then shows_cb (last cbs) else mark (bp s) x))"
  using assms
proof (induction cbs arbitrary: s)
  case (Cons cb cbs)
  let ?s = "tab_call h s cb"
  note c = call_effect [OF _ refl, where e = e and cb = cb and h = h and s = s]
  have cb: "callback_of e cb" using Cons.prems by simp
  have p: "plain_member (bp ?s) x = plain_member (bp s) x" for x by (rule frame_plain [of q]) (use c(1) [OF cb, of q] in \<open>simp add: tab_moves_def\<close>)
  from Cons.IH [of ?s] Cons.prems have IH: "tab_moves q ?s (foldl (tab_call h) ?s cbs)" "b_pending (foldl (tab_call h) ?s cbs) = b_pending ?s"
    "\<And>x. plain_member (bp s) x \<Longrightarrow> elemIsActive (bp (foldl (tab_call h) ?s cbs)) x = elemIsActive (bp ?s) x
        \<and> mark (bp (foldl (tab_call h) ?s cbs)) x = (if x = e \<and> cbs \<noteq> [] then shows_cb (last cbs) else mark (bp ?s) x)"
    using p by auto
  then show ?case using c(2,4,5) [OF cb] moves_trans [OF c(1) [OF cb, of q] IH(1)] by simp
qed simp

lemma queue_effect:
  assumes "callback_of e cb" "pend_ok s" and s': "s' = tab_queue h cb e s"
  shows "tab_moves q s s'" "focused (bp s') = focused (bp s)"
    "plain_member (bp s) x \<Longrightarrow> elemIsActive (bp s') x = elemIsActive (bp s) x"
    "plain_member (bp s) x \<Longrightarrow> settled s' x = (if x = e then shows_cb cb else settled s x)"
proof -
  note c = call_effect [OF assms(1) refl, where h = h and s = s]
  have no: "due e (b_pending s) = []" if "\<not> has_class (bp s) e ''fade''"
    using assms(2) that by (auto simp: pend_ok_def due_def filter_empty_conv)
  show "tab_moves q s s'" using assms c(1) by (auto simp: tab_queue_def tab_moves_def pend_ok_def)
  show "focused (bp s') = focused (bp s)" using s' c(3) by (simp add: tab_queue_def)
  assume m: "plain_member (bp s) x"
  show "elemIsActive (bp s') x = elemIsActive (bp s) x" using s' c(4) m by (simp add: tab_queue_def)
  show "settled s' x = (if x = e then shows_cb cb else settled s x)"
    using s' c(2,5) m no by (auto simp: settled_def tab_queue_def due_def)
qed

text \<open>One element: its class is written, and its callback queued.\<close>

abbreviation act :: "tabs \<Rightarrow> elem \<Rightarrow> bool" where
  "act s x \<equiv> elemIsActive (bp s) x"

lemma write_effect:
  assumes "p1 = (if b then add_class e ''active'' (bp s) else blur_el e (remove_class e ''active'' (bp s)))" and s': "s' = s\<lparr>bp := p1\<rparr>"
  shows "tab_moves q s s'" "act s' x = (if x = e then b else act s x)" "settled s' x = settled s x"
    "focused (bp s) = Some f \<Longrightarrow> b \<or> f \<noteq> e \<Longrightarrow> focused (bp s') = Some f"
proof -
  have "tab_frame q (bp s) p1" using assms(1) frame_trans [OF frame_class(2) frame_other(1)] by (simp add: frame_class)
  then show "tab_moves q s s'" unfolding s' by (rule moves_page)
  show "act s' x = (if x = e then b else act s x)" "settled s' x = settled s x"
    using assms by (simp_all add: elemIsActive_def settled_def mark_def dom_simps)
  show "focused (bp s) = Some f \<Longrightarrow> b \<or> f \<noteq> e \<Longrightarrow> focused (bp s') = Some f" using assms by (auto simp: blur_el_def dom_simps)
qed

definition both :: "bool \<Rightarrow> elem \<Rightarrow> elem option \<Rightarrow> (elem \<Rightarrow> bool) \<Rightarrow> elem \<Rightarrow> bool" where
  "both b e y f x = (if x = e \<or> y = Some x then b else f x)"

lemma one_effect:
  assumes "callback_of e cb" "shows_cb cb = b" "pend_ok s"
    and "s' = tab_queue h cb e (s\<lparr>bp := if b then add_class e ''active'' (bp s) else blur_el e (remove_class e ''active'' (bp s))\<rparr>)"
  shows "tab_moves q s s'" "plain_member (bp s) x \<Longrightarrow> act s' x = both b e None (act s) x" "plain_member (bp s) x \<Longrightarrow> settled s' x = both b e None (settled s) x"
    "focused (bp s) = Some f \<Longrightarrow> b \<or> f \<noteq> e \<Longrightarrow> focused (bp s') = Some f"
proof -
  define s1 where "s1 = s\<lparr>bp := if b then add_class e ''active'' (bp s) else blur_el e (remove_class e ''active'' (bp s))\<rparr>"
  note w = write_effect [OF refl s1_def]
  have ok: "pend_ok s1" using w(1) [of q] assms(3) by (simp add: tab_moves_def)
  note k = queue_effect [OF assms(1) ok assms(4) [folded s1_def]]
  show "tab_moves q s s'" by (rule moves_trans [OF w(1) k(1)])
  have p: "plain_member (bp s1) x = plain_member (bp s) x" using frame_plain w(1) [of q] unfolding tab_moves_def by blast
  show "plain_member (bp s) x \<Longrightarrow> act s' x = both b e None (act s) x" "plain_member (bp s) x \<Longrightarrow> settled s' x = both b e None (settled s) x"
    using k(3,4) p w(2,3) assms(2) by (simp_all add: both_def)
  show "focused (bp s) = Some f \<Longrightarrow> b \<or> f \<noteq> e \<Longrightarrow> focused (bp s') = Some f" using w(4) k(2) by simp
qed

text \<open>A tab: its class is written, its panel switched, and its callback queued.\<close>

lemma two_effect:
  assumes "callback_of e cb" "shows_cb cb = b" "callback_of y cb'" "shows_cb cb' = b" "pend_ok s" "y \<noteq> e"
    and s1: "s1 = s\<lparr>bp := if b then add_class e ''active'' (bp s) else blur_el e (remove_class e ''active'' (bp s))\<rparr>"
    and s2: "s2 = tab_queue h cb' y (s1\<lparr>bp := if b then add_class y ''active'' (bp s1) else blur_el y (remove_class y ''active'' (bp s1))\<rparr>)"
    and s': "s' = tab_queue h cb e s2"
  shows "tab_moves q s s'" "plain_member (bp s) x \<Longrightarrow> act s' x = both b e (Some y) (act s) x"
    "plain_member (bp s) x \<Longrightarrow> settled s' x = both b e (Some y) (settled s) x"
    "focused (bp s) = Some f \<Longrightarrow> b \<or> f \<noteq> e \<and> f \<noteq> y \<Longrightarrow> focused (bp s') = Some f"
proof -
  note w = write_effect [OF refl s1]
  have ok: "pend_ok s1" using w(1) [of q] assms(5) by (simp add: tab_moves_def)
  note k = one_effect [OF assms(3,4) ok s2]
  have ok2: "pend_ok s2" using k(1) [of q] ok by (simp add: tab_moves_def)
  note l = queue_effect [OF assms(1) ok2 s']
  have m: "tab_moves q s s2" by (rule moves_trans [OF w(1) k(1)])
  show "tab_moves q s s'" by (rule moves_trans [OF m l(1)])
  have p: "plain_member (bp s1) x = plain_member (bp s) x" "plain_member (bp s2) x = plain_member (bp s) x"
    using frame_plain w(1) [of q] m unfolding tab_moves_def by blast+
  show "plain_member (bp s) x \<Longrightarrow> act s' x = both b e (Some y) (act s) x"
    using l(3) k(2) w(2) p by (simp add: both_def)
  show "plain_member (bp s) x \<Longrightarrow> settled s' x = both b e (Some y) (settled s) x"
    using l(4) k(3) w(3) p assms(2) by (simp add: both_def)
  show "focused (bp s) = Some f \<Longrightarrow> b \<or> f \<noteq> e \<and> f \<noteq> y \<Longrightarrow> focused (bp s') = Some f" using w(4) k(4) l(2) by auto
qed

text \<open>\<open>switch\<close> is what \<open>_activate\<close> (\<open>b\<close> true) and \<open>_deactivate\<close> do to a tab and its panel.\<close>

definition switch :: "bool \<Rightarrow> host \<Rightarrow> elem \<Rightarrow> elem option \<Rightarrow> tabs \<Rightarrow> tabs \<Rightarrow> bool" where
  "switch b h e y s s' \<longleftrightarrow> (\<forall>q. tab_moves q s s')
     \<and> (\<forall>x. plain_member (bp s) x \<longrightarrow> act s' x = both b e y (act s) x \<and> settled s' x = both b e y (settled s) x)
     \<and> (\<forall>f. focused (bp s) = Some f \<longrightarrow> b \<or> f \<noteq> e \<and> y \<noteq> Some f \<longrightarrow> focused (bp s') = Some f)"

lemma selector_writes:
  "getSelector h (add_class e c p) x = getSelector h p x" "getSelector h (blur_el e (remove_class e c p)) x = getSelector h p x"
  unfolding getSelector_def by (simp_all only: dom_simps)

lemma activate_effect:
  assumes l: "tab_list h q (bp s)" and e: "e \<in> set (tab_getChildren (bp s) q)" and ok: "pend_ok s" and n: "3 \<le> n"
  shows "\<exists>s'. tab_activate n h (Some e) s = (s', None) \<and> switch True h e (tab_target h (bp s) e) s s'"
    and "\<exists>s'. tab_deactivate n h (Some e) s = (s', None) \<and> switch False h e (tab_target h (bp s) e) s s'"
proof -
  obtain m where m: "n = Suc (Suc (Suc m))" using n by (metis Suc_le_D numeral_3_eq_3 Suc_le_mono)
  let ?w = "\<lambda>b. s\<lparr>bp := if b then add_class e ''active'' (bp s) else blur_el e (remove_class e ''active'' (bp s))\<rparr>"
  let ?cb = "\<lambda>b x. if b then TabShown x else TabHidden x"
  have id: "id_text h (getSelector h (bp s) e)" using l e by (simp add: tab_list_def)
  have f: "tab_frame q (bp s) (bp (?w b))" for b using write_effect(1) [OF refl refl, of q s b e] unfolding tab_moves_def by blast
  have t: "getElementFromSelector h (bp (?w b)) e = Some (tab_target h (bp s) e)" for b by (rule frame_target(1) [OF f id])
  have cb: "callback_of x (?cb b x)" "shows_cb (?cb b x) = b" for b x by (simp_all add: callback_of_def)
  have "(\<exists>s'. tab_activate n h (Some e) s = (s', None) \<and> switch True h e (tab_target h (bp s) e) s s')
      \<and> (\<exists>s'. tab_deactivate n h (Some e) s = (s', None) \<and> switch False h e (tab_target h (bp s) e) s s')"
  proof (cases "tab_target h (bp s) e")
    case None
    have "switch b h e None s (tab_queue h (?cb b e) e (?w b))" for b
      using one_effect [OF cb ok refl, where e = e and b = b and h = h] unfolding switch_def by blast
    from this [of True] this [of False] t [of True] t [of False] None show ?thesis by (simp add: m)
  next
    case (Some y)
    have pan: "is_panel h (bp s) q y" using l e Some by (simp add: tab_list_def)
    then have "y \<noteq> e" using e by (auto simp: is_panel_def)
    then have "switch b h e (Some y) s (tab_queue h (?cb b e) e (tab_queue h (?cb b y) y ((?w b)\<lparr>bp := if b then add_class y ''active'' (bp (?w b))
        else blur_el y (remove_class y ''active'' (bp (?w b)))\<rparr>)))" for b
      using two_effect [OF cb cb ok _ refl refl refl, where e = e and y = y and b = b and h = h] unfolding switch_def by blast
    note sw = this [of True] this [of False]
    have "getElementFromSelector h (add_class y ''active'' (add_class e ''active'' (bp s))) y = Some None"
      "getElementFromSelector h (blur_el y (remove_class y ''active'' (blur_el e (remove_class e ''active'' (bp s))))) y = Some None"
      using pan by (simp_all add: is_panel_def getElementFromSelector_def selector_writes)
    then show ?thesis using sw t [of True] t [of False] Some by (simp add: m)
  qed
  then show "\<exists>s'. tab_activate n h (Some e) s = (s', None) \<and> switch True h e (tab_target h (bp s) e) s s'"
    "\<exists>s'. tab_deactivate n h (Some e) s = (s', None) \<and> switch False h e (tab_target h (bp s) e) s s'" by blast+
qed

section \<open>The selected tab\<close>

text \<open>
  All there is to know of a tab list is which tab is selected, if one is: \<open>belongs\<close> says which
  elements are then active, and \<open>tab_inv\<close> that the page agrees, now and when all transitions have
  ended.
\<close>

fun belongs :: "host \<Rightarrow> page \<Rightarrow> elem option \<Rightarrow> elem \<Rightarrow> bool" where
  "belongs h p None x = False"
| "belongs h p (Some t) x = (x = t \<or> tab_target h p t = Some x)"

definition tab_inv :: "host \<Rightarrow> elem \<Rightarrow> tabs \<Rightarrow> elem option \<Rightarrow> bool" where
  "tab_inv h q s a \<longleftrightarrow> tab_list h q (bp s) \<and> pend_ok s
     \<and> (\<forall>t \<in> set (tab_getChildren (bp s) q). getAttribute (bp s) t ''role'' = Some ''tab'' \<and> (\<forall>c. binsts s t = Some c \<longrightarrow> tab_parent c = Some q))
     \<and> (\<forall>t. a = Some t \<longrightarrow> t \<in> set (tab_getChildren (bp s) q))
     \<and> (\<forall>x \<in> members h (bp s) q. act s x = belongs h (bp s) a x \<and> settled s x = belongs h (bp s) a x)"

lemma tab_in_members: "t \<in> set (tab_getChildren p q) \<Longrightarrow> t \<in> members h p q"
  by (simp add: members_def)

lemma belongs_tab:
  assumes "tab_list h q p" "t \<in> set (tab_getChildren p q)" "\<forall>t. a = Some t \<longrightarrow> t \<in> set (tab_getChildren p q)"
  shows "belongs h p a t = (a = Some t)"
  using assms by (cases a) (auto simp: tab_list_def is_panel_def)

lemma frame_belongs:
  assumes "tab_frame q p p'" "tab_list h q p" "\<forall>t. a = Some t \<longrightarrow> t \<in> set (tab_getChildren p q)"
  shows "belongs h p' a x = belongs h p a x"
  using assms by (cases a) (simp_all add: tab_list_def frame_target)

lemma inv_transfer:
  assumes inv: "tab_inv h q s a" and f: "tab_frame q (bp s) (bp s')" and ok: "pend_ok s'"
    and inst: "\<And>t c. t \<in> set (tab_getChildren (bp s) q) \<Longrightarrow> binsts s' t = Some c \<Longrightarrow> tab_parent c = Some q"
    and a': "\<forall>t. a' = Some t \<longrightarrow> t \<in> set (tab_getChildren (bp s) q)"
    and eff: "\<And>x. x \<in> members h (bp s) q \<Longrightarrow> act s' x = belongs h (bp s) a' x \<and> settled s' x = belongs h (bp s) a' x"
  shows "tab_inv h q s' a'"
proof -
  have l: "tab_list h q (bp s)" using inv by (simp add: tab_inv_def)
  show ?thesis using inv frame_list [OF f l] ok inst a' eff
    unfolding tab_inv_def frame_children [OF f] frame_members [OF f l] frame_belongs [OF f l a'] frame_reads(7) [OF f] by blast
qed

lemma inv_switch:
  assumes inv: "tab_inv h q s a" and e: "e \<in> set (tab_getChildren (bp s) q)" and sw: "switch b h e (tab_target h (bp s) e) s s'"
    and a': "\<forall>t. a' = Some t \<longrightarrow> t \<in> set (tab_getChildren (bp s) q)"
    and eff: "\<And>x. both b e (tab_target h (bp s) e) (belongs h (bp s) a) x = belongs h (bp s) a' x"
  shows "tab_inv h q s' a'"
proof (rule inv_transfer [OF inv])
  have m: "tab_moves q s s'" using sw by (simp add: switch_def)
  have i: "tab_list h q (bp s)" "pend_ok s" using inv by (simp_all add: tab_inv_def)
  show "tab_frame q (bp s) (bp s')" "pend_ok s'" using m i(2) by (simp_all add: tab_moves_def)
  show "tab_parent c = Some q" if "t \<in> set (tab_getChildren (bp s) q)" "binsts s' t = Some c" for t c
    using m that inv by (simp add: tab_moves_def tab_inv_def)
  show "act s' x = belongs h (bp s) a' x \<and> settled s' x = belongs h (bp s) a' x" if "x \<in> members h (bp s) q" for x
  proof -
    have "act s x = belongs h (bp s) a x" "settled s x = belongs h (bp s) a x" using inv that by (simp_all add: tab_inv_def)
    moreover have "act s' x = both b e (tab_target h (bp s) e) (act s) x" "settled s' x = both b e (tab_target h (bp s) e) (settled s) x"
      using sw members_plain [OF i(1) that] by (simp_all add: switch_def)
    ultimately show ?thesis unfolding eff [symmetric] both_def by simp
  qed
qed (rule a')

lemma inv_active:
  assumes inv: "tab_inv h q s a"
  shows "getActiveElem (bp s) q = a" "e \<in> set (tab_getChildren (bp s) q) \<Longrightarrow> act s e = (a = Some e)"
proof -
  let ?T = "tab_getChildren (bp s) q"
  have a: "act s t = (a = Some t)" if "t \<in> set ?T" for t
    using inv that belongs_tab [of h q "bp s" t a] tab_in_members [OF that] by (simp add: tab_inv_def)
  then show "e \<in> set ?T \<Longrightarrow> act s e = (a = Some e)" .
  show "getActiveElem (bp s) q = a"
  proof (cases "getActiveElem (bp s) q")
    case None
    then have "\<not> act s t" if "t \<in> set ?T" for t using that by (auto simp: getActiveElem_def find_None_iff)
    with a inv show ?thesis unfolding None tab_inv_def by (cases a) auto
  next
    case (Some t)
    then have "t \<in> set ?T" "act s t" by (auto simp: getActiveElem_def find_Some_iff)
    with a Some show ?thesis by simp
  qed
qed

lemma log_inv: "tab_inv h q s a \<Longrightarrow> tab_inv h q (s\<lparr>bp := triggering h e ev (bp s)\<rparr>) a"
  by (rule inv_transfer [where a' = a])
    (auto simp: frame_other tab_inv_def pend_ok_def elemIsActive_def settled_def mark_def dom_simps)

text \<open>What the listeners of the page allow; it does not depend on the page.\<close>

definition tab_vetoed :: "host \<Rightarrow> elem option \<Rightarrow> elem \<Rightarrow> page \<Rightarrow> bool" where
  "tab_vetoed h a e p \<longleftrightarrow> prevented_by h e ''show.bs.tab'' p \<or> (\<exists>t. a = Some t \<and> prevented_by h t ''hide.bs.tab'' p)"

lemma prevented_page: "prevented_by h e ev p = prevented_by h e ev p'"
  by (simp add: trigger_def Let_def split: option.splits prod.splits)

lemma show_effect:
  assumes inv: "tab_inv h q s a" and e: "e \<in> set (tab_getChildren (bp s) q)" and c: "binsts s e = Some c" and n: "3 \<le> n"
  shows "\<exists>s'. tab_show n h e s = (s', None) \<and> tab_inv h q s' (if tab_vetoed h a e (bp s) then a else Some e)
    \<and> (focused (bp s) = Some e \<longrightarrow> focused (bp s') = Some e) \<and> tab_frame q (bp s) (bp s')"
proof (cases "a = Some e")
  case True
  then show ?thesis using inv inv_active(2) [OF inv e] c by (simp add: tab_show_def)
next
  case False
  have par: "tab_parent c = Some q" using inv e c by (simp add: tab_inv_def)
  let ?s0 = "case a of None \<Rightarrow> s | Some t \<Rightarrow> s\<lparr>bp := triggering h t ''hide.bs.tab'' (bp s)\<rparr>"
  let ?s1 = "s\<lparr>bp := triggering h e ''show.bs.tab'' (bp ?s0)\<rparr>"
  have p1: "(case a of None \<Rightarrow> bp s | Some t \<Rightarrow> triggering h t ''hide.bs.tab'' (bp s)) = bp ?s0" by (cases a) simp_all
  have s1: "?s1 = ?s0\<lparr>bp := triggering h e ''show.bs.tab'' (bp ?s0)\<rparr>" by (cases a) simp_all
  have i1: "tab_inv h q ?s1 a" unfolding s1 using inv log_inv log_inv [OF log_inv] by (cases a) simp_all
  have fr: "tab_frame q (bp s) (bp ?s1)" "focused (bp ?s1) = focused (bp s)"
    by (cases a; simp add: tab_frame_def dom_simps)+
  have veto: "(prevented_by h e ''show.bs.tab'' (bp ?s0) \<or> (case a of None \<Rightarrow> False | Some t \<Rightarrow> prevented_by h t ''hide.bs.tab'' (bp s)))
      = tab_vetoed h a e (bp s)"
    using prevented_page [of h e _ "bp ?s0" "bp s"] by (cases a) (simp_all add: tab_vetoed_def)
  have shw: "tab_show n h e s = (if tab_vetoed h a e (bp s) then (?s1, None) else and_then (tab_deactivate n h a ?s1) (tab_activate n h (Some e)))"
    unfolding tab_show_def c option.case inv_active(2) [OF inv e] par inv_active(1) [OF inv] Let_def p1 veto using False by simp
  show ?thesis
  proof (cases "tab_vetoed h a e (bp s)")
    case True
    then show ?thesis using shw i1 fr by auto
  next
    case go: False
    note kids = frame_children [OF fr(1), of q]
    obtain s2 where s2: "tab_deactivate n h a ?s1 = (s2, None)" "tab_inv h q s2 None" "tab_frame q (bp ?s1) (bp s2)"
      "focused (bp ?s1) = Some e \<longrightarrow> focused (bp s2) = Some e"
    proof (cases a)
      case None
      have "tab_deactivate n h None ?s1 = (?s1, None)" using n by (cases n) simp_all
      then show ?thesis using that [of ?s1] i1 unfolding None by simp
    next
      case (Some t)
      have t: "t \<in> set (tab_getChildren (bp ?s1) q)" using i1 by (simp add: tab_inv_def Some)
      have ok: "tab_list h q (bp ?s1)" "pend_ok ?s1" using i1 by (simp_all add: tab_inv_def)
      from activate_effect(2) [OF ok(1) t ok(2) n] obtain s2
        where s2: "tab_deactivate n h (Some t) ?s1 = (s2, None)" "switch False h t (tab_target h (bp ?s1) t) ?s1 s2" by blast
      have "tab_inv h q s2 None" by (rule inv_switch [OF i1 t s2(2)]) (auto simp: both_def Some)
      moreover have "tab_target h (bp ?s1) t \<noteq> Some e" using ok(1) t e kids by (auto simp: tab_list_def is_panel_def)
      ultimately show ?thesis using that [of s2] s2 False Some by (auto simp: switch_def tab_moves_def)
    qed
    have ok: "tab_list h q (bp s2)" "pend_ok s2" using s2(2) by (simp_all add: tab_inv_def)
    have e2: "e \<in> set (tab_getChildren (bp s2) q)" using e kids frame_children [OF s2(3), of q] by simp
    from activate_effect(1) [OF ok(1) e2 ok(2) n] obtain s3
      where s3: "tab_activate n h (Some e) s2 = (s3, None)" "switch True h e (tab_target h (bp s2) e) s2 s3" by blast
    have "tab_inv h q s3 (Some e)" by (rule inv_switch [OF s2(2) e2 s3(2)]) (auto simp: both_def e2)
    moreover have "focused (bp s3) = Some e" if "focused (bp s) = Some e"
      using that fr(2) s2(4) s3(2) by (simp add: switch_def)
    moreover have "tab_show n h e s = (s3, None)" using shw go s2(1) s3(1) by simp
    moreover have "tab_frame q (bp s) (bp s3)"
      using frame_trans [OF frame_trans [OF fr(1) s2(3)]] s3(2) by (simp add: switch_def tab_moves_def)
    ultimately show ?thesis using go by auto
  qed
qed

subsection \<open>Construction\<close>

text \<open>A write that leaves an element's presentation alone, or makes it what the element's class says.\<close>

lemma inv_page:
  assumes inv: "tab_inv h q s a" and f: "tab_frame q (bp s) p'"
    and eff: "\<And>x. x \<in> members h (bp s) q \<Longrightarrow> elemIsActive p' x = act s x \<and> (mark p' x = mark (bp s) x \<or> mark p' x = act s x)"
  shows "tab_inv h q (s\<lparr>bp := p'\<rparr>) a"
proof (rule inv_transfer [OF inv])
  show "tab_frame q (bp s) (bp (s\<lparr>bp := p'\<rparr>))" "pend_ok (s\<lparr>bp := p'\<rparr>)"
    using inv f by (simp_all add: tab_inv_def pend_ok_def frame_fade)
  show "tab_parent c = Some q" if "t \<in> set (tab_getChildren (bp s) q)" "binsts (s\<lparr>bp := p'\<rparr>) t = Some c" for t c
    using inv that by (simp add: tab_inv_def)
  show "\<forall>t. a = Some t \<longrightarrow> t \<in> set (tab_getChildren (bp s) q)" using inv by (simp add: tab_inv_def)
  show "act (s\<lparr>bp := p'\<rparr>) x = belongs h (bp s) a x \<and> settled (s\<lparr>bp := p'\<rparr>) x = belongs h (bp s) a x" if "x \<in> members h (bp s) q" for x
    using inv that eff [OF that] by (auto simp: tab_inv_def settled_def split: if_splits)
qed

lemma same_presentation:
  assumes "tab_frame q p p'" "\<And>x. getAttribute p' x ''aria-selected'' = getAttribute p x ''aria-selected''"
    "\<And>x c. has_class p' x c = has_class p x c"
  shows "elemIsActive p' x = elemIsActive p x" "mark p' x = mark p x"
  unfolding elemIsActive_def mark_def frame_reads(7) [OF assms(1)] assms(2,3) by (rule refl)+

lemma ifnot_reads [dom_simps]:
  "has_class (setAttributeIfNotExists e a v p) x c = has_class p x c" "focused (setAttributeIfNotExists e a v p) = focused p"
  "getAttribute (setAttributeIfNotExists e a v p) x b = (if x = e \<and> b = a \<and> getAttribute p e a = None then Some v else getAttribute p x b)"
  by (simp_all add: setAttributeIfNotExists_def dom_simps)

lemma ifnot_id: "getAttribute p e a \<noteq> None \<Longrightarrow> setAttributeIfNotExists e a v p = p"
  by (auto simp: setAttributeIfNotExists_def)

lemma inner_self:
  assumes "t \<in> set (tab_getChildren p q)"
  shows "getInnerElement p t = Some t"
proof -
  have "t \<in> set (querySelectorAll p q SELECTOR_INNER_ELEM)" using assms by (simp add: tab_getChildren_def SE_find_def)
  note t = querySelectorAll_in_page [OF this] querySelectorAll_matches [OF this]
  then show ?thesis by (simp add: getInnerElement_def matches_def inner_matches)
qed

lemma initial_effect:
  assumes role: "getAttribute p t ''role'' = Some ''tab''"
  shows "tab_frame q p (initial_page t p)" "elemIsActive (initial_page t p) x = elemIsActive p x"
    "mark (initial_page t p) x = (if x = t then elemIsActive p t else mark p x)" "focused (initial_page t p) = focused p"
proof -
  let ?o = "getOuterElement p t"
  let ?p1 = "setAttribute t ''aria-selected'' (bool_str (elemIsActive p t)) p"
  let ?p2 = "if ?o \<noteq> t then setAttributeIfNotExists ?o ''role'' ''presentation'' ?p1 else ?p1"
  let ?p3 = "if elemIsActive p t then ?p2 else setAttribute t ''tabindex'' ''-1'' ?p2"
  have f1: "tab_frame q p ?p1" by (simp add: frame_attr)
  have f2: "tab_frame q ?p1 ?p2" by (simp add: frame_role)
  have f3: "tab_frame q ?p2 ?p3" by (simp add: frame_attr)
  have f12: "tab_frame q p ?p2" by (rule frame_trans [OF f1 f2])
  have f: "tab_frame q p ?p3" by (rule frame_trans [OF f12 f3])
  have r3: "getAttribute ?p3 t ''role'' \<noteq> None" using frame_reads(7) [OF f, of t] role by auto
  then have eq: "initial_page t p = ?p3" unfolding initial_page_def Let_def by (rule ifnot_id)
  have c: "has_class ?p3 x d = has_class p x d" for x d by (simp add: setAttributeIfNotExists_def dom_simps)
  have a: "getAttribute ?p3 x ''aria-selected'' = (if x = t then Some (bool_str (elemIsActive p t)) else getAttribute p x ''aria-selected'')"
    by (simp add: setAttributeIfNotExists_def dom_simps)
  show "tab_frame q p (initial_page t p)" unfolding eq by (rule f)
  show "elemIsActive (initial_page t p) x = elemIsActive p x" unfolding eq by (simp only: elemIsActive_def [of _ x] c)
  show "mark (initial_page t p) x = (if x = t then elemIsActive p t else mark p x)"
    unfolding eq mark_def frame_reads(7) [OF f] a c using role by (simp add: bool_str_def)
  show "focused (initial_page t p) = focused p" unfolding eq by (simp add: setAttributeIfNotExists_def dom_simps)
qed

lemma panel_effect:
  assumes "p' = setAttributeIfNotExists y ''role'' ''tabpanel'' p \<or> p' = setAttributeIfNotExists y ''aria-labelledby'' i (setAttributeIfNotExists y ''role'' ''tabpanel'' p)"
  shows "tab_frame q p p'" "elemIsActive p' x = elemIsActive p x" "mark p' x = mark p x" "focused p' = focused p"
proof -
  have r: "tab_frame q p (setAttributeIfNotExists y ''role'' ''tabpanel'' p)" by (simp add: frame_role)
  show f: "tab_frame q p p'" using assms r frame_trans [OF r frame_attr(3)] by auto
  have "getAttribute p' x ''aria-selected'' = getAttribute p x ''aria-selected''" "has_class p' x c = has_class p x c" for x c
    using assms by (auto simp: dom_simps)
  from same_presentation [OF f this] show "elemIsActive p' x = elemIsActive p x" "mark p' x = mark p x" .
  show "focused p' = focused p" using assms by (auto simp: dom_simps)
qed

lemma child_effect:
  assumes inv: "tab_inv h q s a" and t: "t \<in> set (tab_getChildren (bp s) q)"
  shows "\<exists>p'. setInitialAttributesOnChild h t s = (s\<lparr>bp := p'\<rparr>, None) \<and> tab_frame q (bp s) p' \<and> tab_inv h q (s\<lparr>bp := p'\<rparr>) a
    \<and> focused p' = focused (bp s)"
proof -
  let ?p = "initial_page t (bp s)"
  have role: "getAttribute (bp s) t ''role'' = Some ''tab''" and l: "tab_list h q (bp s)" using inv t by (simp_all add: tab_inv_def)
  note i = initial_effect [OF role]
  have inv1: "tab_inv h q (s\<lparr>bp := ?p\<rparr>) a" by (rule inv_page [OF inv i(1)]) (auto simp: i(2,3))
  have g: "getElementFromSelector h ?p t = Some (tab_target h (bp s) t)"
    by (rule frame_target(1) [OF i(1)]) (use l t in \<open>simp add: tab_list_def\<close>)
  obtain p' where p': "setInitialAttributesOnTargetPanel h t (s\<lparr>bp := ?p\<rparr>) = (s\<lparr>bp := p'\<rparr>, None)"
    "p' = ?p \<or> (\<exists>y i. p' = setAttributeIfNotExists y ''role'' ''tabpanel'' ?p
        \<or> p' = setAttributeIfNotExists y ''aria-labelledby'' i (setAttributeIfNotExists y ''role'' ''tabpanel'' ?p))"
  proof (cases "tab_target h (bp s) t")
    case None
    then show ?thesis using that [of ?p] g by (simp add: setInitialAttributesOnTargetPanel_def)
  next
    case (Some y)
    let ?p1 = "setAttributeIfNotExists y ''role'' ''tabpanel'' ?p"
    from Some g have "setInitialAttributesOnTargetPanel h t (s\<lparr>bp := ?p\<rparr>) = (case getAttribute ?p1 t ''id'' of None \<Rightarrow> (s\<lparr>bp := ?p1\<rparr>, None)
        | Some i \<Rightarrow> if i = [] then (s\<lparr>bp := ?p1\<rparr>, None) else (s\<lparr>bp := setAttributeIfNotExists y ''aria-labelledby'' i ?p1\<rparr>, None))"
      by (simp add: setInitialAttributesOnTargetPanel_def Let_def split: option.split)
    then show ?thesis using that [of ?p1] that [of "setAttributeIfNotExists y ''aria-labelledby'' _ ?p1"] by (auto split: option.splits if_splits)
  qed
  have e: "tab_frame q ?p p'" "\<And>x. elemIsActive p' x = elemIsActive ?p x" "\<And>x. mark p' x = mark ?p x" "focused p' = focused ?p"
    by (use p'(2) in \<open>elim disjE exE; metis frame_refl panel_effect\<close>)+
  have "tab_inv h q (s\<lparr>bp := ?p\<rparr>\<lparr>bp := p'\<rparr>) a" by (rule inv_page [OF inv1]) (use e in simp_all)
  moreover have "setInitialAttributesOnChild h t s = (s\<lparr>bp := p'\<rparr>, None)"
    using p'(1) inner_self [OF t] by (simp add: setInitialAttributesOnChild_def)
  ultimately show ?thesis using frame_trans [OF i(1) e(1)] e(4) i(4) by auto
qed

lemma children_effect:
  assumes "tab_inv h q s a" "set ts \<subseteq> set (tab_getChildren (bp s) q)"
  shows "\<exists>p'. setInitialAttributesOn h ts s = (s\<lparr>bp := p'\<rparr>, None) \<and> tab_frame q (bp s) p' \<and> tab_inv h q (s\<lparr>bp := p'\<rparr>) a
    \<and> focused p' = focused (bp s)"
  using assms
proof (induction ts arbitrary: s)
  case Nil
  then show ?case by (auto intro: exI [of _ "bp s"])
next
  case (Cons t ts)
  from child_effect [OF Cons.prems(1), of t] Cons.prems(2) obtain p1 where p1: "setInitialAttributesOnChild h t s = (s\<lparr>bp := p1\<rparr>, None)"
    "tab_frame q (bp s) p1" "tab_inv h q (s\<lparr>bp := p1\<rparr>) a" "focused p1 = focused (bp s)" by auto
  have "set ts \<subseteq> set (tab_getChildren (bp (s\<lparr>bp := p1\<rparr>)) q)" using Cons.prems(2) frame_children [OF p1(2)] by simp
  from Cons.IH [OF p1(3) this] p1 show ?case by (auto intro: frame_trans)
qed

lemma new_effect:
  assumes inv: "tab_inv h q s a" and t: "t \<in> set (tab_getChildren (bp s) q)"
  shows "\<exists>s'. tab_getOrCreate h t s = (s', None) \<and> tab_inv h q s' a \<and> tab_frame q (bp s) (bp s') \<and> binsts s' t \<noteq> None
    \<and> focused (bp s') = focused (bp s)"
proof (cases "binsts s t")
  case None
  let ?c = "\<lambda>b. \<lparr>tab_parent = Some q, tab_listening = b\<rparr>"
  have cl: "closest (bp s) SELECTOR_TAB_PANEL t = Some q" using inv t by (simp add: tab_inv_def tab_list_def)
  have set_inv: "tab_inv h q (set_tab t (?c b) s') a" if "tab_inv h q s' a" for b s'
    by (rule inv_transfer [OF that]) (use that in \<open>auto simp: tab_inv_def set_tab_def pend_ok_def settled_def split: if_splits\<close>)
  let ?s = "set_tab t (?c False) s"
  let ?p = "setAttributeIfNotExists q ''role'' ''tablist'' (bp s)"
  have fq: "tab_frame q (bp s) ?p" by (simp add: frame_role)
  have same: "elemIsActive ?p x = act s x" "mark ?p x = mark (bp s) x" for x
    by (rule same_presentation [OF fq]; simp add: setAttributeIfNotExists_def dom_simps)+
  have i1: "tab_inv h q (?s\<lparr>bp := ?p\<rparr>) a"
    by (rule inv_page [OF set_inv [OF inv]]) (use fq same in \<open>auto simp: set_tab_def\<close>)
  have kids: "tab_getChildren (bp (?s\<lparr>bp := ?p\<rparr>)) q = tab_getChildren (bp s) q" using frame_children [OF fq] by simp
  from children_effect [OF i1, of "tab_getChildren (bp s) q"] kids obtain p' where
    p': "setInitialAttributesOn h (tab_getChildren (bp s) q) (?s\<lparr>bp := ?p\<rparr>) = (?s\<lparr>bp := p'\<rparr>, None)" "tab_frame q ?p p'"
      "tab_inv h q (?s\<lparr>bp := p'\<rparr>) a" "focused p' = focused ?p" by auto
  have "bp ?s = bp s" by (simp add: set_tab_def)
  then have "tab_getOrCreate h t s = (set_tab t (?c True) (?s\<lparr>bp := p'\<rparr>), None)"
    using None cl p'(1) by (simp add: tab_getOrCreate_def tab_new_def setInitialAttributes_def)
  moreover have "focused ?p = focused (bp s)" by (simp add: setAttributeIfNotExists_def dom_simps)
  ultimately show ?thesis using set_inv [OF p'(3)] frame_trans [OF fq p'(2)] p'(4) by (auto simp: set_tab_def)
qed (use inv in \<open>auto simp: tab_getOrCreate_def\<close>)

section \<open>Events\<close>

lemma tab_target_mem: "tab_key_target cs key target = Some x \<Longrightarrow> x \<in> set cs"
  by (auto simp: tab_key_target_def first_of_def rev_eq_Cons_iff dest: getNextActiveElement_mem split: if_splits list.splits)

text \<open>Selecting a tab: the instance is made when there is none, and the tab shown.\<close>

lemma select_effect:
  assumes inv: "tab_inv h q s a" and e: "e \<in> set (tab_getChildren (bp s) q)" and n: "3 \<le> n"
  shows "\<exists>s'. and_then (tab_getOrCreate h e s) (tab_show n h e) = (s', None)
    \<and> tab_inv h q s' (if tab_vetoed h a e (bp s) then a else Some e) \<and> (focused (bp s) = Some e \<longrightarrow> focused (bp s') = Some e)
    \<and> tab_frame q (bp s) (bp s')"
proof -
  from new_effect [OF inv e] obtain s1 c where s1: "tab_getOrCreate h e s = (s1, None)" "tab_inv h q s1 a" "tab_frame q (bp s) (bp s1)"
    "binsts s1 e = Some c" "focused (bp s1) = focused (bp s)" by auto
  have e1: "e \<in> set (tab_getChildren (bp s1) q)" using e frame_children [OF s1(3)] by simp
  have "tab_vetoed h a e (bp s1) = tab_vetoed h a e (bp s)" unfolding tab_vetoed_def using prevented_page by metis
  with show_effect [OF s1(2) e1 s1(4) n] s1 frame_trans [OF s1(3)] show ?thesis by auto
qed

definition event_of :: "elem list \<Rightarrow> tab_event \<Rightarrow> bool" where
  "event_of T ev \<longleftrightarrow> (case ev of TabClick e \<Rightarrow> e \<in> set T | TabKeydown e key target \<Rightarrow> e \<in> set T | TabTransitionEnd x \<Rightarrow> True)"

lemma click_effect:
  assumes inv: "tab_inv h q s a" and e: "e \<in> set (tab_getChildren (bp s) q)" and n: "3 \<le> n"
  shows "\<exists>s'. snd (tab_click n h e s) = (s', None)
    \<and> tab_inv h q s' (if isDisabled h (bp s) (Some e) \<or> tab_vetoed h a e (bp s) then a else Some e) \<and> tab_frame q (bp s) (bp s')"
  using select_effect [OF assms] inv by (auto simp: tab_click_def)

lemma keydown_effect:
  assumes inv: "tab_inv h q s a" and e: "e \<in> set (tab_getChildren (bp s) q)" and n: "3 \<le> n"
  shows "\<exists>s' a'. tab_keydown n h e key target s = (s', None) \<and> tab_inv h q s' a' \<and> tab_frame q (bp s) (bp s')
    \<and> (binsts s e = Some c \<longrightarrow> tab_listening c \<longrightarrow> key \<in> set tab_keys \<longrightarrow>
        tab_key_target (filter (\<lambda>x. \<not> isDisabled h (bp s) (Some x)) (tab_getChildren (bp s) q)) key target = Some x \<longrightarrow>
        a' = (if tab_vetoed h a x (bp s) then a else Some x) \<and> focused (bp s') = Some x)"
proof -
  let ?cs = "filter (\<lambda>x. \<not> isDisabled h (bp s) (Some x)) (tab_getChildren (bp s) q)"
  show ?thesis
  proof (cases "\<exists>d y. binsts s e = Some d \<and> tab_listening d \<and> key \<in> set tab_keys \<and> tab_key_target ?cs key target = Some y")
    case True
    then obtain d y where d: "binsts s e = Some d" "tab_listening d" "key \<in> set tab_keys" "tab_key_target ?cs key target = Some y" by blast
    let ?s = "s\<lparr>bp := focus_el y (bp s)\<rparr>"
    have p: "tab_parent d = Some q" using inv e d(1) by (simp add: tab_inv_def)
    have f: "tab_frame q (bp s) (focus_el y (bp s))" by (rule frame_other)
    have i: "tab_inv h q ?s a" by (rule inv_page [OF inv f]) (auto simp: elemIsActive_def mark_def dom_simps)
    have y: "y \<in> set (tab_getChildren (bp ?s) q)" using tab_target_mem [OF d(4)] frame_children [OF f] by auto
    have v: "tab_vetoed h a y (bp ?s) = tab_vetoed h a y (bp s)" unfolding tab_vetoed_def using prevented_page by metis
    have "tab_keydown n h e key target s = and_then (tab_getOrCreate h y ?s) (tab_show n h y)"
      using d p by (simp add: tab_keydown_def)
    with select_effect [OF i y n] v d frame_trans [OF f] show ?thesis by (auto simp: dom_simps)
  next
    case False
    have "tab_keydown n h e key target s = (s, None)"
    proof (cases "binsts s e")
      case (Some d)
      then have "tab_parent d = Some q" using inv e by (simp add: tab_inv_def)
      with Some False show ?thesis by (auto simp: tab_keydown_def split: option.splits)
    qed (simp add: tab_keydown_def)
    with False inv show ?thesis using frame_refl [of q "bp s"] by blast
  qed
qed

lemma transition_effect:
  assumes inv: "tab_inv h q s a"
  shows "tab_inv h q (tab_transition_end h x s) a" "tab_frame q (bp s) (bp (tab_transition_end h x s))"
proof -
  let ?s = "s\<lparr>b_pending := not_due x (b_pending s)\<rparr>"
  let ?t = "tab_transition_end h x s"
  have ok: "pend_ok s" and l: "tab_list h q (bp s)" using inv by (simp_all add: tab_inv_def)
  have "\<forall>cb \<in> set (due x (b_pending s)). callback_of x cb" using ok by (auto simp: pend_ok_def due_def)
  from calls_effect [OF this, of q ?s h] have k: "tab_moves q ?s ?t" "b_pending ?t = not_due x (b_pending s)"
    "\<And>y. plain_member (bp s) y \<Longrightarrow> act ?t y = act s y
      \<and> mark (bp ?t) y = (if y = x \<and> due x (b_pending s) \<noteq> [] then shows_cb (last (due x (b_pending s))) else mark (bp s) y)"
    unfolding tab_transition_end_def by auto
  have due: "due y (not_due x ps) = (if y = x then [] else due y ps)" for y and ps :: "tab_callback pending"
    by (induction ps) (auto simp: due_def not_due_def)
  show "tab_frame q (bp s) (bp ?t)" using k(1) by (simp add: tab_moves_def)
  show "tab_inv h q ?t a"
  proof (rule inv_transfer [OF inv])
    have "pend_ok ?s" using ok by (auto simp: pend_ok_def not_due_def)
    then show "tab_frame q (bp s) (bp ?t)" "pend_ok ?t" using k(1) by (simp_all add: tab_moves_def)
    show "tab_parent c = Some q" if "t \<in> set (tab_getChildren (bp s) q)" "binsts ?t t = Some c" for t c
      using inv that k(1) by (simp add: tab_inv_def tab_moves_def)
    show "\<forall>t. a = Some t \<longrightarrow> t \<in> set (tab_getChildren (bp s) q)" using inv by (simp add: tab_inv_def)
    show "act ?t y = belongs h (bp s) a y \<and> settled ?t y = belongs h (bp s) a y" if "y \<in> members h (bp s) q" for y
    proof -
      note k(3) [OF members_plain [OF l that]]
      moreover have "act s y = belongs h (bp s) a y" "settled s y = belongs h (bp s) a y" using inv that by (simp_all add: tab_inv_def)
      ultimately show ?thesis by (auto simp: settled_def k(2) due split: if_splits)
    qed
  qed
qed

lemma step_effect:
  assumes inv: "tab_inv h q s a" and ev: "event_of (tab_getChildren (bp s) q) ev" and n: "3 \<le> n"
  shows "\<exists>a'. tab_inv h q (tab_step n h s ev) a' \<and> tab_frame q (bp s) (bp (tab_step n h s ev))"
proof (cases ev)
  case (TabClick e)
  with ev click_effect [OF inv _ n, of e] show ?thesis by (auto simp: event_of_def)
next
  case (TabKeydown e key target)
  with ev have "e \<in> set (tab_getChildren (bp s) q)" by (simp add: event_of_def)
  from keydown_effect [OF inv this n, of key target] obtain s' a' where "tab_keydown n h e key target s = (s', None)" "tab_inv h q s' a'"
    "tab_frame q (bp s) (bp s')" by blast
  with TabKeydown show ?thesis by auto
next
  case (TabTransitionEnd x)
  with transition_effect [OF inv] show ?thesis by auto
qed

interpretation tab: event_machine "tab_step n h" "\<lambda>_ ev. 3 \<le> n \<and> event_of (tab_getChildren p q) ev"
  "\<lambda>s. (\<exists>a. tab_inv h q s a) \<and> tab_frame q p (bp s)" for n h p q
  by unfold_locales (metis step_effect frame_children frame_trans)

text \<open>What the invariant says in terms of the page.\<close>

lemma inv_view:
  assumes "tab_inv h q s a"
  shows "e \<in> set (tab_getChildren (bp s) q) \<Longrightarrow> elemIsActive (bp s) e \<longleftrightarrow> a = Some e"
    "x \<in> panels h (bp s) q \<Longrightarrow> elemIsActive (bp s) x \<longleftrightarrow> (\<exists>e. a = Some e \<and> tab_target h (bp s) e = Some x)"
    "b_pending s = [] \<Longrightarrow> e \<in> set (tab_getChildren (bp s) q) \<Longrightarrow> getAttribute (bp s) e ''aria-selected'' = Some ''true'' \<longleftrightarrow> a = Some e"
    "b_pending s = [] \<Longrightarrow> x \<in> panels h (bp s) q \<Longrightarrow> has_class (bp s) x ''show'' \<longleftrightarrow> (\<exists>e. a = Some e \<and> tab_target h (bp s) e = Some x)"
proof -
  let ?T = "tab_getChildren (bp s) q"
  have l: "tab_list h q (bp s)" and a: "\<forall>t. a = Some t \<longrightarrow> t \<in> set ?T" using assms by (simp_all add: tab_inv_def)
  have m: "act s y = belongs h (bp s) a y" "settled s y = belongs h (bp s) a y" if "y \<in> members h (bp s) q" for y
    using assms that by (simp_all add: tab_inv_def)
  have set: "b_pending s = [] \<Longrightarrow> settled s y = mark (bp s) y" for y by (simp add: settled_def due_def)
  have p: "x \<notin> set ?T" "getAttribute (bp s) x ''role'' \<noteq> Some ''tab''" "x \<in> members h (bp s) q" if "x \<in> panels h (bp s) q"
    using l that by (auto simp: panels_def members_def tab_list_def is_panel_def)
  have bp': "belongs h (bp s) a x = (\<exists>e. a = Some e \<and> tab_target h (bp s) e = Some x)" if "x \<in> panels h (bp s) q"
    using a p(1) [OF that] by (cases a) auto
  show "e \<in> set ?T \<Longrightarrow> elemIsActive (bp s) e \<longleftrightarrow> a = Some e" by (rule inv_active(2) [OF assms])
  show "x \<in> panels h (bp s) q \<Longrightarrow> elemIsActive (bp s) x \<longleftrightarrow> (\<exists>e. a = Some e \<and> tab_target h (bp s) e = Some x)"
    using m(1) p(3) bp' by simp
  show "b_pending s = [] \<Longrightarrow> e \<in> set ?T \<Longrightarrow> getAttribute (bp s) e ''aria-selected'' = Some ''true'' \<longleftrightarrow> a = Some e"
    using m(2) [OF tab_in_members] set belongs_tab [OF l _ a] assms by (simp add: mark_def tab_inv_def)
  show "b_pending s = [] \<Longrightarrow> x \<in> panels h (bp s) q \<Longrightarrow> has_class (bp s) x ''show'' \<longleftrightarrow> (\<exists>e. a = Some e \<and> tab_target h (bp s) e = Some x)"
    using m(2) [OF p(3)] set [of x] p(2) bp' by (simp add: mark_def)
qed

section \<open>Properties\<close>

text \<open>C32: A tab list always has at most one selected tab, and the page shows exactly that tab and its panel.  From a consistent tab
  list, after any clicks on its tabs, keys pressed on them and ends of transitions (nested as they come, callbacks of
  overtaken fades included), there is at most one tab that is active, exactly its panel is active, and when no
  transition is running exactly that tab is marked \<open>aria-selected\<close> and exactly its panel has the class \<open>show\<close>.\<close>

theorem tab_list_consistent:
  assumes "tab_inv h q s a" "3 \<le> n" "\<forall>ev \<in> set evs. event_of (tab_getChildren (bp s) q) ev" "t = foldl (tab_step n h) s evs"
  shows "\<exists>a'. (\<forall>e \<in> set (tab_getChildren (bp s) q). (elemIsActive (bp t) e \<longleftrightarrow> a' = Some e)
        \<and> (b_pending t = [] \<longrightarrow> (getAttribute (bp t) e ''aria-selected'' = Some ''true'' \<longleftrightarrow> a' = Some e)))
    \<and> (\<forall>e \<in> set (tab_getChildren (bp s) q). \<forall>x. tab_target h (bp s) e = Some x \<longrightarrow>
        (elemIsActive (bp t) x \<longleftrightarrow> (\<exists>e'. a' = Some e' \<and> tab_target h (bp s) e' = Some x))
        \<and> (b_pending t = [] \<longrightarrow> (has_class (bp t) x ''show'' \<longleftrightarrow> (\<exists>e'. a' = Some e' \<and> tab_target h (bp s) e' = Some x))))"
proof -
  have l: "tab_list h q (bp s)" using assms(1) by (simp add: tab_inv_def)
  have "(\<exists>a. tab_inv h q s a) \<and> tab_frame q (bp s) (bp s)" using assms(1) by auto
  from tab.run_keeps [OF this allowed_run_always, of evs n] assms(2,3,4)
  obtain a' where a': "tab_inv h q t a'" "tab_frame q (bp s) (bp t)" by blast
  note v = inv_view [OF a'(1)]
  have k: "tab_getChildren (bp t) q = tab_getChildren (bp s) q" by (rule frame_children [OF a'(2)])
  have tg: "tab_target h (bp t) e = tab_target h (bp s) e" if "e \<in> set (tab_getChildren (bp s) q)" for e
    by (rule frame_target(2) [OF a'(2)]) (use l that in \<open>simp add: tab_list_def\<close>)
  have at: "(\<exists>e'. a' = Some e' \<and> tab_target h (bp t) e' = Some x) = (\<exists>e'. a' = Some e' \<and> tab_target h (bp s) e' = Some x)" for x
    using a'(1) tg k by (cases a') (auto simp: tab_inv_def)
  have "x \<in> panels h (bp t) q" if "e \<in> set (tab_getChildren (bp s) q)" "tab_target h (bp s) e = Some x" for e x
    using that k tg by (auto simp: panels_def)
  with v k at show ?thesis by (intro exI [of _ a']) simp
qed

text \<open>A list of two tabs with fading panels, the first selected.\<close>

definition tab_host :: host where
  "tab_host = \<lparr>cancels = (\<lambda>_ _. False), parse_sel = (\<lambda>t. Some [[[SelId (tl t)]]]), css_escape = id, rtl = False, hidden_doc = False, touch = False,
     client_rects = (\<lambda>_. 1), visibility = (\<lambda>_. ''visible''), disabled_prop = (\<lambda>_. None), interface_name = (\<lambda>_. []), jquery = None\<rparr>"

definition demo_tab_node :: "string list \<Rightarrow> (string \<times> string) list \<Rightarrow> node" where
  "demo_tab_node cs as = \<lparr>tagName = ''DIV'', classList = cs, attributes = as, style = (\<lambda>_. []), textContent = []\<rparr>"

definition tab_page :: page where
  "tab_page = \<lparr>tree = Elem 0 [Elem 7 [Elem 2 [], Elem 3 []], Elem 4 [Elem 5 [], Elem 6 []]],
     nodes = (\<lambda>e. if e = 7 then demo_tab_node [''nav''] [(''role'', ''tablist'')]
       else if e = 2 then demo_tab_node [''nav-link'', ''active''] [(''role'', ''tab''), (''data-bs-target'', ''#p5''), (''aria-selected'', ''true'')]
       else if e = 3 then demo_tab_node [''nav-link''] [(''role'', ''tab''), (''data-bs-target'', ''#p6''), (''aria-selected'', ''false'')]
       else if e = 5 then demo_tab_node [''fade'', ''show'', ''active''] [(''id'', ''p5'')]
       else if e = 6 then demo_tab_node [''fade''] [(''id'', ''p6'')]
       else demo_tab_node [] []), focused = None, ev_log = []\<rparr>"

definition demo_tabs :: tabs where
  "demo_tabs = \<lparr>bp = tab_page, binsts = [2 \<mapsto> \<lparr>tab_parent = Some 7, tab_listening = True\<rparr>], b_pending = []\<rparr>"

lemma demo_tabs_inv: "tab_inv tab_host 7 demo_tabs (Some 2)"
proof -
  have T: "tab_getChildren tab_page 7 = [2, 3]" by code_simp
  have sel: "getSelector tab_host tab_page 2 = Some ''#p5''" "getSelector tab_host tab_page 3 = Some ''#p6''"
    "getSelector tab_host tab_page 5 = None" "getSelector tab_host tab_page 6 = None" by code_simp+
  have tg: "tab_target tab_host tab_page 2 = Some 5" "tab_target tab_host tab_page 3 = Some 6" by code_simp+
  have cl: "closest tab_page SELECTOR_TAB_PANEL 2 = Some 7" "closest tab_page SELECTOR_TAB_PANEL 3 = Some 7" by code_simp+
  have ps: "parse_sel tab_host t = Some [[[SelId (tl t)]]]" for t by (simp add: tab_host_def)
  have pan: "panels tab_host tab_page 7 = {5, 6}" by (auto simp: panels_def T tg)
  have "tab_list tab_host 7 tab_page" unfolding tab_list_def
    by (auto simp: T cl sel tg ps is_panel_def plain_member_def wf_page_def)
      (simp_all add: tab_page_def demo_tab_node_def has_class_def getAttribute_def)
  then show ?thesis
    unfolding tab_inv_def members_def
    by (auto simp: demo_tabs_def T pan tg pend_ok_def settled_def due_def)
      (simp_all add: tab_page_def demo_tab_node_def elemIsActive_def mark_def has_class_def getAttribute_def)
qed

theorem tab_list_consistent_witness:
  "\<not> (elemIsActive (bp (foldl (tab_step 3 tab_host) demo_tabs [TabClick 3, TabClick 2, TabTransitionEnd 5, TabTransitionEnd 6])) 2
      \<and> elemIsActive (bp (foldl (tab_step 3 tab_host) demo_tabs [TabClick 3, TabClick 2, TabTransitionEnd 5, TabTransitionEnd 6])) 3)"
proof -
  have T: "tab_getChildren (bp demo_tabs) 7 = [2, 3]" by code_simp
  have "\<forall>ev \<in> set [TabClick 3, TabClick 2, TabTransitionEnd 5, TabTransitionEnd 6]. event_of (tab_getChildren (bp demo_tabs) 7) ev"
    by (simp add: T event_of_def)
  note ev = this
  define t where "t = foldl (tab_step 3 tab_host) demo_tabs [TabClick 3, TabClick 2, TabTransitionEnd 5, TabTransitionEnd 6]"
  from tab_list_consistent [OF demo_tabs_inv order.refl ev t_def] obtain a where
    "\<forall>e \<in> set (tab_getChildren (bp demo_tabs) 7). elemIsActive (bp t) e = (a = Some e)"
    by (elim exE conjE) (rule that, rule ballI, drule (1) bspec, erule conjunct1)
  then show ?thesis unfolding T t_def [symmetric] by auto
qed

text \<open>Keyboard navigation.  Home and End lead to the first and the last enabled tab, the arrows to the next or previous enabled
  one, round the ends; the tab reached has the focus and is the selected one, and disabled tabs are skipped.\<close>

theorem tab_key_selects:
  assumes inv: "tab_inv h q s a" and e: "e \<in> set (tab_getChildren (bp s) q)" and n: "3 \<le> n"
    and c: "binsts s e = Some c" "tab_listening c" and key: "key \<in> set tab_keys"
    and cs: "cs = filter (\<lambda>x. \<not> isDisabled h (bp s) (Some x)) (tab_getChildren (bp s) q)" and i: "i < length cs"
    and x: "x = (if key = ''Home'' then hd cs else if key = ''End'' then last cs
        else if key \<in> {''ArrowRight'', ''ArrowDown''} then cs ! ((i + 1) mod length cs) else cs ! ((i + length cs - 1) mod length cs))"
    and veto: "\<not> tab_vetoed h a x (bp s)"
  shows "\<exists>s'. tab_keydown n h e key (cs ! i) s = (s', None) \<and> focused (bp s') = Some x \<and> x \<in> set cs
    \<and> (\<forall>t \<in> set (tab_getChildren (bp s) q). elemIsActive (bp s') t \<longleftrightarrow> t = x)"
proof -
  have d: "distinct cs" unfolding cs tab_getChildren_def SE_find_def
    using inv distinct_querySelectorAll by (simp add: tab_inv_def tab_list_def)
  have ne: "cs \<noteq> []" using i by auto
  have "first_of cs = Some (hd cs)" "first_of (rev cs) = Some (last cs)"
    using ne by (auto simp: first_of_def last_rev hd_rev [symmetric] split: list.splits)
  then have tg: "tab_key_target cs key (cs ! i) = Some x"
    unfolding tab_key_target_def x using getNextActiveElement_next [OF d i] getNextActiveElement_prev [OF d i] by simp
  obtain s' a' where s': "tab_keydown n h e key (cs ! i) s = (s', None)" "tab_inv h q s' a'" "tab_frame q (bp s) (bp s')"
      "a' = Some x" "focused (bp s') = Some x"
    using keydown_effect [OF inv e n, of key "cs ! i" c x, folded cs] c key tg veto by auto
  have "elemIsActive (bp s') t \<longleftrightarrow> t = x" if "t \<in> set (tab_getChildren (bp s) q)" for t
    using inv_view(1) [OF s'(2), of t] that s'(4) frame_children [OF s'(3)] by auto
  with s' tab_target_mem [OF tg] show ?thesis by blast
qed

theorem tab_key_selects_witness:
  "focused (bp (fst (tab_keydown 3 tab_host 2 ''ArrowRight'' 2 demo_tabs))) = Some 3"
proof -
  let ?cs = "[2, 3] :: elem list"
  have T: "filter (\<lambda>x. \<not> isDisabled tab_host (bp demo_tabs) (Some x)) (tab_getChildren (bp demo_tabs) 7) = ?cs" by code_simp
  have 1: "2 \<in> set (tab_getChildren (bp demo_tabs) 7)" by code_simp
  have 2: "binsts demo_tabs 2 = Some \<lparr>tab_parent = Some 7, tab_listening = True\<rparr>" by (simp add: demo_tabs_def)
  have 3: "''ArrowRight'' \<in> set tab_keys" by (simp add: tab_keys_def)
  have 4: "\<not> tab_vetoed tab_host (Some 2) 3 (bp demo_tabs)" by (simp add: tab_vetoed_def trigger_def tab_host_def Let_def)
  have 5: "3 = (if ''ArrowRight'' = ''Home'' then hd ?cs else if ''ArrowRight'' = ''End'' then last ?cs
      else if ''ArrowRight'' \<in> {''ArrowRight'', ''ArrowDown''} then ?cs ! ((0 + 1) mod length ?cs) else ?cs ! ((0 + length ?cs - 1) mod length ?cs))"
    by simp
  from tab_key_selects [OF demo_tabs_inv 1 order.refl 2 _ 3 T [symmetric] _ 5 4] show ?thesis by auto
qed

text \<open>A tab whose target is the tab itself exhausts the call stack: \<open>_activate\<close> calls itself on the same element whatever
  the depth that is left, so activating it never succeeds.\<close>

theorem tab_self_target_overflows:
  assumes "id_text h (getSelector h (bp s) e)" "tab_target h (bp s) e = Some e"
  shows "snd (tab_activate n h (Some e) s) = Some StackOverflow"
  using assms
proof (induction n arbitrary: s)
  case (Suc n)
  let ?s = "s\<lparr>bp := add_class e ''active'' (bp s)\<rparr>"
  have f: "tab_frame 0 (bp s) (bp ?s)" by (simp add: frame_class)
  note t = frame_target [OF f Suc.prems(1)] frame_selector [OF f]
  have "snd (tab_activate n h (Some e) ?s) = Some StackOverflow"
    by (rule Suc.IH) (use Suc.prems t in \<open>simp_all\<close>)
  then show ?case using t(1) Suc.prems(2) by (cases "tab_activate n h (Some e) ?s") simp
qed simp

definition self_target_page :: page where
  "self_target_page = \<lparr>tree = Elem 0 [Elem 1 [Elem 2 []]],
     nodes = (\<lambda>e. if e = 2 then demo_tab_node [''nav-link''] [(''id'', ''x''), (''href'', ''#x'')] else demo_tab_node [''nav''] []), focused = None, ev_log = []\<rparr>"

theorem tab_self_target_overflows_witness:
  "snd (tab_activate 100 tab_host (Some 2) \<lparr>bp = self_target_page, binsts = Map.empty, b_pending = []\<rparr>) = Some StackOverflow"
proof -
  let ?s = "\<lparr>bp = self_target_page, binsts = Map.empty, b_pending = []\<rparr>"
  have "getSelector tab_host self_target_page 2 = Some ''#x''" by code_simp
  then have 1: "id_text tab_host (getSelector tab_host (bp ?s) 2)" by (simp add: tab_host_def)
  have 2: "tab_target tab_host (bp ?s) 2 = Some 2" by code_simp
  show ?thesis by (rule tab_self_target_overflows [OF 1 2])
qed

text \<open>A click on a tab outside every tab list: the constructor accepts it, \<open>show\<close> throws.\<close>

lemma tab_without_list_throws:
  assumes "closest (bp s) SELECTOR_TAB_PANEL e = None" "binsts s e = None" "\<not> isDisabled h (bp s) (Some e)" "\<not> elemIsActive (bp s) e"
  shows "snd (snd (tab_click n h e s)) = Some NoTabList"
  using assms by (simp add: tab_click_def tab_getOrCreate_def tab_new_def tab_show_def set_tab_def)

end
