(* ===== verification/Bs_Template.thy ===== *)
theory Bs_Template
  imports Bs_Sanitizer Bs_Base
begin

text \<open>
  Bootstrap's \<open>template-factory.js\<close> in \<open>bootstrap.bundle.js\<close>: the element of a tooltip or popover, made from
  a template and its content.  The element is built outside the document, as a second tree over the
  same table of elements; new elements get their identities from a counter.
\<close>

section \<open>State\<close>

text \<open>
  \<open>parse_fragment\<close> is the browser's parser behind the assignment to \<open>innerHTML\<close>: the elements it makes,
  numbered from the counter on, and the next value of the counter.  \<open>to_text\<close> is the conversion of a
  value that is no string into one, \<open>call_fn\<close> the result of a function given as content.
\<close>

record tpl_host =
  parse_fragment :: "string \<Rightarrow> nat \<Rightarrow> etree list \<times> (elem \<times> node) list \<times> nat"
  to_text :: "jsval \<Rightarrow> string"
  call_fn :: "nat \<Rightarrow> jsval"
  sanitizer :: html_host

record tpl =
  tf_allowList :: allow_list
  tf_content :: config
  tf_extraClass :: jsval
  tf_html :: bool
  tf_sanitize :: bool
  tf_sanitizeFn :: jsval
  tf_template :: string

text \<open>The document, the detached tree and the counter.\<close>

record work =
  w_page :: page
  w_tree :: etree
  w_fresh :: nat

datatype tpl_error = BadTemplateSelector | EmptyClassName | NoTemplateElement

text \<open>Queries on the detached tree.\<close>

definition detached :: "work \<Rightarrow> page" where
  "detached w = (w_page w)\<lparr>tree := w_tree w\<rparr>"

section \<open>Construction\<close>

definition tpl_default :: config where
  "tpl_default = [(''allowList'', JObj []), (''content'', JObj []), (''extraClass'', JStr []), (''html'', JBool False), (''sanitize'', JBool True),
     (''sanitizeFn'', JNull), (''template'', JStr ''<div></div>'')]"

definition tpl_defaultType :: "(string \<times> string) list" where
  "tpl_defaultType = [(''allowList'', ''object''), (''content'', ''object''), (''extraClass'', ''(string|function)''), (''html'', ''boolean''),
     (''sanitize'', ''boolean''), (''sanitizeFn'', ''(null|function)''), (''template'', ''string'')]"

definition DefaultContentType :: "(string \<times> string) list" where
  "DefaultContentType = [(''entry'', ''(string|element|function|null)''), (''selector'', ''(string|element)'')]"

fun checkContent :: "host \<Rightarrow> config \<Rightarrow> string + unit" where
  "checkContent h [] = Inr ()"
| "checkContent h ((selector, content) # rest) =
     (case typeCheckConfig h ''TemplateFactory'' [(''selector'', JStr selector), (''entry'', content)] DefaultContentType of
        Inl err \<Rightarrow> Inl err
      | Inr _ \<Rightarrow> checkContent h rest)"

definition str_or_empty :: "jsval \<Rightarrow> string" where
  "str_or_empty v = (case v of JStr t \<Rightarrow> t | _ \<Rightarrow> [])"

text \<open>The allow list holds patterns, which the values of the model do not; it is an argument of its own.\<close>

definition tpl_new :: "(string \<Rightarrow> jsval option) \<Rightarrow> host \<Rightarrow> page \<Rightarrow> allow_list \<Rightarrow> jsval \<Rightarrow> string + tpl" where
  "tpl_new json h p allowList config =
     (case getConfig h json p ''TemplateFactory'' tpl_default tpl_defaultType id config None of
        Inl err \<Rightarrow> Inl err
      | Inr c \<Rightarrow>
          (case checkContent h (spread_entries (js_get c ''content'')) of
             Inl err \<Rightarrow> Inl err
           | Inr _ \<Rightarrow> Inr \<lparr>tf_allowList = allowList, tf_content = spread_entries (js_get c ''content''), tf_extraClass = js_get c ''extraClass'',
               tf_html = js_truthy (js_get c ''html''), tf_sanitize = js_truthy (js_get c ''sanitize''), tf_sanitizeFn = js_get c ''sanitizeFn'',
               tf_template = str_or_empty (js_get c ''template'')\<rparr>))"

definition changeContent :: "host \<Rightarrow> config \<Rightarrow> tpl \<Rightarrow> string + tpl" where
  "changeContent h content t =
     (case checkContent h content of
        Inl err \<Rightarrow> Inl err
      | Inr _ \<Rightarrow> Inr (t\<lparr>tf_content := assign (tf_content t) content\<rparr>))"

section \<open>Content\<close>

definition resolvePossibleFunction :: "tpl_host \<Rightarrow> jsval \<Rightarrow> jsval" where
  "resolvePossibleFunction th arg = execute arg (call_fn th) arg"

definition getContent :: "tpl_host \<Rightarrow> tpl \<Rightarrow> jsval list" where
  "getContent th t = filter js_truthy (map (\<lambda>x. resolvePossibleFunction th (snd x)) (tf_content t))"

definition hasContent :: "tpl_host \<Rightarrow> tpl \<Rightarrow> bool" where
  "hasContent th t = (0 < length (getContent th t))"

text \<open>A value without a \<open>length\<close> is returned by the sanitizer as it is.\<close>

definition maybeSanitize :: "tpl_host \<Rightarrow> tpl \<Rightarrow> jsval \<Rightarrow> string" where
  "maybeSanitize th t arg =
     (case arg of
        JStr u \<Rightarrow> if tf_sanitize t then sanitizeHtml (sanitizer th) u (tf_allowList t) (tf_sanitizeFn t) else u
      | JArr (x # xs) \<Rightarrow> if tf_sanitize t then sanitizeHtml (sanitizer th) (to_text th arg) (tf_allowList t) (tf_sanitizeFn t) else to_text th arg
      | _ \<Rightarrow> to_text th arg)"

definition set_kids :: "elem \<Rightarrow> etree list \<Rightarrow> work \<Rightarrow> work" where
  "set_kids x ks w = w\<lparr>w_tree := upd_kids x (\<lambda>_. ks) (w_tree w)\<rparr>"

definition set_innerHTML :: "tpl_host \<Rightarrow> elem \<Rightarrow> string \<Rightarrow> work \<Rightarrow> work" where
  "set_innerHTML th x html w =
     (let (ks, ns, n) = parse_fragment th html (w_fresh w)
      in (set_kids x ks w)\<lparr>w_page := foldl (\<lambda>p (e, nd). upd_node e (\<lambda>_. nd) p) (w_page w) ns, w_fresh := n\<rparr>)"

definition set_textContent :: "elem \<Rightarrow> string \<Rightarrow> work \<Rightarrow> work" where
  "set_textContent x txt w = (set_kids x [] w)\<lparr>w_page := upd_node x (\<lambda>n. n\<lparr>textContent := txt\<rparr>) (w_page w)\<rparr>"

text \<open>Appending an element of the document takes it out of its place there.\<close>

definition move_into :: "elem \<Rightarrow> elem \<Rightarrow> work \<Rightarrow> work" where
  "move_into x e w =
     (let t = (case subtree e (tree (w_page w)) of
                 Some u \<Rightarrow> u
               | None \<Rightarrow> (case subtree e (w_tree w) of Some u \<Rightarrow> u | None \<Rightarrow> Elem e []))
      in w\<lparr>w_page := remove_el e (w_page w), w_tree := tree_append x t (tree_remove e (w_tree w))\<rparr>)"

definition putElementInTemplate :: "tpl \<Rightarrow> elem \<Rightarrow> elem \<Rightarrow> work \<Rightarrow> work" where
  "putElementInTemplate t element templateElement w =
     (if tf_html t then move_into templateElement element (set_kids templateElement [] w)
      else set_textContent templateElement (textContent (nodes (w_page w) element)) w)"

definition content_text :: "tpl_host \<Rightarrow> jsval \<Rightarrow> string" where
  "content_text th v = (case v of JStr u \<Rightarrow> u | _ \<Rightarrow> to_text th v)"

definition setContent_at :: "tpl_host \<Rightarrow> tpl \<Rightarrow> jsval \<Rightarrow> elem \<Rightarrow> work \<Rightarrow> work" where
  "setContent_at th t content templateElement w =
     (let c = resolvePossibleFunction th content
      in if \<not> js_truthy c then w\<lparr>w_tree := tree_remove templateElement (w_tree w)\<rparr>
         else (case c of
                 JElem x \<Rightarrow> putElementInTemplate t x templateElement w
               | _ \<Rightarrow> if tf_html t then set_innerHTML th templateElement (maybeSanitize th t c) w
                      else set_textContent templateElement (content_text th c) w))"

definition setContent :: "tpl_host \<Rightarrow> host \<Rightarrow> tpl \<Rightarrow> jsval \<Rightarrow> string \<Rightarrow> work \<Rightarrow> work \<times> tpl_error option" where
  "setContent th h t content selector w =
     (case parse_sel h selector of
        None \<Rightarrow> (w, Some BadTemplateSelector)
      | Some sel \<Rightarrow>
          (case SE_findOne (detached w) (eid (w_tree w)) sel of
             None \<Rightarrow> (w, None)
           | Some templateElement \<Rightarrow> (setContent_at th t content templateElement w, None)))"

fun setContents :: "tpl_host \<Rightarrow> host \<Rightarrow> tpl \<Rightarrow> config \<Rightarrow> work \<Rightarrow> work \<times> tpl_error option" where
  "setContents th h t [] w = (w, None)"
| "setContents th h t ((selector, content) # rest) w = and_then (setContent th h t content selector w) (setContents th h t rest)"

text \<open>\<open>classList.add(...extraClass.split(' '))\<close>: an empty name throws, before any name is added.\<close>

definition add_extra :: "tpl_host \<Rightarrow> jsval \<Rightarrow> elem \<Rightarrow> page \<Rightarrow> page \<times> tpl_error option" where
  "add_extra th extraClass e p =
     (let names = split_on (CHR '' '') (content_text th extraClass)
      in if [] \<in> set names then (p, Some EmptyClassName) else (foldl (\<lambda>q c. add_class e c q) p names, None))"

definition empty_div :: node where
  "empty_div = \<lparr>tagName = ''DIV'', classList = [], attributes = [], style = (\<lambda>_. []), textContent = []\<rparr>"

text \<open>The wrapper, the page and counter it leaves, and the element made, \<open>None\<close> when the template has none.\<close>

definition toHtml :: "tpl_host \<Rightarrow> host \<Rightarrow> tpl \<Rightarrow> page \<Rightarrow> nat \<Rightarrow> work \<times> (tpl_error + etree option)" where
  "toHtml th h t p fresh =
     (let w0 = \<lparr>w_page = upd_node fresh (\<lambda>_. empty_div) p, w_tree = Elem fresh [], w_fresh = Suc fresh\<rparr>;
          w1 = set_innerHTML th fresh (maybeSanitize th t (JStr (tf_template t))) w0
      in (case setContents th h t (tf_content t) w1 of
            (w2, Some err) \<Rightarrow> (w2, Inl err)
          | (w2, None) \<Rightarrow>
              (let extraClass = resolvePossibleFunction th (tf_extraClass t)
               in (case kids (w_tree w2) of
                     [] \<Rightarrow> if js_truthy extraClass then (w2, Inl NoTemplateElement) else (w2, Inr None)
                   | k # _ \<Rightarrow>
                       if js_truthy extraClass then
                         (case add_extra th extraClass (eid k) (w_page w2) of
                            (p2, Some err) \<Rightarrow> (w2\<lparr>w_page := p2\<rparr>, Inl err)
                          | (p2, None) \<Rightarrow> (w2\<lparr>w_page := p2\<rparr>, Inr (Some k)))
                       else (w2, Inr (Some k))))))"

section \<open>Properties\<close>

text \<open>Nothing but an assignment to \<open>innerHTML\<close> reads the parser.\<close>

lemma parser_unused [simp]:
  "resolvePossibleFunction (th\<lparr>parse_fragment := q\<rparr>) = resolvePossibleFunction th" "maybeSanitize (th\<lparr>parse_fragment := q\<rparr>) = maybeSanitize th"
  "content_text (th\<lparr>parse_fragment := q\<rparr>) = content_text th" "add_extra (th\<lparr>parse_fragment := q\<rparr>) = add_extra th"
  by (simp_all add: fun_eq_iff resolvePossibleFunction_def maybeSanitize_def content_text_def add_extra_def split: jsval.split list.split)

lemma contents_unparsed:
  assumes "\<not> tf_html t"
  shows "setContents (th\<lparr>parse_fragment := q\<rparr>) h t cs w = setContents th h t cs w"
proof -
  have "setContent_at (th\<lparr>parse_fragment := q\<rparr>) t c x w = setContent_at th t c x w" for c x w
    using assms by (simp add: setContent_at_def Let_def split: jsval.split)
  then have "setContent (th\<lparr>parse_fragment := q\<rparr>) h t c sel = setContent th h t c sel" for c sel by (simp add: setContent_def fun_eq_iff split: option.split)
  then show ?thesis
  proof (induction cs arbitrary: w)
    case (Cons x cs)
    then have "setContents (th\<lparr>parse_fragment := q\<rparr>) h t cs = setContents th h t cs" by blast
    with Cons.prems show ?case by (cases x) simp
  qed simp
qed

text \<open>
  C38: Content is never parsed unless the caller asks for markup.  Without the option \<open>html\<close> the element
  made depends on the HTML parser only through the template: two parsers that agree on the (sanitized)
  template give the same result, whatever they do with the title, the body or any other text.
\<close>

theorem content_never_parsed:
  assumes "\<not> tf_html t"
    and same: "q (maybeSanitize th t (JStr (tf_template t))) (Suc fresh) = parse_fragment th (maybeSanitize th t (JStr (tf_template t))) (Suc fresh)"
  shows "toHtml (th\<lparr>parse_fragment := q\<rparr>) h t p fresh = toHtml th h t p fresh"
proof -
  have "set_innerHTML (th\<lparr>parse_fragment := q\<rparr>) x (maybeSanitize th t (JStr (tf_template t))) w = set_innerHTML th x (maybeSanitize th t (JStr (tf_template t))) w"
    if "w_fresh w = Suc fresh" for x w using same that by (simp add: set_innerHTML_def)
  then show ?thesis unfolding toHtml_def parser_unused contents_unparsed [OF assms(1)] by simp
qed

subsection \<open>Witness\<close>

definition tpl_demo :: tpl where
  "tpl_demo = \<lparr>tf_allowList = [], tf_content = [(''.body'', JStr ''<script>'')], tf_extraClass = JStr [], tf_html = False, tf_sanitize = False, tf_sanitizeFn = JNull,
     tf_template = ''<p>''\<rparr>"

definition tpl_demo_page :: page where
  "tpl_demo_page = \<lparr>tree = Elem 0 [], nodes = (\<lambda>_. empty_div), focused = None, ev_log = []\<rparr>"

definition tpl_demo_th :: tpl_host where
  "tpl_demo_th = \<lparr>parse_fragment = (\<lambda>_ n. ([Elem n []], [(n, empty_div)], Suc n)), to_text = (\<lambda>_. []), call_fn = (\<lambda>_. JUndef),
     sanitizer = \<lparr>parseFromString = (\<lambda>_. tpl_demo_page), html_body = (\<lambda>_. 0), innerHTML = (\<lambda>_ _. []), call_sanitizer = (\<lambda>_ t. t)\<rparr>\<rparr>"

theorem content_never_parsed_witness:
  "\<forall>h. toHtml (tpl_demo_th\<lparr>parse_fragment := \<lambda>u n. if u = ''<script>'' then ([], [], n) else ([Elem n []], [(n, empty_div)], Suc n)\<rparr>) h tpl_demo tpl_demo_page 5
     = toHtml tpl_demo_th h tpl_demo tpl_demo_page 5"
  by (rule allI, rule content_never_parsed) (simp_all add: tpl_demo_def tpl_demo_th_def maybeSanitize_def)

end
