(* ===== verification/Bs_Toast.thy ===== *)
theory Bs_Toast
  imports Bs_Base
begin

text \<open>
  Bootstrap's \<open>toast.js\<close> in \<open>bootstrap.bundle.js\<close>: messages that hide themselves after a delay
  unless the user points at them or has the focus in them.  The browser's timers are part of the
  state, with the toast their callback belongs to; when a timer fires is an event.
\<close>

section \<open>State\<close>

record toast =
  ts_timeout :: "nat option"
  ts_hasMouse :: bool
  ts_hasKeyboard :: bool
  ts_animation :: bool
  ts_autohide :: bool

datatype toast_callback = ToastShown elem | ToastHidden elem

record toasts =
  tp :: page
  tinsts :: "elem \<Rightarrow> toast option"
  t_pending :: "toast_callback pending"
  t_timers :: "(nat \<times> elem) list"
  t_next :: nat

definition set_toast :: "elem \<Rightarrow> toast \<Rightarrow> toasts \<Rightarrow> toasts" where
  "set_toast e c s = s\<lparr>tinsts := (tinsts s)(e \<mapsto> c)\<rparr>"

definition toast_default :: config where
  "toast_default = [(''animation'', JBool True), (''autohide'', JBool True), (''delay'', JNum 5000)]"

definition toast_defaultType :: "(string \<times> string) list" where
  "toast_defaultType = [(''animation'', ''boolean''), (''autohide'', ''boolean''), (''delay'', ''number'')]"

section \<open>Timers\<close>

text \<open>\<open>clearTimeout(this._timeout)\<close> stops that timer only.\<close>

definition toast_clearTimeout :: "elem \<Rightarrow> toasts \<Rightarrow> toasts" where
  "toast_clearTimeout e s =
     (case tinsts s e of
        None \<Rightarrow> s
      | Some c \<Rightarrow>
          (set_toast e (c\<lparr>ts_timeout := None\<rparr>) s)\<lparr>t_timers := filter (\<lambda>x. Some (fst x) \<noteq> ts_timeout c) (t_timers s)\<rparr>)"

definition maybeScheduleHide :: "elem \<Rightarrow> toasts \<Rightarrow> toasts" where
  "maybeScheduleHide e s =
     (case tinsts s e of
        None \<Rightarrow> s
      | Some c \<Rightarrow>
          if \<not> ts_autohide c then s
          else if ts_hasMouse c \<or> ts_hasKeyboard c then s
          else (set_toast e (c\<lparr>ts_timeout := Some (t_next s)\<rparr>) s)\<lparr>t_timers := t_timers s @ [(t_next s, e)], t_next := Suc (t_next s)\<rparr>)"

section \<open>Showing and hiding\<close>

definition toast_isShown :: "page \<Rightarrow> elem \<Rightarrow> bool" where
  "toast_isShown p e = has_class p e ''show''"

definition toast_queue :: "toast_callback \<Rightarrow> elem \<Rightarrow> bool \<Rightarrow> (toasts \<Rightarrow> toasts) \<Rightarrow> toasts \<Rightarrow> toasts" where
  "toast_queue cb x isAnimated run s = (if isAnimated then s\<lparr>t_pending := t_pending s @ [(x, cb)]\<rparr> else run s)"

definition toast_shown :: "host \<Rightarrow> elem \<Rightarrow> toasts \<Rightarrow> toasts" where
  "toast_shown h e s =
     (if tinsts s e = None then s
      else maybeScheduleHide e (s\<lparr>tp := triggering h e ''shown.bs.toast'' (remove_class e ''showing'' (tp s))\<rparr>))"

definition toast_show :: "host \<Rightarrow> elem \<Rightarrow> toasts \<Rightarrow> toasts" where
  "toast_show h e s =
     (case tinsts s e of
        None \<Rightarrow> s
      | Some c \<Rightarrow>
          (let s1 = s\<lparr>tp := triggering h e ''show.bs.toast'' (tp s)\<rparr>
           in if prevented_by h e ''show.bs.toast'' (tp s) then s1
              else (let s2 = toast_clearTimeout e s1;
                        p1 = (if ts_animation c then add_class e ''fade'' (tp s2) else tp s2);
                        p2 = add_class e ''showing'' (add_class e ''show'' (remove_class e ''hide'' p1))
                    in toast_queue (ToastShown e) e (ts_animation c) (toast_shown h e) (s2\<lparr>tp := p2\<rparr>))))"

definition toast_hidden :: "host \<Rightarrow> elem \<Rightarrow> toasts \<Rightarrow> toasts" where
  "toast_hidden h e s =
     (if tinsts s e = None then s
      else s\<lparr>tp := triggering h e ''hidden.bs.toast'' (remove_class e ''show'' (remove_class e ''showing'' (add_class e ''hide'' (tp s))))\<rparr>)"

definition toast_hide :: "host \<Rightarrow> elem \<Rightarrow> toasts \<Rightarrow> toasts" where
  "toast_hide h e s =
     (case tinsts s e of
        None \<Rightarrow> s
      | Some c \<Rightarrow>
          if \<not> toast_isShown (tp s) e then s
          else (let s1 = s\<lparr>tp := triggering h e ''hide.bs.toast'' (tp s)\<rparr>
                in if prevented_by h e ''hide.bs.toast'' (tp s) then s1
                   else toast_queue (ToastHidden e) e (ts_animation c) (toast_hidden h e) (s1\<lparr>tp := add_class e ''showing'' (tp s1)\<rparr>)))"

definition toast_dispose :: "elem \<Rightarrow> toasts \<Rightarrow> toasts" where
  "toast_dispose e s =
     (if tinsts s e = None then s
      else (let s1 = toast_clearTimeout e s
            in s1\<lparr>tp := (if toast_isShown (tp s1) e then remove_class e ''show'' (tp s1) else tp s1), tinsts := (tinsts s1)(e := None)\<rparr>))"

definition toast_new :: "(string \<Rightarrow> jsval option) \<Rightarrow> host \<Rightarrow> elem \<Rightarrow> jsval \<Rightarrow> toasts \<Rightarrow> string + toasts" where
  "toast_new json h e config s =
     (case getConfig h json (tp s) ''toast'' toast_default toast_defaultType id config (Some e) of
        Inl err \<Rightarrow> Inl err
      | Inr c \<Rightarrow> Inr (set_toast e \<lparr>ts_timeout = None, ts_hasMouse = False, ts_hasKeyboard = False,
                   ts_animation = js_truthy (js_get c ''animation''), ts_autohide = js_truthy (js_get c ''autohide'')\<rparr> s))"

section \<open>Interaction\<close>

text \<open>\<open>related\<close> is \<open>event.relatedTarget\<close>, \<open>None\<close> for \<open>null\<close>.\<close>

definition onInteraction :: "string \<Rightarrow> bool \<Rightarrow> elem option \<Rightarrow> elem \<Rightarrow> toasts \<Rightarrow> toasts" where
  "onInteraction evtype isInteracting related e s =
     (case tinsts s e of
        None \<Rightarrow> s
      | Some c \<Rightarrow>
          (let c1 = (if evtype \<in> {''mouseover'', ''mouseout''} then c\<lparr>ts_hasMouse := isInteracting\<rparr>
                     else if evtype \<in> {''focusin'', ''focusout''} then c\<lparr>ts_hasKeyboard := isInteracting\<rparr> else c);
               s1 = set_toast e c1 s
           in if isInteracting then toast_clearTimeout e s1
              else (case related of
                      None \<Rightarrow> maybeScheduleHide e s1
                    | Some x \<Rightarrow> if x = e \<or> contains (tp s1) e x then s1 else maybeScheduleHide e s1)))"

section \<open>Events\<close>

datatype toast_event =
    TShow elem
  | THide elem
  | TTransitionEnd elem
  | TOver elem
  | TOut elem "elem option"
  | TFocusin elem
  | TFocusout elem "elem option"
  | TTimer nat

fun toast_call :: "host \<Rightarrow> toasts \<Rightarrow> toast_callback \<Rightarrow> toasts" where
  "toast_call h s (ToastShown e) = toast_shown h e s"
| "toast_call h s (ToastHidden e) = toast_hidden h e s"

text \<open>A timer fires once.\<close>

definition fire_timer :: "host \<Rightarrow> nat \<Rightarrow> toasts \<Rightarrow> toasts" where
  "fire_timer h i s =
     (case map_of (t_timers s) i of
        None \<Rightarrow> s
      | Some e \<Rightarrow> toast_hide h e (s\<lparr>t_timers := filter (\<lambda>x. fst x \<noteq> i) (t_timers s)\<rparr>))"

definition toast_transition_end :: "host \<Rightarrow> elem \<Rightarrow> toasts \<Rightarrow> toasts" where
  "toast_transition_end h x s = foldl (toast_call h) (s\<lparr>t_pending := not_due x (t_pending s)\<rparr>) (due x (t_pending s))"

fun toast_step :: "host \<Rightarrow> toasts \<Rightarrow> toast_event \<Rightarrow> toasts" where
  "toast_step h s (TShow e) = toast_show h e s"
| "toast_step h s (THide e) = toast_hide h e s"
| "toast_step h s (TTransitionEnd e) = toast_transition_end h e s"
| "toast_step h s (TOver e) = onInteraction ''mouseover'' True None e s"
| "toast_step h s (TOut e related) = onInteraction ''mouseout'' False related e s"
| "toast_step h s (TFocusin e) = onInteraction ''focusin'' True None e s"
| "toast_step h s (TFocusout e related) = onInteraction ''focusout'' False related e s"
| "toast_step h s (TTimer i) = fire_timer h i s"


section \<open>A toast in use is not hidden by its timer\<close>

definition interacting :: "toast \<Rightarrow> bool" where
  "interacting c \<longleftrightarrow> ts_hasMouse c \<or> ts_hasKeyboard c"

definition timers_of :: "toasts \<Rightarrow> elem \<Rightarrow> (nat \<times> elem) list" where
  "timers_of s e = filter (\<lambda>x. snd x = e) (t_timers s)"

text \<open>The completions of \<open>show\<close> that a toast still waits for; \<open>rest\<close> are callbacks about to run.\<close>

definition openings :: "toast_callback list \<Rightarrow> toasts \<Rightarrow> elem \<Rightarrow> nat" where
  "openings rest s e = count_list (rest @ map snd (t_pending s)) (ToastShown e)"

text \<open>At most one timer, the one the toast knows, and none while it is in use or opening.\<close>

definition toast_fits :: "elem \<Rightarrow> toast \<Rightarrow> (nat \<times> elem) list \<Rightarrow> nat \<Rightarrow> bool" where
  "toast_fits e c ts n \<longleftrightarrow> n \<le> 1 \<and> (ts = [] \<or> (\<exists>i. ts = [(i, e)] \<and> ts_timeout c = Some i \<and> \<not> interacting c \<and> n = 0))"

definition toast_inv :: "toast_callback list \<Rightarrow> toasts \<Rightarrow> bool" where
  "toast_inv rest s \<longleftrightarrow> (\<forall>e c. tinsts s e = Some c \<longrightarrow> toast_fits e c (timers_of s e) (openings rest s e))
     \<and> (\<forall>x cb. (x, cb) \<in> set (t_pending s) \<longrightarrow> cb = ToastShown x \<or> cb = ToastHidden x)"

text \<open>
  Orderly use: a toast is not shown again, and the pointer or the focus does not leave it, while
  it is opening; and what leaves a toast has entered it before.
\<close>

fun orderly :: "toasts \<Rightarrow> toast_event \<Rightarrow> bool" where
  "orderly s (TShow e) = (openings [] s e = 0)"
| "orderly s (TOut e related) = (openings [] s e = 0 \<and> (case tinsts s e of None \<Rightarrow> True | Some c \<Rightarrow> ts_hasMouse c))"
| "orderly s (TFocusout e related) = (openings [] s e = 0 \<and> (case tinsts s e of None \<Rightarrow> True | Some c \<Rightarrow> ts_hasKeyboard c))"
| "orderly s _ = True"

abbreviation orderly_run :: "host \<Rightarrow> toasts \<Rightarrow> toast_event list \<Rightarrow> bool" where
  "orderly_run h \<equiv> allowed_run orderly (toast_step h)"

lemma toast_invD: "toast_inv rest s \<Longrightarrow> tinsts s e = Some c \<Longrightarrow> toast_fits e c (timers_of s e) (openings rest s e)"
  by (simp add: toast_inv_def)

text \<open>Only one toast is touched; the timers of others may at most be stopped.\<close>

lemma toast_inv_one:
  assumes "toast_inv rest s"
    and "\<And>x d. x \<noteq> e \<Longrightarrow> tinsts s' x = Some d \<Longrightarrow> tinsts s x = Some d \<and> openings rest' s' x = openings rest s x
      \<and> (timers_of s' x = timers_of s x \<or> timers_of s' x = [])"
    and "\<And>c. tinsts s' e = Some c \<Longrightarrow> toast_fits e c (timers_of s' e) (openings rest' s' e)"
    and "\<And>x cb. (x, cb) \<in> set (t_pending s') \<Longrightarrow> cb = ToastShown x \<or> cb = ToastHidden x"
  shows "toast_inv rest' s'"
proof -
  have "toast_fits x c (timers_of s' x) (openings rest' s' x)" if "tinsts s' x = Some c" "x \<noteq> e" for x c
    using assms(2) [OF that(2,1)] toast_invD [OF assms(1), of x c] by (auto simp: toast_fits_def)
  with assms(3,4) show ?thesis unfolding toast_inv_def by blast
qed

lemma page_inv [simp]: "toast_inv rest (s\<lparr>tp := q\<rparr>) = toast_inv rest s"
  "toast_inv rest (s\<lparr>tp := q, t_pending := ps\<rparr>) = toast_inv rest (s\<lparr>t_pending := ps\<rparr>)"
  by (simp_all add: toast_inv_def timers_of_def openings_def)

lemma filter_timers:
  "timers_of (s\<lparr>t_timers := filter P (t_timers s)\<rparr>) e = filter P (timers_of s e)"
  by (simp add: timers_of_def conj_commute)

lemma clear_inv:
  assumes "toast_inv rest s" "tinsts s e = Some c"
  shows "toast_inv rest (toast_clearTimeout e s)" "timers_of (toast_clearTimeout e s) e = []"
    "tinsts (toast_clearTimeout e s) e = Some (c\<lparr>ts_timeout := None\<rparr>)" "t_pending (toast_clearTimeout e s) = t_pending s"
proof -
  let ?P = "\<lambda>x. Some (fst x) \<noteq> ts_timeout c"
  have t: "timers_of (toast_clearTimeout e s) x = filter ?P (timers_of s x)" for x
    using assms(2) by (simp add: toast_clearTimeout_def set_toast_def timers_of_def conj_commute)
  show none: "timers_of (toast_clearTimeout e s) e = []" using toast_invD [OF assms] unfolding t by (auto simp: toast_fits_def)
  show c: "tinsts (toast_clearTimeout e s) e = Some (c\<lparr>ts_timeout := None\<rparr>)" and p: "t_pending (toast_clearTimeout e s) = t_pending s"
    using assms(2) by (simp_all add: toast_clearTimeout_def set_toast_def)
  show "toast_inv rest (toast_clearTimeout e s)"
  proof (rule toast_inv_one [OF assms(1), of e])
    fix x d assume x: "x \<noteq> e" "tinsts (toast_clearTimeout e s) x = Some d"
    then have "tinsts s x = Some d" using assms(2) by (simp add: toast_clearTimeout_def set_toast_def)
    with toast_invD [OF assms(1) this] show "tinsts s x = Some d \<and> openings rest (toast_clearTimeout e s) x = openings rest s x
        \<and> (timers_of (toast_clearTimeout e s) x = timers_of s x \<or> timers_of (toast_clearTimeout e s) x = [])"
      unfolding t by (auto simp: toast_fits_def openings_def p)
  next
    fix d assume "tinsts (toast_clearTimeout e s) e = Some d"
    with none toast_invD [OF assms] show "toast_fits e d (timers_of (toast_clearTimeout e s) e) (openings rest (toast_clearTimeout e s) e)"
      by (simp add: toast_fits_def openings_def p)
  qed (use assms(1) in \<open>auto simp: p toast_inv_def\<close>)
qed

lemma schedule_inv:
  assumes "toast_inv rest s" "tinsts s e = Some c" "timers_of s e = []" "openings rest s e = 0"
  shows "toast_inv rest (maybeScheduleHide e s)"
proof (cases "ts_autohide c \<and> \<not> interacting c")
  case True
  then have m: "maybeScheduleHide e s = (set_toast e (c\<lparr>ts_timeout := Some (t_next s)\<rparr>) s)\<lparr>t_timers := t_timers s @ [(t_next s, e)],
      t_next := Suc (t_next s)\<rparr>" using assms(2) by (simp add: maybeScheduleHide_def interacting_def)
  show ?thesis unfolding m
    by (rule toast_inv_one [OF assms(1), of e])
      (use True assms in \<open>auto simp: set_toast_def timers_of_def openings_def toast_fits_def interacting_def toast_inv_def split: if_splits\<close>)
next
  case False
  then show ?thesis using assms(1,2) by (auto simp: maybeScheduleHide_def interacting_def)
qed

lemma queue_inv:
  assumes "toast_inv rest s" "cb = ToastHidden e \<or> cb = ToastShown e \<and> openings rest s e = 0 \<and> timers_of s e = []"
  shows "toast_inv rest (s\<lparr>t_pending := t_pending s @ [(e, cb)]\<rparr>)"
  by (rule toast_inv_one [OF assms(1), of e])
    (use assms toast_invD [OF assms(1)] in \<open>auto simp: timers_of_def openings_def toast_fits_def toast_inv_def\<close>)

lemma schedule_frame: "t_pending (maybeScheduleHide e s) = t_pending s"
  by (simp add: maybeScheduleHide_def set_toast_def split: option.splits)

lemma shown_inv:
  assumes "toast_inv (ToastShown e # rest) s"
  shows "toast_inv rest (toast_shown h e s)"
proof (cases "tinsts s e")
  case None
  show ?thesis unfolding toast_shown_def using None
    by (simp, intro toast_inv_one [OF assms, of e]) (use assms None in \<open>auto simp: openings_def toast_inv_def\<close>)
next
  case (Some c)
  let ?s = "s\<lparr>tp := triggering h e ''shown.bs.toast'' (remove_class e ''showing'' (tp s))\<rparr>"
  from toast_invD [OF assms Some] have t: "timers_of s e = []" "openings rest s e = 0"
    by (auto simp: toast_fits_def openings_def)
  have "toast_inv rest s"
    by (rule toast_inv_one [OF assms, of e]) (use assms t in \<open>auto simp: openings_def toast_fits_def toast_inv_def\<close>)
  then have "toast_inv rest (maybeScheduleHide e ?s)"
    by (intro schedule_inv [where c = c]) (use Some t in \<open>simp_all add: timers_of_def openings_def\<close>)
  then show ?thesis using Some by (simp add: toast_shown_def)
qed

lemma hidden_inv:
  assumes "toast_inv (ToastHidden e # rest) s"
  shows "toast_inv rest (toast_hidden h e s)"
proof -
  have "toast_inv rest s" using assms by (simp add: toast_inv_def openings_def)
  then show ?thesis by (simp add: toast_hidden_def)
qed


lemma toast_show_inv:
  assumes inv: "toast_inv [] s" and calm: "openings [] s e = 0"
  shows "toast_inv [] (toast_show h e s)"
proof (cases "tinsts s e")
  case (Some c)
  let ?s1 = "s\<lparr>tp := triggering h e ''show.bs.toast'' (tp s)\<rparr>"
  let ?s2 = "toast_clearTimeout e ?s1"
  have i1: "toast_inv [] ?s1" "tinsts ?s1 e = Some c" using inv Some by simp_all
  note c = clear_inv [OF i1]
  have o: "openings [] ?s2 e = 0" using calm c(4) by (simp add: openings_def)
  define q where "q = add_class e ''showing'' (add_class e ''show'' (remove_class e ''hide'' (if ts_animation c then add_class e ''fade'' (tp ?s2) else tp ?s2)))"
  have "toast_inv [] (toast_queue (ToastShown e) e (ts_animation c) (toast_shown h e) (?s2\<lparr>tp := q\<rparr>))"
  proof (cases "ts_animation c")
    case True
    have "toast_inv [] ((?s2\<lparr>tp := q\<rparr>)\<lparr>t_pending := t_pending (?s2\<lparr>tp := q\<rparr>) @ [(e, ToastShown e)]\<rparr>)"
      by (rule queue_inv) (use c o in \<open>simp_all add: openings_def timers_of_def\<close>)
    then show ?thesis using True by (simp add: toast_queue_def)
  next
    case False
    have "toast_inv [ToastShown e] (?s2\<lparr>tp := q\<rparr>)"
      by (rule toast_inv_one [OF c(1), of e])
        (use c o in \<open>auto simp: openings_def timers_of_def toast_fits_def toast_inv_def\<close>)
    from shown_inv [OF this] False show ?thesis by (simp add: toast_queue_def)
  qed
  with inv Some show ?thesis by (simp add: toast_show_def Let_def q_def)
qed (use inv in \<open>simp add: toast_show_def\<close>)

lemma toast_hide_inv: "toast_inv [] s \<Longrightarrow> toast_inv [] (toast_hide h e s)"
  using queue_inv [of "[]" _ "ToastHidden e" e]
  by (simp add: toast_hide_def toast_queue_def toast_hidden_def Let_def split: option.splits)

lemma fire_timer_inv:
  assumes "toast_inv [] s"
  shows "toast_inv [] (fire_timer h i s)"
proof -
  have "toast_inv [] (s\<lparr>t_timers := filter P (t_timers s)\<rparr>)" for P
  proof -
    have "toast_fits x c (filter P (timers_of s x)) n" if "toast_fits x c (timers_of s x) n" for x c n
      using that by (auto simp: toast_fits_def)
    with assms show ?thesis by (simp add: toast_inv_def filter_timers) (simp add: openings_def)
  qed
  then show ?thesis using assms by (simp add: fire_timer_def toast_hide_inv split: option.splits)
qed

lemma interaction_inv:
  assumes inv: "toast_inv [] s" and evs: "evtype \<in> {''mouseover'', ''mouseout'', ''focusin'', ''focusout''}"
    and calm: "\<not> isIn \<Longrightarrow> openings [] s e = 0 \<and> (\<forall>c. tinsts s e = Some c \<longrightarrow> interacting c)"
  shows "toast_inv [] (onInteraction evtype isIn related e s)"
proof (cases "tinsts s e")
  case (Some c)
  define c1 where "c1 = (if evtype \<in> {''mouseover'', ''mouseout''} then c\<lparr>ts_hasMouse := isIn\<rparr> else c\<lparr>ts_hasKeyboard := isIn\<rparr>)"
  have "(if evtype \<in> {''mouseover'', ''mouseout''} then c\<lparr>ts_hasMouse := isIn\<rparr>
      else if evtype \<in> {''focusin'', ''focusout''} then c\<lparr>ts_hasKeyboard := isIn\<rparr> else c) = c1" using evs by (auto simp: c1_def)
  moreover have "tp (set_toast e c1 s) = tp s" by (simp add: set_toast_def)
  ultimately have eq: "onInteraction evtype isIn related e s = (if isIn then toast_clearTimeout e (set_toast e c1 s)
      else (case related of None \<Rightarrow> maybeScheduleHide e (set_toast e c1 s)
        | Some x \<Rightarrow> if x = e \<or> contains (tp s) e x then set_toast e c1 s else maybeScheduleHide e (set_toast e c1 s)))"
    by (simp only: onInteraction_def Some option.case Let_def)
  have f: "tinsts (set_toast e c1 s) e = Some c1" "timers_of (set_toast e c1 s) = timers_of s" "openings r (set_toast e c1 s) = openings r s" for r
    by (auto simp: set_toast_def timers_of_def openings_def fun_eq_iff)
  show ?thesis
  proof (cases isIn)
    case True
    have "tinsts (toast_clearTimeout e (set_toast e c1 s)) = tinsts (set_toast e (c1\<lparr>ts_timeout := None\<rparr>) (toast_clearTimeout e s))"
      "t_timers (toast_clearTimeout e (set_toast e c1 s)) = t_timers (toast_clearTimeout e s)"
      "t_pending (toast_clearTimeout e (set_toast e c1 s)) = t_pending (toast_clearTimeout e s)"
      using Some by (auto simp: toast_clearTimeout_def set_toast_def c1_def)
    note k = this clear_inv [OF inv Some]
    have "toast_inv [] (toast_clearTimeout e (set_toast e c1 s))"
      by (rule toast_inv_one [OF k(4), of e])
        (use k inv toast_invD [OF k(4) k(6)] in \<open>auto simp: set_toast_def timers_of_def openings_def toast_fits_def toast_inv_def\<close>)
    then show ?thesis using True eq by simp
  next
    case False
    with calm Some have t: "openings [] s e = 0" "interacting c" by auto
    with toast_invD [OF inv Some] have none: "timers_of s e = []" by (auto simp: toast_fits_def)
    have "toast_inv [] (set_toast e c1 s)"
      by (rule toast_inv_one [OF inv, of e])
        (use t none inv in \<open>auto simp: f set_toast_def toast_fits_def toast_inv_def openings_def timers_of_def\<close>)
    with schedule_inv [OF this f(1)] t none f(2,3) show ?thesis using False eq by (simp split: option.splits)
  qed
qed (use inv in \<open>simp add: onInteraction_def\<close>)

lemma toast_calls_inv: "toast_inv cbs s \<Longrightarrow> toast_inv [] (foldl (toast_call h) s cbs)"
proof (induction cbs arbitrary: s)
  case (Cons cb cbs)
  then have "toast_inv cbs (toast_call h s cb)" by (cases cb) (simp_all add: shown_inv hidden_inv)
  with Cons.IH show ?case by simp
qed simp

lemma toast_transition_inv:
  assumes "toast_inv [] s"
  shows "toast_inv [] (toast_transition_end h x s)"
proof -
  have "openings (due x (t_pending s)) (s\<lparr>t_pending := not_due x (t_pending s)\<rparr>) e = openings [] s e" for e
    using due_count [of x "t_pending s" "ToastShown e"] by (simp add: openings_def)
  with assms have "toast_inv (due x (t_pending s)) (s\<lparr>t_pending := not_due x (t_pending s)\<rparr>)"
    by (simp add: toast_inv_def timers_of_def not_due_def)
  then show ?thesis by (simp add: toast_transition_end_def toast_calls_inv)
qed

lemma toast_step_inv: "toast_inv [] s \<Longrightarrow> orderly s ev \<Longrightarrow> toast_inv [] (toast_step h s ev)"
  by (cases ev) (auto simp: toast_show_inv toast_hide_inv toast_transition_inv fire_timer_inv interacting_def
      intro!: interaction_inv split: option.splits)

interpretation toast: event_machine "toast_step h" orderly "toast_inv []" for h
  by unfold_locales (rule toast_step_inv)


section \<open>Properties\<close>

text \<open>C29: A toast in use is not hidden by its timer.  From toasts without timers and transitions, after any orderly
  run of calls, transition ends, timers and pointer and focus events, a toast has at most one running timer,
  and none at all while the pointer or the focus is in it, so that no timer can hide it then.\<close>

theorem toast_not_hidden_while_used:
  assumes "t_timers s = []" "t_pending s = []" "orderly_run h s evs" "tinsts (foldl (toast_step h) s evs) e = Some c"
  shows "length (timers_of (foldl (toast_step h) s evs) e) \<le> 1
    \<and> (ts_hasMouse c \<or> ts_hasKeyboard c \<longrightarrow> timers_of (foldl (toast_step h) s evs) e = [])"
proof -
  have "toast_inv [] s" using assms(1,2) by (simp add: toast_inv_def toast_fits_def timers_of_def openings_def)
  from toast_invD [OF toast.run_keeps [OF this assms(3)] assms(4)] show ?thesis by (auto simp: toast_fits_def interacting_def)
qed

definition toast_host :: host where
  "toast_host = \<lparr>cancels = (\<lambda>_ _. False), parse_sel = (\<lambda>_. None), css_escape = id, rtl = False, hidden_doc = False, touch = False,
     client_rects = (\<lambda>_. 1), visibility = (\<lambda>_. ''visible''), disabled_prop = (\<lambda>_. None), interface_name = (\<lambda>_. ''''), jquery = None\<rparr>"

definition demo_toast :: toast where
  "demo_toast = \<lparr>ts_timeout = None, ts_hasMouse = False, ts_hasKeyboard = False, ts_animation = True, ts_autohide = True\<rparr>"

definition demo_toasts :: toasts where
  "demo_toasts = \<lparr>tp = \<lparr>tree = Elem 0 [Elem 1 [], Elem 2 []],
       nodes = (\<lambda>_. \<lparr>tagName = ''DIV'', classList = [''toast''], attributes = [], style = (\<lambda>_. ''''), textContent = ''''\<rparr>), focused = None, ev_log = []\<rparr>,
     tinsts = [1 \<mapsto> demo_toast], t_pending = [], t_timers = [], t_next = 7\<rparr>"

theorem toast_not_hidden_while_used_witness:
  "tinsts (foldl (toast_step toast_host) demo_toasts [TShow 1, TTransitionEnd 1, TOver 1]) 1 = Some (demo_toast\<lparr>ts_hasMouse := True\<rparr>)
   \<and> timers_of (foldl (toast_step toast_host) demo_toasts [TShow 1, TTransitionEnd 1, TOver 1]) 1 = []"
proof -
  let ?evs = "[TShow 1, TTransitionEnd 1, TOver 1]"
  have 1: "t_timers demo_toasts = []" "t_pending demo_toasts = []" by (simp_all add: demo_toasts_def)
  have 2: "orderly_run toast_host demo_toasts ?evs" by code_simp
  have "map_option (\<lambda>c. (ts_timeout c, ts_hasMouse c, ts_hasKeyboard c, ts_animation c, ts_autohide c)) (tinsts (foldl (toast_step toast_host) demo_toasts ?evs) 1)
    = Some (None, True, False, True, True)" by code_simp
  then have 3: "tinsts (foldl (toast_step toast_host) demo_toasts ?evs) 1 = Some (demo_toast\<lparr>ts_hasMouse := True\<rparr>)"
    by (auto simp: demo_toast_def)
  from toast_not_hidden_while_used [OF 1 2 3] 3 show ?thesis by simp
qed

text \<open>The calls of a run, one by one, for a toast whose events nobody cancels.\<close>

abbreviation never_prevented :: "host \<Rightarrow> elem \<Rightarrow> bool" where
  "never_prevented h e \<equiv> \<forall>ev p. \<not> prevented_by h e ev p"

lemma show_starts:
  assumes "tinsts s e = Some c" "never_prevented h e" "ts_animation c" "t_pending s = []" "t_timers s = []"
  shows "tinsts (toast_show h e s) e = Some (c\<lparr>ts_timeout := None\<rparr>)" "t_pending (toast_show h e s) = [(e, ToastShown e)]"
    "t_timers (toast_show h e s) = []" "t_next (toast_show h e s) = t_next s" "has_class (tp (toast_show h e s)) e ''show''"
  using assms by (simp_all add: toast_show_def toast_clearTimeout_def set_toast_def toast_queue_def Let_def dom_simps)

lemma shown_starts:
  assumes "tinsts s e = Some c" "t_pending s = [(e, ToastShown e)]" "ts_autohide c" "\<not> interacting c"
  shows "tinsts (toast_transition_end h e s) e = Some (c\<lparr>ts_timeout := Some (t_next s)\<rparr>)" "t_pending (toast_transition_end h e s) = []"
    "t_timers (toast_transition_end h e s) = t_timers s @ [(t_next s, e)]"
    "has_class (tp s) e ''show'' \<Longrightarrow> has_class (tp (toast_transition_end h e s)) e ''show''"
  using assms by (simp_all add: toast_transition_end_def due_def not_due_def toast_shown_def maybeScheduleHide_def set_toast_def interacting_def dom_simps)

lemma timer_hides:
  assumes "tinsts s e = Some c" "never_prevented h e" "ts_animation c" "t_pending s = []" "has_class (tp s) e ''show''" "map_of (t_timers s) i = Some e"
  shows "\<not> has_class (tp (toast_transition_end h e (fire_timer h i s))) e ''show''"
    "tinsts (toast_transition_end h e (fire_timer h i s)) e = Some c"
  using assms by (simp_all add: fire_timer_def toast_hide_def toast_isShown_def toast_queue_def toast_transition_end_def due_def not_due_def
      toast_hidden_def Let_def dom_simps)

text \<open>C30: A toast that nobody touches disappears by itself.  Shown with animation and autohide, nobody vetoing, it is visible with one
  running timer when the transition has ended; when that timer fires and the second transition ends it is hidden.\<close>

theorem toast_hides_itself:
  assumes "tinsts s e = Some c" "never_prevented h e" "ts_animation c" "ts_autohide c" "\<not> interacting c" "t_pending s = []" "t_timers s = []"
    and "t = foldl (toast_step h) s [TShow e, TTransitionEnd e]"
  shows "has_class (tp t) e ''show'' \<and> t_timers t = [(t_next s, e)]
    \<and> \<not> has_class (tp (foldl (toast_step h) t [TTimer (t_next s), TTransitionEnd e])) e ''show''"
proof -
  note a = show_starts [OF assms(1-3,6,7)]
  have i: "ts_autohide (c\<lparr>ts_timeout := None\<rparr>)" "\<not> interacting (c\<lparr>ts_timeout := None\<rparr>)" using assms(4,5) by (simp_all add: interacting_def)
  note b = shown_starts [OF a(1,2) i, of h]
  have t: "t = toast_transition_end h e (toast_show h e s)" using assms(8) by simp
  have "map_of (t_timers t) (t_next s) = Some e" "has_class (tp t) e ''show''" using a b unfolding t by simp_all
  with timer_hides(1) [of t e _ h] a b assms(2,3) show ?thesis unfolding t by simp
qed

theorem toast_hides_itself_witness:
  "\<not> has_class (tp (foldl (toast_step toast_host) demo_toasts [TShow 1, TTransitionEnd 1, TTimer 7, TTransitionEnd 1])) 1 ''show''"
proof -
  have 1: "tinsts demo_toasts 1 = Some demo_toast" "t_pending demo_toasts = []" "t_timers demo_toasts = []" "t_next demo_toasts = 7"
    by (simp_all add: demo_toasts_def)
  have 2: "ts_animation demo_toast" "ts_autohide demo_toast" "\<not> interacting demo_toast" by (simp_all add: demo_toast_def interacting_def)
  have 3: "never_prevented toast_host 1" by (simp add: trigger_def toast_host_def Let_def)
  from toast_hides_itself [OF 1(1) 3 2 1(2,3) refl] 1(4) show ?thesis by simp
qed

text \<open>C31: A pointer that enters and leaves a toast during its fade-in leaves a timer behind that nothing stops.  \<open>_maybeScheduleHide\<close>
  overwrites \<open>_timeout\<close> without clearing it: the leave event starts one timer, the end of the fade-in a second one, and the
  next \<open>mouseover\<close> stops only the second.  The first then hides the toast although the pointer is in it.\<close>

theorem toast_stray_timer:
  assumes "tinsts s e = Some c" "never_prevented h e" "ts_animation c" "ts_autohide c" "\<not> interacting c" "t_pending s = []" "t_timers s = []"
    and "t = foldl (toast_step h) s [TShow e, TOver e, TOut e None, TTransitionEnd e, TOver e]"
  shows "t_timers t = [(t_next s, e)]
    \<and> (\<exists>c'. tinsts (foldl (toast_step h) t [TTimer (t_next s), TTransitionEnd e]) e = Some c' \<and> ts_hasMouse c'
         \<and> \<not> has_class (tp (foldl (toast_step h) t [TTimer (t_next s), TTransitionEnd e])) e ''show'')"
proof -
  let ?a = "toast_show h e s"
  let ?b = "onInteraction ''mouseout'' False None e (onInteraction ''mouseover'' True None e ?a)"
  let ?c = "toast_transition_end h e ?b"
  let ?d = "c\<lparr>ts_hasMouse := False, ts_timeout := Some (t_next s)\<rparr>"
  note a = show_starts [OF assms(1-3,6,7)]
  have b: "tinsts ?b e = Some ?d" "t_timers ?b = [(t_next s, e)]" "t_next ?b = Suc (t_next s)" "t_pending ?b = [(e, ToastShown e)]" "tp ?b = tp ?a"
    using a assms(4,5) by (simp_all add: onInteraction_def toast_clearTimeout_def maybeScheduleHide_def set_toast_def interacting_def Let_def)
  have i: "ts_autohide ?d" "\<not> interacting ?d" using assms(4,5) by (simp_all add: interacting_def)
  note k = shown_starts [OF b(1,4) i, of h]
  have t: "t = onInteraction ''mouseover'' True None e ?c" using assms(8) by simp
  have d: "tinsts t e = Some (c\<lparr>ts_hasMouse := True, ts_timeout := None\<rparr>)" "t_timers t = [(t_next s, e)]" "t_pending t = []" "tp t = tp ?c"
    unfolding t using k b by (simp_all add: onInteraction_def toast_clearTimeout_def set_toast_def Let_def)
  have s: "has_class (tp t) e ''show''" unfolding d(4) by (rule k(4)) (simp only: b(5) a(5))
  note h = timer_hides [OF d(1) assms(2) _ d(3) s, of "t_next s"]
  show ?thesis using h d(2) assms(3) by simp
qed

theorem toast_stray_timer_witness:
  "\<exists>c. tinsts (foldl (toast_step toast_host) demo_toasts [TShow 1, TOver 1, TOut 1 None, TTransitionEnd 1, TOver 1, TTimer 7, TTransitionEnd 1]) 1 = Some c
    \<and> ts_hasMouse c"
proof -
  have 1: "tinsts demo_toasts 1 = Some demo_toast" "t_pending demo_toasts = []" "t_timers demo_toasts = []" "t_next demo_toasts = 7"
    by (simp_all add: demo_toasts_def)
  have 2: "ts_animation demo_toast" "ts_autohide demo_toast" "\<not> interacting demo_toast" by (simp_all add: demo_toast_def interacting_def)
  have 3: "never_prevented toast_host 1" by (simp add: trigger_def toast_host_def Let_def)
  from toast_stray_timer [OF 1(1) 3 2 1(2,3) refl] 1(4) show ?thesis by auto
qed

end
