(* ===== verification/Bs_Tooltip.thy ===== *)
theory Bs_Tooltip
  imports Bs_Template Bs_Dropdown
begin

text \<open>
  Bootstrap's \<open>tooltip.js\<close> and \<open>popover.js\<close> in \<open>bootstrap.bundle.js\<close>.  A tip is made when it is shown and
  removed when it is hidden; between the two lie the delays, whose timers are part of the state, and
  the transitions.  The state holds all tooltips and popovers of the page.  Operations return the
  state they leave and the error that ended them, if one did.
\<close>

section \<open>State\<close>

datatype tip_kind = TooltipKind | PopoverKind

fun kind_name :: "tip_kind \<Rightarrow> string" where
  "kind_name TooltipKind = ''tooltip''"
| "kind_name PopoverKind = ''popover''"

text \<open>The entries of \<open>_activeTrigger\<close> are fields; \<open>_isHovered\<close> is \<open>None\<close> for \<open>null\<close>.\<close>

record tooltip =
  tt_kind :: tip_kind
  tt_isEnabled :: bool
  tt_timeout :: "nat option"
  tt_isHovered :: "bool option"
  tt_click :: bool
  tt_focus :: bool
  tt_hover :: bool
  tt_popper :: "popper_instance option"
  tt_factory :: "tpl option"
  tt_newContent :: "config option"
  tt_tip :: "elem option"
  tt_cfg :: config
  tt_container :: elem
  tt_allowList :: allow_list

datatype tip_timer = EnterTimer | LeaveTimer

datatype tip_callback = TipShown elem | TipHidden elem

text \<open>
  \<open>x_timers\<close> are the running timers with the tooltip and function they belong to; \<open>x_modals\<close> the
  \<open>_hideModalHandler\<close>s, with their modal.
\<close>

record tips =
  xp :: page
  xinsts :: "elem \<Rightarrow> tooltip option"
  x_pending :: "tip_callback pending"
  x_timers :: "(nat \<times> elem \<times> tip_timer) list"
  x_next :: nat
  x_fresh :: nat
  x_noops :: "elem list"
  x_modals :: "(elem \<times> elem) list"

text \<open>
  What the browser and the caller's functions contribute: besides the layout for Popper and the
  parser of the template, the result of a function given as an option of a tooltip, the elements in
  shadow trees, and the random numbers drawn for an id.
\<close>

record tip_env =
  te_dd :: dd_host
  te_tpl :: tpl_host
  te_call :: "elem \<Rightarrow> nat \<Rightarrow> jsval"
  te_shadow :: "elem \<Rightarrow> bool"
  te_draws :: "nat \<Rightarrow> nat list"

text \<open>\<open>OutOfDraws\<close> is a run of \<open>getUID\<close> for which the given random numbers did not suffice, see \<open>getUID_terminates\<close>.\<close>

datatype tip_error = InvisibleElement | NoTip | NoAttachment | OutOfDraws | TemplateThrew tpl_error | OptionThrew string

type_synonym tip_result = "tips \<times> tip_error option"

definition set_tip :: "elem \<Rightarrow> tooltip \<Rightarrow> tips \<Rightarrow> tips" where
  "set_tip e c s = s\<lparr>xinsts := (xinsts s)(e \<mapsto> c)\<rparr>"

definition tip_eventName :: "tooltip \<Rightarrow> string \<Rightarrow> string" where
  "tip_eventName c n = n @ ''.bs.'' @ kind_name (tt_kind c)"

section \<open>Options\<close>

definition tip_template :: string where
  "tip_template = ''<div class='' @ [CHR 0x22] @ ''tooltip'' @ [CHR 0x22] @ '' role='' @ [CHR 0x22] @ ''tooltip'' @ [CHR 0x22] @ ''><div class='' @ [CHR 0x22]
     @ ''tooltip-arrow'' @ [CHR 0x22] @ ''></div><div class='' @ [CHR 0x22] @ ''tooltip-inner'' @ [CHR 0x22] @ ''></div></div>''"

definition pop_template :: string where
  "pop_template = ''<div class='' @ [CHR 0x22] @ ''popover'' @ [CHR 0x22] @ '' role='' @ [CHR 0x22] @ ''tooltip'' @ [CHR 0x22] @ ''><div class='' @ [CHR 0x22]
     @ ''popover-arrow'' @ [CHR 0x22] @ ''></div><h3 class='' @ [CHR 0x22] @ ''popover-header'' @ [CHR 0x22] @ ''></h3><div class='' @ [CHR 0x22]
     @ ''popover-body'' @ [CHR 0x22] @ ''></div></div>''"

definition tip_default :: config where
  "tip_default = [(''allowList'', JObj []), (''animation'', JBool True), (''boundary'', JStr ''clippingParents''), (''container'', JBool False),
     (''customClass'', JStr []), (''delay'', JNum 0), (''fallbackPlacements'', JArr [JStr ''top'', JStr ''right'', JStr ''bottom'', JStr ''left'']),
     (''html'', JBool False), (''offset'', JArr [JNum 0, JNum 6]), (''placement'', JStr ''top''), (''popperConfig'', JNull), (''sanitize'', JBool True),
     (''sanitizeFn'', JNull), (''selector'', JBool False), (''template'', JStr tip_template), (''title'', JStr []), (''trigger'', JStr ''hover focus'')]"

definition tip_defaultType :: "(string \<times> string) list" where
  "tip_defaultType = [(''allowList'', ''object''), (''animation'', ''boolean''), (''boundary'', ''(string|element)''), (''container'', ''(string|element|boolean)''),
     (''customClass'', ''(string|function)''), (''delay'', ''(number|object)''), (''fallbackPlacements'', ''array''), (''html'', ''boolean''),
     (''offset'', ''(array|string|function)''), (''placement'', ''(string|function)''), (''popperConfig'', ''(null|object|function)''), (''sanitize'', ''boolean''),
     (''sanitizeFn'', ''(null|function)''), (''selector'', ''(string|boolean)''), (''template'', ''string''), (''title'', ''(string|element|function)''),
     (''trigger'', ''string'')]"

definition pop_default :: config where
  "pop_default = assign tip_default [(''content'', JStr []), (''offset'', JArr [JNum 0, JNum 8]), (''placement'', JStr ''right''), (''template'', JStr pop_template),
     (''trigger'', JStr ''click'')]"

definition pop_defaultType :: "(string \<times> string) list" where
  "pop_defaultType = tip_defaultType @ [(''content'', ''(null|string|element|function)'')]"

fun kind_default :: "tip_kind \<Rightarrow> config" where
  "kind_default TooltipKind = tip_default"
| "kind_default PopoverKind = pop_default"

fun kind_defaultType :: "tip_kind \<Rightarrow> (string \<times> string) list" where
  "kind_defaultType TooltipKind = tip_defaultType"
| "kind_defaultType PopoverKind = pop_defaultType"

definition DISALLOWED_ATTRIBUTES :: "string list" where
  "DISALLOWED_ATTRIBUTES = [''sanitize'', ''allowList'', ''sanitizeFn'']"

fun number_to_text :: "tip_env \<Rightarrow> jsval \<Rightarrow> jsval" where
  "number_to_text en (JNum r) = JStr (to_text (te_tpl en) (JNum r))"
| "number_to_text en JNaN = JStr ''NaN''"
| "number_to_text en (JInf neg) = JStr (if neg then ''-Infinity'' else ''Infinity'')"
| "number_to_text en x = x"

fun split_delay :: "jsval \<Rightarrow> jsval" where
  "split_delay (JNum r) = JObj [(''show'', JNum r), (''hide'', JNum r)]"
| "split_delay JNaN = JObj [(''show'', JNaN), (''hide'', JNaN)]"
| "split_delay (JInf neg) = JObj [(''show'', JInf neg), (''hide'', JInf neg)]"
| "split_delay x = x"

definition update_if :: "string \<Rightarrow> (jsval \<Rightarrow> jsval) \<Rightarrow> config \<Rightarrow> config" where
  "update_if k f c = (if k \<in> set (map fst c) then AList.update k (f (js_get c k)) c else c)"

text \<open>\<open>container\<close> is the element found for the option, \<open>None\<close> for \<open>null\<close>.\<close>

definition tip_configAfterMerge :: "tip_env \<Rightarrow> elem option \<Rightarrow> config \<Rightarrow> config" where
  "tip_configAfterMerge en container c =
     update_if ''content'' (number_to_text en) (update_if ''title'' (number_to_text en) (update_if ''delay'' split_delay
       (AList.update ''container'' (case container of None \<Rightarrow> JNull | Some x \<Rightarrow> JElem x) c)))"

definition find_container :: "host \<Rightarrow> view \<Rightarrow> page \<Rightarrow> jsval \<Rightarrow> elem option option" where
  "find_container h v p x = (if x = JBool False then Some (Some (body v)) else getElement h p x)"

definition tip_config :: "(string \<Rightarrow> jsval option) \<Rightarrow> page \<Rightarrow> tip_kind \<Rightarrow> elem \<Rightarrow> jsval \<Rightarrow> config" where
  "tip_config json p k e config =
     (let dataAttributes = filter (\<lambda>x. fst x \<notin> set DISALLOWED_ATTRIBUTES) (getDataAttributes json p (Some e));
          given = assign dataAttributes (if typeof_object config then spread_entries config else [])
      in mergeConfigObj json p (kind_default k) (JObj given) None)"

definition tip_getConfig :: "(string \<Rightarrow> jsval option) \<Rightarrow> tip_env \<Rightarrow> host \<Rightarrow> view \<Rightarrow> page \<Rightarrow> tip_kind \<Rightarrow> elem \<Rightarrow> jsval \<Rightarrow> string + config" where
  "tip_getConfig json en h v p k e config =
     (let c = tip_config json p k e config
      in (case find_container h v p (js_get c ''container'') of
            None \<Rightarrow> Inl ''SyntaxError''
          | Some container \<Rightarrow>
              (let c1 = tip_configAfterMerge en container c
               in (case typeCheckConfig h (kind_name k) c1 (kind_defaultType k) of Inl err \<Rightarrow> Inl err | Inr _ \<Rightarrow> Inr c1))))"

section \<open>Content\<close>

definition tip_resolve :: "tip_env \<Rightarrow> elem \<Rightarrow> jsval \<Rightarrow> jsval" where
  "tip_resolve en e arg = execute arg (te_call en e) arg"

definition tip_getTitle :: "tip_env \<Rightarrow> page \<Rightarrow> elem \<Rightarrow> tooltip \<Rightarrow> jsval" where
  "tip_getTitle en p e c =
     (let t = tip_resolve en e (js_get (tt_cfg c) ''title'')
      in if js_truthy t then t else (case getAttribute p e ''data-bs-original-title'' of None \<Rightarrow> JNull | Some u \<Rightarrow> JStr u))"

definition pop_getContent :: "tip_env \<Rightarrow> elem \<Rightarrow> tooltip \<Rightarrow> jsval" where
  "pop_getContent en e c = tip_resolve en e (js_get (tt_cfg c) ''content'')"

definition pop_isWithContent :: "tip_env \<Rightarrow> page \<Rightarrow> elem \<Rightarrow> tooltip \<Rightarrow> bool" where
  "pop_isWithContent en p e c = (js_truthy (tip_getTitle en p e c) \<or> js_truthy (pop_getContent en e c))"

definition tip_isWithContent :: "tip_env \<Rightarrow> page \<Rightarrow> elem \<Rightarrow> tooltip \<Rightarrow> bool" where
  "tip_isWithContent en p e c =
     (case tt_kind c of
        TooltipKind \<Rightarrow> js_truthy (tip_getTitle en p e c)
      | PopoverKind \<Rightarrow> pop_isWithContent en p e c)"

definition pop_contentForTemplate :: "tip_env \<Rightarrow> page \<Rightarrow> elem \<Rightarrow> tooltip \<Rightarrow> config" where
  "pop_contentForTemplate en p e c = [(''.popover-header'', tip_getTitle en p e c), (''.popover-body'', pop_getContent en e c)]"

definition getContentForTemplate :: "tip_env \<Rightarrow> page \<Rightarrow> elem \<Rightarrow> tooltip \<Rightarrow> config" where
  "getContentForTemplate en p e c =
     (case tt_kind c of
        TooltipKind \<Rightarrow> [(''.tooltip-inner'', tip_getTitle en p e c)]
      | PopoverKind \<Rightarrow> pop_contentForTemplate en p e c)"

section \<open>The tip element\<close>

definition tip_isAnimated :: "page \<Rightarrow> tooltip \<Rightarrow> bool" where
  "tip_isAnimated p c = (js_truthy (js_get (tt_cfg c) ''animation'') \<or> (case tt_tip c of None \<Rightarrow> False | Some t \<Rightarrow> has_class p t ''fade''))"

definition tip_isShown :: "page \<Rightarrow> tooltip \<Rightarrow> bool" where
  "tip_isShown p c = (case tt_tip c of None \<Rightarrow> False | Some t \<Rightarrow> has_class p t ''show'')"

definition getTemplateFactory :: "(string \<Rightarrow> jsval option) \<Rightarrow> tip_env \<Rightarrow> host \<Rightarrow> page \<Rightarrow> elem \<Rightarrow> tooltip \<Rightarrow> config \<Rightarrow> string + tpl" where
  "getTemplateFactory json en h p e c content =
     (case tt_factory c of
        Some t \<Rightarrow> changeContent h content t
      | None \<Rightarrow> tpl_new json h p (tt_allowList c)
          (JObj (assign (tt_cfg c) [(''content'', JObj content), (''extraClass'', tip_resolve en e (js_get (tt_cfg c) ''customClass''))])))"

definition used_ids :: "page \<Rightarrow> string list" where
  "used_ids p = List.map_filter (\<lambda>x. getAttribute p x ''id'') (preorder (tree p))"

text \<open>The tip, with its tree, and the page and counter afterwards; \<open>None\<close> when the template has no element.\<close>

definition createTipElement ::
  "(string \<Rightarrow> jsval option) \<Rightarrow> tip_env \<Rightarrow> host \<Rightarrow> elem \<Rightarrow> config \<Rightarrow> tooltip \<Rightarrow> tips \<Rightarrow> tips \<times> (tip_error + etree option)" where
  "createTipElement json en h e content c s =
     (case getTemplateFactory json en h (xp s) e c content of
        Inl err \<Rightarrow> (s, Inl (OptionThrew err))
      | Inr t \<Rightarrow>
          (let (w, r) = toHtml (te_tpl en) h t (xp s) (x_fresh s);
               s1 = (set_tip e (c\<lparr>tt_factory := Some t\<rparr>) s)\<lparr>xp := w_page w, x_fresh := w_fresh w\<rparr>
           in (case r of
                 Inl err \<Rightarrow> (s1, Inl (TemplateThrew err))
               | Inr None \<Rightarrow> (s1, Inr None)
               | Inr (Some k) \<Rightarrow>
                   (case getUID (te_draws en (x_fresh s)) (used_ids (w_page w)) (kind_name (tt_kind c)) of
                      None \<Rightarrow> (s1, Inl OutOfDraws)
                    | Some tipId \<Rightarrow>
                        (let tip = eid k;
                             p1 = remove_class tip ''show'' (remove_class tip ''fade'' (w_page w));
                             p2 = add_class tip (''bs-'' @ kind_name (tt_kind c) @ ''-auto'') p1;
                             p3 = setAttribute tip ''id'' tipId p2;
                             p4 = (if tip_isAnimated p3 (c\<lparr>tt_tip := None\<rparr>) then add_class tip ''fade'' p3 else p3)
                         in ((s1\<lparr>xp := p4\<rparr>), Inr (Some k)))))))"

definition disposePopper :: "tip_env \<Rightarrow> elem \<Rightarrow> tips \<Rightarrow> tips" where
  "disposePopper en e s =
     (case xinsts s e of
        None \<Rightarrow> s
      | Some c \<Rightarrow>
          (let p1 = (case tt_popper c of
                       None \<Rightarrow> xp s
                     | Some i \<Rightarrow> pi_page (destroy (layout (te_dd en) (xp s)) (at_page (xp s) i)));
               p2 = (case tt_tip c of None \<Rightarrow> p1 | Some t \<Rightarrow> remove_el t p1)
           in (set_tip e (c\<lparr>tt_popper := None, tt_tip := None\<rparr>) s)\<lparr>xp := p2\<rparr>))"

section \<open>Popper\<close>

fun side_of_text :: "string \<Rightarrow> side option" where
  "side_of_text t =
     (if t = ''top'' then Some Top else if t = ''bottom'' then Some Bottom else if t = ''left'' then Some Left
      else if t = ''right'' then Some Right else if t = ''auto'' then Some Auto else None)"

fun variation_of_text :: "string \<Rightarrow> variation option" where
  "variation_of_text t = (if t = ''start'' then Some Start else if t = ''end'' then Some End else None)"

text \<open>A placement of the option \<open>fallbackPlacements\<close>.\<close>

definition read_placement :: "string \<Rightarrow> placement option" where
  "read_placement t =
     (case split_on (CHR ''-'') t of
        [a] \<Rightarrow> map_option (\<lambda>x. Placement x None) (side_of_text a)
      | [a, b] \<Rightarrow> (case (side_of_text a, variation_of_text b) of (Some x, Some y) \<Rightarrow> Some (Placement x (Some y)) | _ \<Rightarrow> None)
      | _ \<Rightarrow> None)"

definition fallback_placements :: "jsval \<Rightarrow> placement list option" where
  "fallback_placements x =
     (case x of JArr xs \<Rightarrow> Some (List.map_filter (\<lambda>y. case y of JStr t \<Rightarrow> read_placement t | _ \<Rightarrow> None) xs) | _ \<Rightarrow> None)"

text \<open>\<open>AttachmentMap[placement.toUpperCase()]\<close>.\<close>

definition AttachmentMap :: "host \<Rightarrow> string \<Rightarrow> side option" where
  "AttachmentMap h name =
     map_of [(''AUTO'', Auto), (''TOP'', Top), (''RIGHT'', if rtl h then Left else Right), (''BOTTOM'', Bottom), (''LEFT'', if rtl h then Right else Left)]
       (map to_upper_char name)"

text \<open>
  The configuration for Popper.  The offset is in the typed options; the function of the modifier
  \<open>preSetPlacement\<close> writes an attribute of the tip that \<open>applyStyles\<close> writes at the end of the same
  update, and is not modelled.
\<close>

definition tip_getPopperConfig :: "tip_env \<Rightarrow> tooltip \<Rightarrow> side \<Rightarrow> popper_opts" where
  "tip_getPopperConfig en c attachment =
     (let defaultBsPopperConfig = \<lparr>on_placement = Some (Placement attachment None), on_fixed = None, on_modifiers = Some
            [(named_modifier ''flip'')\<lparr>m_options := [(''fallbackPlacements'', js_get (tt_cfg c) ''fallbackPlacements'')]\<rparr>,
             (named_modifier ''offset'')\<lparr>m_options := [(''offset'', js_get (tt_cfg c) ''offset'')]\<rparr>,
             (named_modifier ''preventOverflow'')\<lparr>m_options := [(''boundary'', js_get (tt_cfg c) ''boundary'')]\<rparr>,
             (named_modifier ''arrow'')\<lparr>m_options := [(''element'', JStr (''.'' @ kind_name (tt_kind c) @ ''-arrow''))]\<rparr>,
             (named_modifier ''preSetPlacement'')\<lparr>m_enabled := Some True, m_phase := Some ''beforeMain''\<rparr>]\<rparr>
      in (case js_get (tt_cfg c) ''popperConfig'' of JNull \<Rightarrow> defaultBsPopperConfig | pc \<Rightarrow> spread_config (te_dd en) pc defaultBsPopperConfig))"

definition tip_popper_options :: "tip_env \<Rightarrow> elem \<Rightarrow> tooltip \<Rightarrow> popper_options" where
  "tip_popper_options en e c =
     \<lparr>po_flip = default_flip\<lparr>f_fallback := fallback_placements (js_get (tt_cfg c) ''fallbackPlacements'')\<rparr>,
      po_prevent = \<lparr>p_mainAxis = True, p_altAxis = False, p_overflow = default_overflow\<lparr>o_boundary := dd_boundary (tt_cfg c)\<rparr>,
        p_tether = True, p_tetherMain = 0, p_tetherAlt = 0, p_arrowPadding = \<lparr>s_top = 0, s_right = 0, s_bottom = 0, s_left = 0\<rparr>\<rparr>,
      po_offset = getOffset (te_dd en) e (tt_cfg c),
      po_arrowPadding = PadNum 0, po_arrowElement = Some (Inr [[[SelClass (kind_name (tt_kind c) @ ''-arrow'')]]]),
      po_styles = \<lparr>y_gpu = True, y_adaptive = True, y_round = RoundByDPR\<rparr>, po_scroll = True, po_resize = True,
      po_show = style_text (te_dd en)\<rparr>"

text \<open>
  A placement that is no string has no \<open>toUpperCase\<close>.  A name that the map does not have leaves the
  attachment undefined; the popper made for it fails in each of its updates, and is left out.
\<close>

definition tip_attachment :: "tip_env \<Rightarrow> host \<Rightarrow> elem \<Rightarrow> tooltip \<Rightarrow> side option option" where
  "tip_attachment en h e c =
     (case tip_resolve en e (js_get (tt_cfg c) ''placement'') of JStr t \<Rightarrow> Some (AttachmentMap h t) | _ \<Rightarrow> None)"

definition tip_createPopper :: "tip_env \<Rightarrow> elem \<Rightarrow> elem \<Rightarrow> side \<Rightarrow> tooltip \<Rightarrow> page \<Rightarrow> popper_instance" where
  "tip_createPopper en e tip attachment c p =
     createPopper (layout (te_dd en) p) (tip_popper_options en e c) (Some e) (Some tip) (tip_getPopperConfig en c attachment) blank_state p"

section \<open>Timers\<close>

definition tip_setTimeout :: "elem \<Rightarrow> tip_timer \<Rightarrow> tips \<Rightarrow> tips" where
  "tip_setTimeout e f s =
     (case xinsts s e of
        None \<Rightarrow> s
      | Some c \<Rightarrow>
          (set_tip e (c\<lparr>tt_timeout := Some (x_next s)\<rparr>) s)\<lparr>x_timers := filter (\<lambda>x. Some (fst x) \<noteq> tt_timeout c) (x_timers s) @ [(x_next s, e, f)],
             x_next := Suc (x_next s)\<rparr>)"

definition isWithActiveTrigger :: "tooltip \<Rightarrow> bool" where
  "isWithActiveTrigger c = (tt_click c \<or> tt_focus c \<or> tt_hover c)"

definition tip_enter :: "elem \<Rightarrow> tips \<Rightarrow> tips" where
  "tip_enter e s =
     (case xinsts s e of
        None \<Rightarrow> s
      | Some c \<Rightarrow>
          (let s1 = set_tip e (c\<lparr>tt_isHovered := Some True\<rparr>) s
           in if tip_isShown (xp s) c \<or> tt_isHovered c = Some True then s1 else tip_setTimeout e EnterTimer s1))"

definition tip_leave :: "elem \<Rightarrow> tips \<Rightarrow> tips" where
  "tip_leave e s =
     (case xinsts s e of
        None \<Rightarrow> s
      | Some c \<Rightarrow>
          if isWithActiveTrigger c then s
          else tip_setTimeout e LeaveTimer (set_tip e (c\<lparr>tt_isHovered := Some False\<rparr>) s))"

section \<open>Showing and hiding\<close>

text \<open>The completion of \<open>show\<close>.\<close>

definition tip_shown :: "host \<Rightarrow> elem \<Rightarrow> tips \<Rightarrow> tips" where
  "tip_shown h e s =
     (case xinsts s e of
        None \<Rightarrow> s
      | Some c \<Rightarrow>
          (let s1 = s\<lparr>xp := triggering h e (tip_eventName c ''shown'') (xp s)\<rparr>;
               s2 = (if tt_isHovered c = Some False then tip_leave e s1 else s1)
           in (case xinsts s2 e of None \<Rightarrow> s2 | Some c2 \<Rightarrow> set_tip e (c2\<lparr>tt_isHovered := Some False\<rparr>) s2)))"

text \<open>The completion of \<open>hide\<close>.\<close>

definition tip_hidden :: "tip_env \<Rightarrow> host \<Rightarrow> elem \<Rightarrow> tips \<Rightarrow> tips" where
  "tip_hidden en h e s =
     (case xinsts s e of
        None \<Rightarrow> s
      | Some c \<Rightarrow>
          if isWithActiveTrigger c then s
          else (let s1 = (if tt_isHovered c = Some True then s else disposePopper en e s)
                in s1\<lparr>xp := triggering h e (tip_eventName c ''hidden'') (removeAttribute e ''aria-describedby'' (xp s1))\<rparr>))"

definition tip_queue :: "tip_callback \<Rightarrow> elem option \<Rightarrow> bool \<Rightarrow> (tips \<Rightarrow> tips) \<Rightarrow> tips \<Rightarrow> tips" where
  "tip_queue cb t isAnimated run s =
     (case t of Some x \<Rightarrow> if isAnimated then s\<lparr>x_pending := x_pending s @ [(x, cb)]\<rparr> else run s | None \<Rightarrow> run s)"

text \<open>From the insertion of a new tip to the end of \<open>show\<close>.\<close>

definition show_tip :: "tip_env \<Rightarrow> host \<Rightarrow> view \<Rightarrow> elem \<Rightarrow> etree \<Rightarrow> tips \<Rightarrow> tip_result" where
  "show_tip en h v e k s =
     (case xinsts s e of
        None \<Rightarrow> (s, None)
      | Some c \<Rightarrow>
          (let tip = eid k;
               p1 = (case getAttribute (xp s) tip ''id'' of None \<Rightarrow> xp s | Some i \<Rightarrow> setAttribute e ''aria-describedby'' i (xp s));
               p2 = triggering h e (tip_eventName c ''inserted'') (p1\<lparr>tree := tree_append (tt_container c) k (tree p1)\<rparr>);
               c1 = c\<lparr>tt_tip := Some tip\<rparr>
           in (case tip_attachment en h e c of
                 None \<Rightarrow> ((set_tip e c1 s)\<lparr>xp := p2\<rparr>, Some NoAttachment)
               | Some attachment \<Rightarrow>
                   (let i = map_option (\<lambda>a. tip_createPopper en e tip a c1 p2) attachment;
                        p3 = add_class tip ''show'' (case i of None \<Rightarrow> p2 | Some j \<Rightarrow> pi_page j);
                        noops = (if touch h then add_noops (children p3 (body v)) (x_noops s) else x_noops s);
                        c2 = c1\<lparr>tt_popper := i\<rparr>
                    in (tip_queue (TipShown e) (Some tip) (tip_isAnimated p3 c2) (tip_shown h e) ((set_tip e c2 s)\<lparr>xp := p3, x_noops := noops\<rparr>), None)))))"

definition tip_show :: "(string \<Rightarrow> jsval option) \<Rightarrow> tip_env \<Rightarrow> host \<Rightarrow> view \<Rightarrow> elem \<Rightarrow> tips \<Rightarrow> tip_result" where
  "tip_show json en h v e s =
     (case xinsts s e of
        None \<Rightarrow> (s, None)
      | Some c \<Rightarrow>
          if getStyle (xp s) e ''display'' = ''none'' then (s, Some InvisibleElement)
          else if \<not> (tip_isWithContent en (xp s) e c \<and> tt_isEnabled c) then (s, None)
          else (let s1 = s\<lparr>xp := triggering h e (tip_eventName c ''show'') (xp s)\<rparr>
                in if prevented_by h e (tip_eventName c ''show'') (xp s) \<or> \<not> (te_shadow en e \<or> in_page (xp s1) e) then (s1, None)
                   else (let s2 = disposePopper en e s1;
                             content = (case tt_newContent c of Some x \<Rightarrow> x | None \<Rightarrow> getContentForTemplate en (xp s2) e c)
                         in (case createTipElement json en h e content (c\<lparr>tt_popper := None, tt_tip := None\<rparr>) s2 of
                               (s3, Inl err) \<Rightarrow> (s3, Some err)
                             | (s3, Inr None) \<Rightarrow> (s3, Some NoTip)
                             | (s3, Inr (Some k)) \<Rightarrow> show_tip en h v e k s3))))"

definition tip_hide :: "tip_env \<Rightarrow> host \<Rightarrow> view \<Rightarrow> elem \<Rightarrow> tips \<Rightarrow> tips" where
  "tip_hide en h v e s =
     (case xinsts s e of
        None \<Rightarrow> s
      | Some c \<Rightarrow>
          (case tt_tip c of
             None \<Rightarrow> s
           | Some tip \<Rightarrow>
               if \<not> tip_isShown (xp s) c then s
               else (let s1 = s\<lparr>xp := triggering h e (tip_eventName c ''hide'') (xp s)\<rparr>
                     in if prevented_by h e (tip_eventName c ''hide'') (xp s) then s1
                        else (let p2 = remove_class tip ''show'' (xp s1);
                                  noops = (if touch h then filter (\<lambda>x. x \<notin> set (children p2 (body v))) (x_noops s) else x_noops s);
                                  c1 = c\<lparr>tt_click := False, tt_focus := False, tt_hover := False, tt_isHovered := None\<rparr>
                              in tip_queue (TipHidden e) (Some tip) (tip_isAnimated p2 c1) (tip_hidden en h e)
                                   ((set_tip e c1 s1)\<lparr>xp := p2, x_noops := noops\<rparr>)))))"

definition tip_toggle :: "elem \<Rightarrow> tips \<Rightarrow> tips" where
  "tip_toggle e s =
     (case xinsts s e of
        None \<Rightarrow> s
      | Some c \<Rightarrow>
          if \<not> tt_isEnabled c then s
          else (let s1 = set_tip e (c\<lparr>tt_click := \<not> tt_click c\<rparr>) s
                in if tip_isShown (xp s) c then tip_leave e s1 else tip_enter e s1))"

definition tip_setEnabled :: "(bool \<Rightarrow> bool) \<Rightarrow> elem \<Rightarrow> tips \<Rightarrow> tips" where
  "tip_setEnabled f e s = (case xinsts s e of None \<Rightarrow> s | Some c \<Rightarrow> set_tip e (c\<lparr>tt_isEnabled := f (tt_isEnabled c)\<rparr>) s)"

definition tip_update :: "elem \<Rightarrow> tips \<Rightarrow> tips" where
  "tip_update e s =
     (case xinsts s e of None \<Rightarrow> s | Some c \<Rightarrow> set_tip e (c\<lparr>tt_popper := map_option update_call (tt_popper c)\<rparr>) s)"

text \<open>The microtask of the tip's popper; with too little fuel, see \<open>update_cycle_settles\<close>, nothing happens.\<close>

definition tip_tick :: "nat \<Rightarrow> tip_env \<Rightarrow> elem \<Rightarrow> tips \<Rightarrow> tips" where
  "tip_tick fuel en e s =
     (case xinsts s e of
        None \<Rightarrow> s
      | Some c \<Rightarrow>
          (case tt_popper c of
             None \<Rightarrow> s
           | Some i \<Rightarrow>
               (case update_tick fuel (layout (te_dd en) (xp s)) (tip_popper_options en e c) (at_page (xp s) i) of
                  None \<Rightarrow> s
                | Some j \<Rightarrow> (set_tip e (c\<lparr>tt_popper := Some j\<rparr>) s)\<lparr>xp := pi_page j\<rparr>)))"

definition tip_setContent :: "(string \<Rightarrow> jsval option) \<Rightarrow> tip_env \<Rightarrow> host \<Rightarrow> view \<Rightarrow> elem \<Rightarrow> config \<Rightarrow> tips \<Rightarrow> tip_result" where
  "tip_setContent json en h v e content s =
     (case xinsts s e of
        None \<Rightarrow> (s, None)
      | Some c \<Rightarrow>
          (let s1 = set_tip e (c\<lparr>tt_newContent := Some content\<rparr>) s
           in if tip_isShown (xp s) c then tip_show json en h v e (disposePopper en e s1) else (s1, None)))"

text \<open>
  A disposed instance has only \<open>null\<close> fields; the callbacks it still waits for throw, or find nothing to
  act on, and are dropped.
\<close>

definition of_tip :: "elem \<Rightarrow> tip_callback \<Rightarrow> bool" where
  "of_tip e cb \<longleftrightarrow> cb = TipShown e \<or> cb = TipHidden e"

definition tip_dispose :: "tip_env \<Rightarrow> elem \<Rightarrow> tips \<Rightarrow> tips" where
  "tip_dispose en e s =
     (case xinsts s e of
        None \<Rightarrow> s
      | Some c \<Rightarrow>
          (let s1 = s\<lparr>x_timers := filter (\<lambda>x. Some (fst x) \<noteq> tt_timeout c) (x_timers s), x_modals := filter (\<lambda>x. snd x \<noteq> e) (x_modals s)\<rparr>;
               p1 = (case getAttribute (xp s1) e ''data-bs-original-title'' of
                       None \<Rightarrow> xp s1
                     | Some t \<Rightarrow> if t = [] then xp s1 else setAttribute e ''title'' t (xp s1));
               s2 = disposePopper en e (s1\<lparr>xp := p1\<rparr>)
           in s2\<lparr>xinsts := (xinsts s2)(e := None), x_pending := filter (\<lambda>x. \<not> of_tip e (snd x)) (x_pending s2)\<rparr>))"

section \<open>Construction\<close>

definition fixTitle :: "elem \<Rightarrow> page \<Rightarrow> page" where
  "fixTitle e p =
     (case getAttribute p e ''title'' of
        None \<Rightarrow> p
      | Some title \<Rightarrow>
          if title = [] then p
          else (let p1 = (if (getAttribute p e ''aria-label'' = None \<or> getAttribute p e ''aria-label'' = Some []) \<and> str_trim (textContent (nodes p e)) = []
                          then setAttribute e ''aria-label'' title p else p)
                in removeAttribute e ''title'' (setAttribute e ''data-bs-original-title'' title p1)))"

definition tip_new ::
  "(string \<Rightarrow> jsval option) \<Rightarrow> tip_env \<Rightarrow> host \<Rightarrow> view \<Rightarrow> allow_list \<Rightarrow> tip_kind \<Rightarrow> elem \<Rightarrow> jsval \<Rightarrow> tips \<Rightarrow> tip_result" where
  "tip_new json en h v allow k e config s =
     (case tip_getConfig json en h v (xp s) k e config of
        Inl err \<Rightarrow> (s, Some (OptionThrew err))
      | Inr c \<Rightarrow>
          (let container = (case js_get c ''container'' of JElem x \<Rightarrow> x | _ \<Rightarrow> body v);
               i = \<lparr>tt_kind = k, tt_isEnabled = True, tt_timeout = None, tt_isHovered = None, tt_click = False, tt_focus = False, tt_hover = False,
                    tt_popper = None, tt_factory = None, tt_newContent = None, tt_tip = None, tt_cfg = c, tt_container = container, tt_allowList = allow\<rparr>;
               modals = (case closest (xp s) [[[SelClass ''modal'']]] e of None \<Rightarrow> x_modals s | Some m \<Rightarrow> x_modals s @ [(m, e)]);
               p1 = (if js_truthy (js_get c ''selector'') then xp s else fixTitle e (xp s))
           in ((set_tip e i s)\<lparr>xp := p1, x_modals := modals\<rparr>, None)))"

definition getDelegateConfig :: "tooltip \<Rightarrow> config" where
  "getDelegateConfig c =
     assign (filter (\<lambda>kv. map_of (kind_default (tt_kind c)) (fst kv) \<noteq> Some (snd kv)) (tt_cfg c))
       [(''selector'', JBool False), (''trigger'', JStr ''manual'')]"

definition initializeOnDelegatedTarget ::
  "(string \<Rightarrow> jsval option) \<Rightarrow> tip_env \<Rightarrow> host \<Rightarrow> view \<Rightarrow> tooltip \<Rightarrow> elem \<Rightarrow> tips \<Rightarrow> tip_result" where
  "initializeOnDelegatedTarget json en h v c d s =
     (if xinsts s d \<noteq> None then (s, None) else tip_new json en h v (tt_allowList c) (tt_kind c) d (JObj (getDelegateConfig c)) s)"

section \<open>Events\<close>

text \<open>
  A handler belongs to the tooltip \<open>e\<close> and runs for the delegate target \<open>d\<close>.  The trigger \<open>hover\<close>
  listens to the pointer, \<open>click\<close> to clicks, \<open>manual\<close> to nothing and every other to the focus.
\<close>

definition tip_triggers :: "tooltip \<Rightarrow> string list" where
  "tip_triggers c = (case js_get (tt_cfg c) ''trigger'' of JStr t \<Rightarrow> split_on (CHR '' '') t | _ \<Rightarrow> [])"

definition tip_listens :: "tooltip \<Rightarrow> string \<Rightarrow> bool" where
  "tip_listens c ev =
     (if ev = ''click'' then ''click'' \<in> set (tip_triggers c)
      else if ev \<in> {''mouseenter'', ''mouseleave''} then ''hover'' \<in> set (tip_triggers c)
      else ev \<in> {''focusin'', ''focusout''} \<and> list_ex (\<lambda>t. t \<notin> {''click'', ''hover'', ''manual''}) (tip_triggers c))"

datatype tip_event =
    TipClick elem elem
  | TipIn elem elem bool
  | TipOut elem elem bool "elem option"
  | TipTimeout nat
  | TipTransitionEnd elem
  | TipModalHide elem
  | CallShow elem
  | CallHide elem
  | CallToggle elem
  | CallDispose elem
  | CallUpdate elem
  | CallSetContent elem config
  | TipTick elem nat

fun set_trigger :: "bool \<Rightarrow> bool \<Rightarrow> tooltip \<Rightarrow> tooltip" where
  "set_trigger True b c = c\<lparr>tt_focus := b\<rparr>"
| "set_trigger False b c = c\<lparr>tt_hover := b\<rparr>"

definition with_tip :: "elem \<Rightarrow> (tooltip \<Rightarrow> tips \<Rightarrow> tips) \<Rightarrow> tips \<Rightarrow> tips" where
  "with_tip e f s = (case xinsts s e of None \<Rightarrow> s | Some c \<Rightarrow> f c s)"

definition tip_click_handler :: "(string \<Rightarrow> jsval option) \<Rightarrow> tip_env \<Rightarrow> host \<Rightarrow> view \<Rightarrow> elem \<Rightarrow> elem \<Rightarrow> tips \<Rightarrow> tip_result" where
  "tip_click_handler json en h v e d s =
     (case xinsts s e of
        None \<Rightarrow> (s, None)
      | Some c \<Rightarrow>
          if \<not> tip_listens c ''click'' then (s, None)
          else and_then (initializeOnDelegatedTarget json en h v c d s) (\<lambda>s1. (tip_toggle d s1, None)))"

definition tip_in_handler :: "(string \<Rightarrow> jsval option) \<Rightarrow> tip_env \<Rightarrow> host \<Rightarrow> view \<Rightarrow> elem \<Rightarrow> elem \<Rightarrow> bool \<Rightarrow> tips \<Rightarrow> tip_result" where
  "tip_in_handler json en h v e d focusing s =
     (case xinsts s e of
        None \<Rightarrow> (s, None)
      | Some c \<Rightarrow>
          if \<not> tip_listens c (if focusing then ''focusin'' else ''mouseenter'') then (s, None)
          else and_then (initializeOnDelegatedTarget json en h v c d s)
                 (\<lambda>s1. (tip_enter d (with_tip d (\<lambda>x. set_tip d (set_trigger focusing True x)) s1), None)))"

definition tip_out_handler ::
  "(string \<Rightarrow> jsval option) \<Rightarrow> tip_env \<Rightarrow> host \<Rightarrow> view \<Rightarrow> elem \<Rightarrow> elem \<Rightarrow> bool \<Rightarrow> elem option \<Rightarrow> tips \<Rightarrow> tip_result" where
  "tip_out_handler json en h v e d focusing related s =
     (case xinsts s e of
        None \<Rightarrow> (s, None)
      | Some c \<Rightarrow>
          if \<not> tip_listens c (if focusing then ''focusout'' else ''mouseleave'') then (s, None)
          else and_then (initializeOnDelegatedTarget json en h v c d s)
                 (\<lambda>s1. (tip_leave d (with_tip d (\<lambda>x. set_tip d (set_trigger focusing
                    (case related of None \<Rightarrow> False | Some r \<Rightarrow> contains (xp s1) d r) x)) s1), None)))"

text \<open>A timer fires once.\<close>

definition tip_timeout :: "(string \<Rightarrow> jsval option) \<Rightarrow> tip_env \<Rightarrow> host \<Rightarrow> view \<Rightarrow> nat \<Rightarrow> tips \<Rightarrow> tip_result" where
  "tip_timeout json en h v i s =
     (case map_of (x_timers s) i of
        None \<Rightarrow> (s, None)
      | Some (e, f) \<Rightarrow>
          (let s1 = s\<lparr>x_timers := filter (\<lambda>x. fst x \<noteq> i) (x_timers s)\<rparr>
           in (case xinsts s1 e of
                 None \<Rightarrow> (s1, None)
               | Some c \<Rightarrow>
                   (case f of
                      EnterTimer \<Rightarrow> if tt_isHovered c = Some True then tip_show json en h v e s1 else (s1, None)
                    | LeaveTimer \<Rightarrow> if tt_isHovered c \<noteq> Some True then (tip_hide en h v e s1, None) else (s1, None)))))"

fun tip_call :: "tip_env \<Rightarrow> host \<Rightarrow> tips \<Rightarrow> tip_callback \<Rightarrow> tips" where
  "tip_call en h s (TipShown e) = tip_shown h e s"
| "tip_call en h s (TipHidden e) = tip_hidden en h e s"

definition tip_transition_end :: "tip_env \<Rightarrow> host \<Rightarrow> elem \<Rightarrow> tips \<Rightarrow> tips" where
  "tip_transition_end en h x s = foldl (tip_call en h) (s\<lparr>x_pending := not_due x (x_pending s)\<rparr>) (due x (x_pending s))"

definition tip_modal_hide :: "tip_env \<Rightarrow> host \<Rightarrow> view \<Rightarrow> elem \<Rightarrow> tips \<Rightarrow> tips" where
  "tip_modal_hide en h v m s = foldl (\<lambda>t x. tip_hide en h v (snd x) t) s (filter (\<lambda>x. fst x = m) (x_modals s))"

fun tip_step :: "(string \<Rightarrow> jsval option) \<Rightarrow> tip_env \<Rightarrow> host \<Rightarrow> view \<Rightarrow> tips \<Rightarrow> tip_event \<Rightarrow> tips" where
  "tip_step json en h v s (TipClick e d) = fst (tip_click_handler json en h v e d s)"
| "tip_step json en h v s (TipIn e d focusing) = fst (tip_in_handler json en h v e d focusing s)"
| "tip_step json en h v s (TipOut e d focusing related) = fst (tip_out_handler json en h v e d focusing related s)"
| "tip_step json en h v s (TipTimeout i) = fst (tip_timeout json en h v i s)"
| "tip_step json en h v s (TipTransitionEnd x) = tip_transition_end en h x s"
| "tip_step json en h v s (TipModalHide m) = tip_modal_hide en h v m s"
| "tip_step json en h v s (CallShow e) = fst (tip_show json en h v e s)"
| "tip_step json en h v s (CallHide e) = tip_hide en h v e s"
| "tip_step json en h v s (CallToggle e) = tip_toggle e s"
| "tip_step json en h v s (CallDispose e) = tip_dispose en e s"
| "tip_step json en h v s (CallUpdate e) = tip_update e s"
| "tip_step json en h v s (CallSetContent e content) = fst (tip_setContent json en h v e content s)"
| "tip_step json en h v s (TipTick e fuel) = tip_tick fuel en e s"

section \<open>Nothing is left behind\<close>

definition tip_elems :: "tips \<Rightarrow> elem set" where
  "tip_elems s = {t. \<exists>e c. xinsts s e = Some c \<and> tt_tip c = Some t}"

definition tip_fits :: "tooltip \<Rightarrow> bool" where
  "tip_fits c \<longleftrightarrow> (\<forall>i. tt_popper c = Some i \<longrightarrow> (\<exists>t. tt_tip c = Some t \<and> live_on t i))"

text \<open>Apart from the tips that belong to an instance, the page has no elements but those of \<open>P\<close>; every popper has its tip.\<close>

definition tip_ok :: "elem set \<Rightarrow> tips \<Rightarrow> bool" where
  "tip_ok P s \<longleftrightarrow> set (preorder (prune (tip_elems s) (tree (xp s)))) \<subseteq> P \<and> (\<forall>e c. xinsts s e = Some c \<longrightarrow> tip_fits c)"

lemma tip_okD: "tip_ok P s \<Longrightarrow> xinsts s e = Some c \<Longrightarrow> tip_fits c"
  by (simp add: tip_ok_def)

text \<open>Parts of the page may go, and tips be added; what is no tip any more must go.\<close>

lemma tip_ok_shrinks:
  assumes "tip_ok P s" "tree (xp s') = prune A (tree (xp s))" "tip_elems s \<subseteq> tip_elems s' \<union> A"
    and "\<And>e c. xinsts s' e = Some c \<Longrightarrow> tip_fits c"
  shows "tip_ok P s'"
proof -
  have "set (preorder (prune (tip_elems s') (tree (xp s')))) \<subseteq> set (preorder (prune (tip_elems s) (tree (xp s))))"
    unfolding assms(2) prune_prune by (rule prune_mono) (use assms(3) in auto)
  with assms(1,4) show ?thesis by (auto simp: tip_ok_def)
qed

lemma tip_ok_same:
  assumes "tip_ok P s" "tree (xp s') = tree (xp s)" "tip_elems s \<subseteq> tip_elems s'" "\<And>e c. xinsts s' e = Some c \<Longrightarrow> tip_fits c"
  shows "tip_ok P s'"
  by (rule tip_ok_shrinks [OF assms(1), where A = "{}"]) (use assms in simp_all)

lemma tip_elems_mono:
  assumes "\<And>x c. xinsts s x = Some c \<Longrightarrow> tt_tip c \<noteq> None \<Longrightarrow> xinsts s' x = Some c"
  shows "tip_elems s \<subseteq> tip_elems s'"
proof
  fix t assume "t \<in> tip_elems s"
  then obtain x c where "xinsts s x = Some c" "tt_tip c = Some t" by (auto simp: tip_elems_def)
  with assms show "t \<in> tip_elems s'" unfolding tip_elems_def by blast
qed

lemma tip_elems_upd:
  assumes "xinsts s e = Some c" "xinsts s' = (xinsts s)(e \<mapsto> c')" "tt_tip c' = tt_tip c"
  shows "tip_elems s' = tip_elems s"
proof -
  have "(\<exists>d. xinsts s' x = Some d \<and> tt_tip d = Some t) = (\<exists>d. xinsts s x = Some d \<and> tt_tip d = Some t)" for x t
    using assms by (cases "x = e") simp_all
  then show ?thesis by (simp add: tip_elems_def)
qed

text \<open>One instance changes, and keeps its tip.\<close>

lemma tip_ok_one:
  assumes "tip_ok P s" "xinsts s e = Some c" "xinsts s' = (xinsts s)(e \<mapsto> c')" "tree (xp s') = tree (xp s)"
    "tt_tip c' = tt_tip c" "tip_fits c'"
  shows "tip_ok P s'"
  by (rule tip_ok_same [OF assms(1)]) (use assms tip_elems_upd [OF assms(2,3,5)] in \<open>auto simp: tip_ok_def split: if_splits\<close>)

lemma tip_ok_page: "tip_ok P s \<Longrightarrow> tree (xp s') = tree (xp s) \<Longrightarrow> xinsts s' = xinsts s \<Longrightarrow> tip_ok P s'"
  by (rule tip_ok_same) (auto simp: tip_elems_def tip_ok_def)

lemma dispose_effect:
  assumes ok: "tip_ok P s" and c: "xinsts s e = Some c"
  shows "tip_ok P (disposePopper en e s)" "xinsts (disposePopper en e s) = (xinsts s)(e \<mapsto> c\<lparr>tt_popper := None, tt_tip := None\<rparr>)"
    "tree (xp (disposePopper en e s)) = prune (set_option (tt_tip c)) (tree (xp s))"
proof -
  let ?s = "disposePopper en e s"
  define p1 where "p1 = (case tt_popper c of None \<Rightarrow> xp s | Some i \<Rightarrow> pi_page (destroy (layout (te_dd en) (xp s)) (at_page (xp s) i)))"
  have t1: "tree p1 = tree (xp s)"
  proof (cases "tt_popper c")
    case (Some i)
    with tip_okD [OF ok c] obtain t where "live_on t i" by (auto simp: tip_fits_def)
    then have "same_outside t (xp s) (pi_page (destroy (layout (te_dd en) (xp s)) (at_page (xp s) i)))" using popper.stop_owned by blast
    then show ?thesis using Some by (simp add: p1_def same_outside_def)
  qed (simp add: p1_def)
  have s: "?s = (set_tip e (c\<lparr>tt_popper := None, tt_tip := None\<rparr>) s)\<lparr>xp := case tt_tip c of None \<Rightarrow> p1 | Some t \<Rightarrow> remove_el t p1\<rparr>"
    unfolding disposePopper_def c option.case Let_def p1_def ..
  show i: "xinsts ?s = (xinsts s)(e \<mapsto> c\<lparr>tt_popper := None, tt_tip := None\<rparr>)" unfolding s by (simp add: set_tip_def)
  show tr: "tree (xp ?s) = prune (set_option (tt_tip c)) (tree (xp s))"
    unfolding s using t1 by (cases "tt_tip c") (simp_all add: remove_el_def remove_is_prune)
  show "tip_ok P ?s"
  proof (rule tip_ok_shrinks [OF ok tr])
    show "tip_elems s \<subseteq> tip_elems ?s \<union> set_option (tt_tip c)"
    proof
      fix t assume "t \<in> tip_elems s"
      then obtain x d where x: "xinsts s x = Some d" "tt_tip d = Some t" by (auto simp: tip_elems_def)
      then show "t \<in> tip_elems ?s \<union> set_option (tt_tip c)"
      proof (cases "x = e")
        case False
        with x have "xinsts ?s x = Some d" by (simp add: i)
        with x(2) show ?thesis by (auto simp: tip_elems_def)
      qed (use x c in simp)
    qed
    show "tip_fits d" if "xinsts ?s x = Some d" for x d using that ok by (auto simp: i tip_ok_def tip_fits_def split: if_splits)
  qed
qed

subsection \<open>Making a tip\<close>

text \<open>The detached tree is built from new elements and elements taken out of the document.\<close>

lemma set_contents_tree: "\<exists>A. tree (w_page (fst (setContents th h t cs w))) = prune A (tree (w_page w))"
proof (induction cs arbitrary: w)
  case Nil
  show ?case by (auto intro: exI [of _ "{}"])
next
  case (Cons x cs)
  obtain sel content where x: "x = (sel, content)" by fastforce
  have html: "tree (w_page (set_innerHTML th e u w)) = tree (w_page w)" for e u
  proof -
    have "tree (foldl (\<lambda>p (e, nd). upd_node e (\<lambda>_. nd) p) p ns) = tree p" for p and ns :: "(elem \<times> node) list"
      by (induction ns arbitrary: p) (auto simp: dom_simps)
    then show ?thesis by (simp add: set_innerHTML_def set_kids_def split: prod.splits)
  qed
  have at: "\<exists>A. tree (w_page (setContent_at th t content e w)) = prune A (tree (w_page w))" for e
    by (auto simp: setContent_at_def Let_def putElementInTemplate_def set_textContent_def set_kids_def move_into_def html remove_el_def
        remove_is_prune dom_simps intro: exI [of _ "{}"] split: jsval.splits)
  obtain w1 err where w1: "setContent th h t content sel w = (w1, err)" by fastforce
  then have "\<exists>A. tree (w_page w1) = prune A (tree (w_page w))"
    using at by (auto simp: setContent_def intro: exI [of _ "{}"] split: option.splits)
  then obtain A where A: "tree (w_page w1) = prune A (tree (w_page w))" by blast
  from Cons.IH [of w1] obtain B where "tree (w_page (fst (setContents th h t cs w1))) = prune B (tree (w_page w1))" by blast
  with A have "tree (w_page (fst (setContents th h t cs w1))) = prune (B \<union> A) (tree (w_page w))" by (simp add: prune_prune)
  with A w1 x show ?case by (cases err) auto
qed

lemma toHtml_tree: "\<exists>A. tree (w_page (fst (toHtml th h t p n))) = prune A (tree p)"
proof -
  define w1 where "w1 = set_innerHTML th n (maybeSanitize th t (JStr (tf_template t))) \<lparr>w_page = upd_node n (\<lambda>_. empty_div) p, w_tree = Elem n [], w_fresh = Suc n\<rparr>"
  have "tree (foldl (\<lambda>p (e, nd). upd_node e (\<lambda>_. nd) p) q ns) = tree q" for q and ns :: "(elem \<times> node) list"
    by (induction ns arbitrary: q) (auto simp: dom_simps)
  then have w1: "tree (w_page w1) = tree p" by (simp add: w1_def set_innerHTML_def set_kids_def dom_simps split: prod.splits)
  obtain w2 err where w2: "setContents th h t (tf_content t) w1 = (w2, err)" by fastforce
  from set_contents_tree [of th h t "tf_content t" w1] obtain A where A: "tree (w_page w2) = prune A (tree p)" unfolding w2 w1 by auto
  have names: "tree (foldl (\<lambda>q c. add_class e c q) q cs) = tree q" for e q cs by (induction cs arbitrary: q) (simp_all add: dom_simps)
  have "tree (w_page (fst (toHtml th h t p n))) = tree (w_page w2)"
    unfolding toHtml_def Let_def w1_def [symmetric] w2
    by (auto simp: add_extra_def Let_def names split: option.splits list.splits if_splits)
  with A show ?thesis by auto
qed

lemma create_effect:
  assumes ok: "tip_ok P s" and c: "xinsts s e = Some c" "tt_tip c = None" "tt_popper c = None"
    and r: "createTipElement json en h e content c s = (s', res)"
  shows "tip_ok P s'" "\<exists>d. xinsts s' = (xinsts s)(e \<mapsto> d) \<and> tt_tip d = None \<and> tt_popper d = None \<and> tt_container d = tt_container c"
proof -
  have "\<exists>d A. xinsts s' = (xinsts s)(e \<mapsto> d) \<and> tt_tip d = None \<and> tt_popper d = None \<and> tt_container d = tt_container c
      \<and> tree (xp s') = prune A (tree (xp s))"
  proof (cases "getTemplateFactory json en h (xp s) e c content")
    case (Inl err)
    with r have "s' = s" by (simp add: createTipElement_def)
    with c show ?thesis by (intro exI [of _ c] exI [of _ "{}"]) auto
  next
    case (Inr t)
    obtain w rr where w: "toHtml (te_tpl en) h t (xp s) (x_fresh s) = (w, rr)" by fastforce
    from toHtml_tree [of "te_tpl en" h t "xp s" "x_fresh s"] w obtain A where A: "tree (w_page w) = prune A (tree (xp s))" by auto
    have "tree (xp s') = tree (w_page w) \<and> xinsts s' = (xinsts s)(e \<mapsto> c\<lparr>tt_factory := Some t\<rparr>)"
      using r Inr w by (auto simp: createTipElement_def Let_def set_tip_def dom_simps split: sum.splits option.splits)
    with A c show ?thesis by (intro exI [of _ "c\<lparr>tt_factory := Some t\<rparr>"] exI [of _ A]) simp
  qed
  then obtain d A where d: "xinsts s' = (xinsts s)(e \<mapsto> d)" "tt_tip d = None" "tt_popper d = None" "tt_container d = tt_container c"
    and tr: "tree (xp s') = prune A (tree (xp s))" by blast
  show "tip_ok P s'"
    by (rule tip_ok_shrinks [OF ok tr]) (use tip_elems_upd [OF c(1) d(1)] c d ok in \<open>auto simp: tip_ok_def tip_fits_def split: if_splits\<close>)
  show "\<exists>d. xinsts s' = (xinsts s)(e \<mapsto> d) \<and> tt_tip d = None \<and> tt_popper d = None \<and> tt_container d = tt_container c" using d by blast
qed

subsection \<open>Timers, callbacks and triggers\<close>

lemma set_tip_ok:
  "tip_ok P s \<Longrightarrow> xinsts s e = Some c \<Longrightarrow> tt_tip c' = tt_tip c \<Longrightarrow> tt_popper c' = tt_popper c \<Longrightarrow> tip_ok P (set_tip e c' s)"
  by (rule tip_ok_one [where c' = c']) (auto simp: set_tip_def tip_ok_def tip_fits_def)

lemma timeout_ok: "tip_ok P s \<Longrightarrow> tip_ok P (tip_setTimeout e f s)"
proof (cases "xinsts s e")
  case (Some c)
  assume ok: "tip_ok P s"
  have "tip_ok P (set_tip e (c\<lparr>tt_timeout := Some (x_next s)\<rparr>) s)" by (rule set_tip_ok [OF ok Some]) simp_all
  then show ?thesis using Some by (auto simp: tip_setTimeout_def elim: tip_ok_page)
qed (simp add: tip_setTimeout_def)

lemma enter_ok: "tip_ok P s \<Longrightarrow> tip_ok P (tip_enter e s)"
  by (cases "xinsts s e") (auto simp: tip_enter_def Let_def intro!: timeout_ok set_tip_ok)

lemma tip_leave_ok: "tip_ok P s \<Longrightarrow> tip_ok P (tip_leave e s)"
  by (cases "xinsts s e") (auto simp: tip_leave_def intro!: timeout_ok set_tip_ok)

lemma toggle_ok: "tip_ok P s \<Longrightarrow> tip_ok P (tip_toggle e s)"
  by (cases "xinsts s e") (auto simp: tip_toggle_def Let_def intro!: tip_leave_ok enter_ok set_tip_ok)

lemma log_ok: "tip_ok P s \<Longrightarrow> tip_ok P (s\<lparr>xp := triggering h e ev (xp s)\<rparr>)"
  by (erule tip_ok_page) (simp_all add: dom_simps)

lemma shown_ok:
  assumes "tip_ok P s"
  shows "tip_ok P (tip_shown h e s)"
proof (cases "xinsts s e")
  case (Some c)
  define s2 where "s2 = (if tt_isHovered c = Some False then tip_leave e (s\<lparr>xp := triggering h e (tip_eventName c ''shown'') (xp s)\<rparr>)
    else s\<lparr>xp := triggering h e (tip_eventName c ''shown'') (xp s)\<rparr>)"
  have s2: "tip_ok P s2" unfolding s2_def using assms by (simp add: log_ok tip_leave_ok)
  have "tip_shown h e s = (case xinsts s2 e of None \<Rightarrow> s2 | Some c2 \<Rightarrow> set_tip e (c2\<lparr>tt_isHovered := Some False\<rparr>) s2)"
    unfolding tip_shown_def Some option.case Let_def s2_def ..
  then show ?thesis using s2 by (cases "xinsts s2 e") (simp_all add: set_tip_ok)
qed (use assms in \<open>simp add: tip_shown_def\<close>)

lemma tip_hidden_ok:
  assumes "tip_ok P s"
  shows "tip_ok P (tip_hidden en h e s)"
proof (cases "xinsts s e")
  case (Some c)
  have "tip_ok P (t\<lparr>xp := triggering h e ev (removeAttribute e a (xp t))\<rparr>)" if "tip_ok P t" for t ev a
    by (rule tip_ok_page [OF that]) (simp_all add: dom_simps)
  then show ?thesis using assms dispose_effect(1) [OF assms Some] by (simp add: tip_hidden_def Some Let_def)
qed (use assms in \<open>simp add: tip_hidden_def\<close>)

subsection \<open>Showing and hiding\<close>

lemma show_tip_ok:
  assumes ok: "tip_ok P s" and c: "xinsts s e = Some c" "tt_tip c = None" "tt_popper c = None"
  shows "tip_ok P (fst (show_tip en h v e k s))"
proof -
  define p1 where "p1 = (case getAttribute (xp s) (eid k) ''id'' of None \<Rightarrow> xp s | Some i \<Rightarrow> setAttribute e ''aria-describedby'' i (xp s))"
  define p2 where "p2 = triggering h e (tip_eventName c ''inserted'') (p1\<lparr>tree := tree_append (tt_container c) k (tree p1)\<rparr>)"
  let ?c1 = "c\<lparr>tt_tip := Some (eid k)\<rparr>"
  have t2: "tree p2 = tree_append (tt_container c) k (tree (xp s))"
    by (auto simp: p2_def p1_def dom_simps split: option.splits)
  have grow: "tip_ok P s'" if i: "xinsts s' = (xinsts s)(e \<mapsto> d)" "tt_tip d = Some (eid k)" "tip_fits d" and tr: "tree (xp s') = tree p2" for s' d
  proof -
    have "xinsts s' e = Some d" using i(1) by simp
    with i(2) have k: "eid k \<in> tip_elems s'" unfolding tip_elems_def by blast
    have sub: "tip_elems s \<subseteq> tip_elems s'" by (rule tip_elems_mono) (use c i(1) in auto)
    have "set (preorder (prune (tip_elems s') (tree (xp s')))) \<subseteq> set (preorder (prune (tip_elems s) (tree (xp s))))"
      unfolding tr t2 prune_append [OF k] by (rule prune_mono [OF sub])
    with ok i show ?thesis by (auto simp: tip_ok_def split: if_splits)
  qed
  have "tip_ok P ((set_tip e ?c1 s)\<lparr>xp := p2\<rparr>)" by (rule grow [where d = ?c1]) (use c in \<open>simp_all add: set_tip_def tip_fits_def\<close>)
  moreover have "tip_ok P (tip_queue (TipShown e) (Some (eid k)) b (tip_shown h e) ((set_tip e (?c1\<lparr>tt_popper := i\<rparr>) s)\<lparr>xp := add_class (eid k) ''show'' (case i of None \<Rightarrow> p2 | Some j \<Rightarrow> pi_page j), x_noops := ns\<rparr>))"
    if i: "i = map_option (\<lambda>a. tip_createPopper en e (eid k) a ?c1 p2) attachment" for attachment b i ns
  proof -
    let ?s = "(set_tip e (?c1\<lparr>tt_popper := i\<rparr>) s)\<lparr>xp := add_class (eid k) ''show'' (case i of None \<Rightarrow> p2 | Some j \<Rightarrow> pi_page j), x_noops := ns\<rparr>"
    have live: "live_on (eid k) j" "same_outside (eid k) p2 (pi_page j)" if "i = Some j" for j
      using that unfolding i tip_createPopper_def using popper.create_live popper.create_page by blast+
    have s: "tip_ok P ?s"
      by (rule grow [where d = "?c1\<lparr>tt_popper := i\<rparr>"])
        (use live in \<open>auto simp: set_tip_def tip_fits_def dom_simps same_outside_def split: option.splits\<close>)
    have "tip_ok P (?s\<lparr>x_pending := q\<rparr>)" for q by (rule tip_ok_page [OF s]) simp_all
    then show ?thesis using s shown_ok by (simp add: tip_queue_def)
  qed
  ultimately show ?thesis
    unfolding show_tip_def c(1) option.case Let_def p1_def [symmetric] p2_def [symmetric]
    by (cases "tip_attachment en h e c") simp_all
qed

lemma show_ok:
  assumes ok: "tip_ok P s"
  shows "tip_ok P (fst (tip_show json en h v e s))"
proof (cases "xinsts s e")
  case (Some c)
  let ?s1 = "s\<lparr>xp := triggering h e (tip_eventName c ''show'') (xp s)\<rparr>"
  let ?s2 = "disposePopper en e ?s1" and ?c = "c\<lparr>tt_popper := None, tt_tip := None\<rparr>"
  define content where "content = (case tt_newContent c of Some x \<Rightarrow> x | None \<Rightarrow> getContentForTemplate en (xp ?s2) e c)"
  have s1: "tip_ok P ?s1" by (rule log_ok [OF ok])
  have i1: "xinsts ?s1 e = Some c" using Some by simp
  note d = dispose_effect [OF s1 i1, of en]
  have c2: "xinsts ?s2 e = Some ?c" "tt_tip ?c = None" "tt_popper ?c = None" using d(2) by simp_all
  obtain s3 r where r: "createTipElement json en h e content ?c ?s2 = (s3, r)" by fastforce
  note k = create_effect [OF d(1) c2 r]
  obtain d3 where d3: "xinsts s3 e = Some d3" "tt_tip d3 = None" "tt_popper d3 = None" using k(2) by auto
  have fin: "tip_ok P (fst (case (s3, r) of (s3, Inl err) \<Rightarrow> (s3, Some err) | (s3, Inr None) \<Rightarrow> (s3, Some NoTip) | (s3, Inr (Some k)) \<Rightarrow> show_tip en h v e k s3))"
    using k(1) show_tip_ok [OF k(1) d3] by (auto split: sum.splits option.splits)
  show ?thesis
    unfolding tip_show_def Some option.case Let_def content_def [symmetric] r using ok s1 fin by simp
qed (use ok in \<open>simp add: tip_show_def\<close>)

lemma hide_ok:
  assumes ok: "tip_ok P s"
  shows "tip_ok P (tip_hide en h v e s)"
proof (cases "xinsts s e")
  case (Some c)
  show ?thesis
  proof (cases "tt_tip c")
    case tip: (Some t)
    let ?s1 = "s\<lparr>xp := triggering h e (tip_eventName c ''hide'') (xp s)\<rparr>"
    let ?c = "c\<lparr>tt_click := False, tt_focus := False, tt_hover := False, tt_isHovered := None\<rparr>"
    have s1: "tip_ok P ?s1" by (rule log_ok [OF ok])
    have s2: "tip_ok P ((set_tip e ?c ?s1)\<lparr>xp := remove_class t ''show'' (xp ?s1), x_noops := ns\<rparr>)" for ns
      by (rule tip_ok_one [OF s1, where e = e and c = c and c' = ?c]) (use Some tip_okD [OF ok Some] in \<open>simp_all add: set_tip_def dom_simps tip_fits_def\<close>)
    have "tip_ok P (((set_tip e ?c ?s1)\<lparr>xp := remove_class t ''show'' (xp ?s1), x_noops := ns\<rparr>)\<lparr>x_pending := q\<rparr>)" for ns q
      by (rule tip_ok_page [OF s2]) simp_all
    then have "tip_ok P (tip_queue (TipHidden e) (Some t) b (tip_hidden en h e) ((set_tip e ?c ?s1)\<lparr>xp := remove_class t ''show'' (xp ?s1), x_noops := ns\<rparr>))" for b ns
      using s2 tip_hidden_ok unfolding tip_queue_def by simp
    then show ?thesis unfolding tip_hide_def Some option.case tip Let_def using ok s1 by simp
  qed (use ok Some in \<open>simp add: tip_hide_def\<close>)
qed (use ok in \<open>simp add: tip_hide_def\<close>)

lemma tip_dispose_ok:
  assumes ok: "tip_ok P s"
  shows "tip_ok P (tip_dispose en e s)"
proof (cases "xinsts s e")
  case (Some c)
  let ?s0 = "s\<lparr>x_timers := filter (\<lambda>x. Some (fst x) \<noteq> tt_timeout c) (x_timers s), x_modals := filter (\<lambda>x. snd x \<noteq> e) (x_modals s)\<rparr>"
  define p1 where "p1 = (case getAttribute (xp ?s0) e ''data-bs-original-title'' of None \<Rightarrow> xp ?s0 | Some t \<Rightarrow> if t = [] then xp ?s0 else setAttribute e ''title'' t (xp ?s0))"
  define s1 where "s1 = ?s0\<lparr>xp := p1\<rparr>"
  have "tree p1 = tree (xp s)" by (auto simp: p1_def dom_simps split: option.splits)
  then have o1: "tip_ok P s1" by (intro tip_ok_page [OF ok]) (simp_all add: s1_def)
  have c1: "xinsts s1 e = Some c" using Some by (simp add: s1_def)
  note d = dispose_effect [OF o1 c1, of en]
  let ?s2 = "disposePopper en e s1"
  have "tip_ok P (?s2\<lparr>xinsts := (xinsts ?s2)(e := None), x_pending := q\<rparr>)" for q
  proof (rule tip_ok_same [OF d(1)])
    show "tip_elems ?s2 \<subseteq> tip_elems (?s2\<lparr>xinsts := (xinsts ?s2)(e := None), x_pending := q\<rparr>)"
      by (rule tip_elems_mono) (use d(2) in auto)
  qed (use d(1) in \<open>auto simp: tip_ok_def split: if_splits\<close>)
  then show ?thesis unfolding tip_dispose_def Some option.case Let_def p1_def [symmetric] s1_def [symmetric] .
qed (use ok in \<open>simp add: tip_dispose_def\<close>)

subsection \<open>Events\<close>

lemma new_ok:
  assumes ok: "tip_ok P s" and e: "xinsts s e = None"
  shows "tip_ok P (fst (tip_new json en h v allow k e config s))"
proof (cases "tip_getConfig json en h v (xp s) k e config")
  case (Inr c)
  have "tree (fixTitle e p) = tree p" for p by (simp add: fixTitle_def Let_def dom_simps split: option.splits)
  then show ?thesis unfolding tip_new_def Inr sum.case Let_def fst_conv
    by (intro tip_ok_same [OF ok] tip_elems_mono) (use ok e in \<open>auto simp: set_tip_def tip_ok_def tip_fits_def split: if_splits\<close>)
qed (use ok in \<open>simp add: tip_new_def\<close>)

lemma delegate_ok: "tip_ok P s \<Longrightarrow> tip_ok P (fst (initializeOnDelegatedTarget json en h v c d s))"
  by (simp add: initializeOnDelegatedTarget_def new_ok)

lemma then_ok:
  assumes "tip_ok P (fst r)" "\<And>s. tip_ok P s \<Longrightarrow> tip_ok P (fst (f s))"
  shows "tip_ok P (fst (and_then r f))"
  using assms by (cases r; cases "snd r") auto

lemma trigger_ok: "tip_ok P s \<Longrightarrow> tip_ok P (with_tip d (\<lambda>x. set_tip d (set_trigger b1 b2 x)) s)"
  by (cases "xinsts s d"; cases b1) (simp_all add: with_tip_def set_tip_ok)

lemma handlers_ok:
  assumes ok: "tip_ok P s"
  shows "tip_ok P (fst (tip_click_handler json en h v e d s))" "tip_ok P (fst (tip_in_handler json en h v e d b s))"
    "tip_ok P (fst (tip_out_handler json en h v e d b r s))"
proof -
  note t = then_ok [OF delegate_ok [OF ok]]
  show "tip_ok P (fst (tip_click_handler json en h v e d s))"
    using ok by (cases "xinsts s e") (simp_all add: tip_click_handler_def t toggle_ok)
  show "tip_ok P (fst (tip_in_handler json en h v e d b s))"
    using ok by (cases "xinsts s e") (simp_all add: tip_in_handler_def t enter_ok trigger_ok)
  show "tip_ok P (fst (tip_out_handler json en h v e d b r s))"
    using ok by (cases "xinsts s e") (simp_all add: tip_out_handler_def t tip_leave_ok trigger_ok)
qed

lemma timer_ok:
  assumes ok: "tip_ok P s"
  shows "tip_ok P (fst (tip_timeout json en h v i s))"
proof (cases "map_of (x_timers s) i")
  case (Some ef)
  obtain e f where ef: "ef = (e, f)" by fastforce
  let ?s = "s\<lparr>x_timers := filter (\<lambda>x. fst x \<noteq> i) (x_timers s)\<rparr>"
  have s: "tip_ok P ?s" by (rule tip_ok_page [OF ok]) simp_all
  show ?thesis unfolding tip_timeout_def Some ef option.case prod.case Let_def
    using s show_ok [OF s] hide_ok [OF s] by (auto split: option.splits tip_timer.splits)
qed (use ok in \<open>simp add: tip_timeout_def\<close>)

lemma transitions_ok:
  assumes ok: "tip_ok P s"
  shows "tip_ok P (tip_transition_end en h x s)"
proof -
  have "tip_ok P (foldl (tip_call en h) t cbs)" if "tip_ok P t" for t cbs
    using that
  proof (induction cbs arbitrary: t)
    case (Cons cb cbs)
    then show ?case by (cases cb) (simp_all add: shown_ok tip_hidden_ok)
  qed simp
  moreover have "tip_ok P (s\<lparr>x_pending := q\<rparr>)" for q by (rule tip_ok_page [OF ok]) simp_all
  ultimately show ?thesis by (simp add: tip_transition_end_def)
qed

lemma modals_ok: "tip_ok P s \<Longrightarrow> tip_ok P (tip_modal_hide en h v m s)"
proof -
  have "tip_ok P t \<Longrightarrow> tip_ok P (foldl (\<lambda>t x. tip_hide en h v (snd x) t) t xs)" for t and xs :: "(elem \<times> elem) list"
    by (induction xs arbitrary: t) (simp_all add: hide_ok)
  then show "tip_ok P s \<Longrightarrow> tip_ok P (tip_modal_hide en h v m s)" by (simp add: tip_modal_hide_def)
qed

lemma popper_ok:
  assumes ok: "tip_ok P s"
  shows "tip_ok P (tip_update e s)" "tip_ok P (tip_tick n en e s)"
proof -
  have fit: "tip_ok P ((set_tip e (c\<lparr>tt_popper := Some j\<rparr>) s)\<lparr>xp := p\<rparr>)"
    if "xinsts s e = Some c" "tt_tip c = Some t" "live_on t j" "tree p = tree (xp s)" for c t j p
    by (rule tip_ok_one [OF ok that(1), where c' = "c\<lparr>tt_popper := Some j\<rparr>"]) (use that in \<open>auto simp: set_tip_def tip_fits_def\<close>)
  show "tip_ok P (tip_update e s)"
  proof (cases "xinsts s e")
    case (Some c)
    show ?thesis
    proof (cases "tt_popper c")
      case None
      then have "c\<lparr>tt_popper := map_option update_call (tt_popper c)\<rparr> = c" by simp
      then show ?thesis using ok Some by (simp add: tip_update_def set_tip_def fun_upd_idem)
    next
      case (Some i)
      obtain t where t: "tt_tip c = Some t" "live_on t i" using tip_okD [OF ok \<open>xinsts s e = Some c\<close>] Some by (auto simp: tip_fits_def)
      from fit [OF \<open>xinsts s e = Some c\<close> t(1) popper.call_live [OF t(2)], of "xp s"] show ?thesis
        using Some \<open>xinsts s e = Some c\<close> by (simp add: tip_update_def set_tip_def)
    qed
  qed (use ok in \<open>simp add: tip_update_def\<close>)
  show "tip_ok P (tip_tick n en e s)"
  proof (cases "xinsts s e")
    case (Some c)
    show ?thesis
    proof (cases "tt_popper c")
      case (Some i)
      obtain t where t: "tt_tip c = Some t" "live_on t i" using tip_okD [OF ok \<open>xinsts s e = Some c\<close>] Some by (auto simp: tip_fits_def)
      show ?thesis
      proof (cases "update_tick n (layout (te_dd en) (xp s)) (tip_popper_options en e c) (at_page (xp s) i)")
        case j: (Some j)
        have "live_on t i \<or> given_up i" using t(2) by simp
        note k = popper.tick_owned [OF this j]
        have "live_on t j" "tree (pi_page j) = tree (xp s)" using k t(2) by (simp_all add: same_outside_def)
        from fit [OF \<open>xinsts s e = Some c\<close> t(1) this] show ?thesis using Some j \<open>xinsts s e = Some c\<close> by (simp add: tip_tick_def)
      qed (use ok Some \<open>xinsts s e = Some c\<close> in \<open>simp add: tip_tick_def\<close>)
    qed (use ok Some in \<open>simp add: tip_tick_def\<close>)
  qed (use ok in \<open>simp add: tip_tick_def\<close>)
qed

lemma content_ok:
  assumes ok: "tip_ok P s"
  shows "tip_ok P (fst (tip_setContent json en h v e content s))"
proof (cases "xinsts s e")
  case (Some c)
  let ?c = "c\<lparr>tt_newContent := Some content\<rparr>"
  have s1: "tip_ok P (set_tip e ?c s)" by (rule set_tip_ok [OF ok Some]) simp_all
  have "xinsts (set_tip e ?c s) e = Some ?c" by (simp add: set_tip_def)
  from show_ok [OF dispose_effect(1) [OF s1 this]] s1 Some show ?thesis by (simp add: tip_setContent_def Let_def)
qed (use ok in \<open>simp add: tip_setContent_def\<close>)

lemma tip_step_ok: "tip_ok P s \<Longrightarrow> tip_ok P (tip_step json en h v s ev)"
  by (cases ev) (simp_all add: handlers_ok timer_ok transitions_ok modals_ok show_ok hide_ok toggle_ok tip_dispose_ok popper_ok content_ok)

interpretation tip: event_machine "tip_step json en h v" "\<lambda>_ _. True" "tip_ok P" for json en h v P
  by unfold_locales (rule tip_step_ok)

section \<open>Properties\<close>

text \<open>
  C36: Tooltips and popovers leave nothing behind: however often they are shown, hidden, updated,
  refilled or disposed of, and whenever the timers and transitions between end, the page has besides
  the tips of the instances only elements that were there before, and an instance without a tip has
  no popper, hence no listeners of one.
\<close>

theorem tips_leave_nothing:
  assumes "\<And>e c. xinsts s e = Some c \<Longrightarrow> tt_tip c = None \<and> tt_popper c = None"
    and "t = foldl (tip_step json en h v) s evs"
  shows "set (preorder (prune (tip_elems t) (tree (xp t)))) \<subseteq> set (preorder (tree (xp s)))
    \<and> (\<forall>e c. xinsts t e = Some c \<and> tt_tip c = None \<longrightarrow> tt_popper c = None)"
proof (intro conjI allI impI)
  have "tip_elems s = {}" using assms(1) by (fastforce simp: tip_elems_def)
  then have "tip_ok (set (preorder (tree (xp s)))) s" using assms(1) by (auto simp: tip_ok_def tip_fits_def)
  from tip.run_keeps [OF this allowed_run_always] have ok: "tip_ok (set (preorder (tree (xp s)))) t" by (simp add: assms(2))
  then show "set (preorder (prune (tip_elems t) (tree (xp t)))) \<subseteq> set (preorder (tree (xp s)))" by (simp add: tip_ok_def)
  fix e c assume "xinsts t e = Some c \<and> tt_tip c = None"
  then have "tip_fits c" "tt_tip c = None" using tip_okD [OF ok] by blast+
  then show "tt_popper c = None" by (cases "tt_popper c") (auto simp: tip_fits_def)
qed

subsection \<open>Hiding that ends late\<close>

text \<open>What a completed \<open>show\<close> leaves when it made the tip \<open>t\<close>.\<close>

definition tip_shows :: "elem \<Rightarrow> elem \<Rightarrow> tooltip \<Rightarrow> tips \<Rightarrow> tips \<Rightarrow> bool" where
  "tip_shows e t c s s' \<longleftrightarrow>
     (\<exists>c'. xinsts s' e = Some c' \<and> tt_tip c' = Some t \<and> tip_isShown (xp s') c' \<and> isWithActiveTrigger c' = isWithActiveTrigger c
        \<and> (tt_isHovered c' = tt_isHovered c \<or> tt_isHovered c' = Some False))
     \<and> (x_pending s' = x_pending s \<or> x_pending s' = x_pending s @ [(t, TipShown e)])"

lemma shown_shows:
  assumes c: "xinsts s e = Some c" "tt_tip c = Some t" "has_class (xp s) t ''show''"
  shows "tip_shows e t c s (tip_shown h e s)"
proof -
  have "xp (tip_leave e u) = xp u" "x_pending (tip_leave e u) = x_pending u" for u
    by (auto simp: tip_leave_def tip_setTimeout_def set_tip_def split: option.splits)
  then show ?thesis using c
    by (auto simp: tip_shows_def tip_shown_def Let_def tip_leave_def tip_setTimeout_def set_tip_def tip_isShown_def isWithActiveTrigger_def dom_simps)
qed

lemma show_tip_shows:
  assumes c: "xinsts s e = Some c" and r: "tip_attachment en h e c = Some a"
  shows "\<exists>s'. show_tip en h v e k s = (s', None) \<and> tip_shows e (eid k) c s s'"
proof -
  define p1 where "p1 = (case getAttribute (xp s) (eid k) ''id'' of None \<Rightarrow> xp s | Some i \<Rightarrow> setAttribute e ''aria-describedby'' i (xp s))"
  define p2 where "p2 = triggering h e (tip_eventName c ''inserted'') (p1\<lparr>tree := tree_append (tt_container c) k (tree p1)\<rparr>)"
  define i where "i = map_option (\<lambda>a. tip_createPopper en e (eid k) a (c\<lparr>tt_tip := Some (eid k)\<rparr>) p2) a"
  define c2 where "c2 = c\<lparr>tt_tip := Some (eid k), tt_popper := i\<rparr>"
  define p3 where "p3 = add_class (eid k) ''show'' (case i of None \<Rightarrow> p2 | Some j \<Rightarrow> pi_page j)"
  define s2 where "s2 = (set_tip e c2 s)\<lparr>xp := p3, x_noops := if touch h then add_noops (children p3 (body v)) (x_noops s) else x_noops s\<rparr>"
  have eq: "show_tip en h v e k s = (tip_queue (TipShown e) (Some (eid k)) (tip_isAnimated (xp s2) c2) (tip_shown h e) s2, None)"
    unfolding show_tip_def c r option.case Let_def p1_def [symmetric] p2_def [symmetric] i_def [symmetric] p3_def [symmetric] by (simp add: s2_def c2_def)
  have s2: "xinsts s2 e = Some c2" "tt_tip c2 = Some (eid k)" "has_class (xp s2) (eid k) ''show''" "x_pending s2 = x_pending s"
    "isWithActiveTrigger c2 = isWithActiveTrigger c" "tt_isHovered c2 = tt_isHovered c"
    by (simp_all add: s2_def p3_def c2_def set_tip_def dom_simps isWithActiveTrigger_def)
  have "tip_shows e (eid k) c s (tip_shown h e s2)" using shown_shows [OF s2(1-3), of h] s2(4-6) by (simp add: tip_shows_def)
  moreover have "tip_shows e (eid k) c s (s2\<lparr>x_pending := x_pending s2 @ [(eid k, TipShown e)]\<rparr>)"
    using s2 by (simp add: tip_shows_def tip_isShown_def)
  ultimately show ?thesis unfolding eq by (auto simp: tip_queue_def)
qed

lemma show_shows:
  assumes ok: "tip_ok P s" and c: "xinsts s e = Some c" and r: "tip_show json en h v e s = (s', None)"
    and c': "xinsts s' e = Some c'" "tt_tip c' = Some t" "tt_tip c \<noteq> Some t"
  shows "tip_shows e t c s s'"
proof -
  define s1 where "s1 = s\<lparr>xp := triggering h e (tip_eventName c ''show'') (xp s)\<rparr>"
  define d where "d = c\<lparr>tt_popper := None, tt_tip := None\<rparr>"
  define content where "content = (case tt_newContent c of Some x \<Rightarrow> x | None \<Rightarrow> getContentForTemplate en (xp (disposePopper en e s1)) e c)"
  have old: "s' \<noteq> s" "s' \<noteq> s1" using c c' by (auto simp: s1_def)
  obtain s3 res where m: "createTipElement json en h e content d (disposePopper en e s1) = (s3, res)" by fastforce
  have "(case (s3, res) of (s3, Inl err) \<Rightarrow> (s3, Some err) | (s3, Inr None) \<Rightarrow> (s3, Some NoTip) | (s3, Inr (Some k)) \<Rightarrow> show_tip en h v e k s3) = (s', None)"
    using r old unfolding tip_show_def c option.case Let_def s1_def [symmetric] d_def [symmetric] content_def [symmetric] m
    by (auto split: if_splits)
  then obtain k where k: "show_tip en h v e k s3 = (s', None)" by (auto split: sum.splits option.splits)
  have s1: "tip_ok P s1" "xinsts s1 e = Some c" unfolding s1_def using log_ok [OF ok] c by simp_all
  note s2 = dispose_effect [OF s1, of en]
  have keeps: "x_pending s3 = x_pending s" "\<exists>f. xinsts s3 e = Some (d\<lparr>tt_factory := f\<rparr>)"
    using m s2(2) s1(2) c unfolding createTipElement_def
    by (auto simp: disposePopper_def s1_def d_def set_tip_def Let_def split: option.splits sum.splits prod.splits intro: exI [of _ "tt_factory c"])
  then obtain f where f: "xinsts s3 e = Some (d\<lparr>tt_factory := f\<rparr>)" by blast
  have "tip_attachment en h e (d\<lparr>tt_factory := f\<rparr>) \<noteq> None"
    using k f by (cases "tip_attachment en h e (d\<lparr>tt_factory := f\<rparr>)") (simp_all add: show_tip_def Let_def)
  then obtain a where "tip_attachment en h e (d\<lparr>tt_factory := f\<rparr>) = Some a" by blast
  from show_tip_shows [OF f this, of v k] k have sh: "tip_shows e (eid k) (d\<lparr>tt_factory := f\<rparr>) s3 s'" by auto
  then have "eid k = t" using c' by (auto simp: tip_shows_def)
  with sh keeps(1) show ?thesis by (simp add: tip_shows_def isWithActiveTrigger_def d_def)
qed

text \<open>
  C40: A fade-out that ends late removes the wrong tip.  When \<open>hide()\<close> is followed by \<open>show()\<close> before
  the old tip's transition has ended, the old tip is gone and a new one is shown; when the old
  transition then ends, its callback finds no trigger and no pointer, and removes the new tip, while the
  caller asked for it to be shown and nobody asked to hide it.
\<close>

theorem late_hide_removes_new_tip:
  assumes ok: "tip_ok P s" and c: "xinsts s e = Some c" "tt_tip c = Some old" "tip_isShown (xp s) c" "js_truthy (js_get (tt_cfg c) ''animation'')"
    and free: "due old (x_pending s) = []" "\<not> prevented_by h e (tip_eventName c ''hide'') (xp s)"
    and again: "tip_show json en h v e (tip_hide en h v e s) = (s2, None)" "xinsts s2 e = Some c2" "tt_tip c2 = Some new" "new \<noteq> old"
    and new: "new \<notin> P"
    and t: "t = tip_step json en h v s2 (TipTransitionEnd old)"
  shows "tip_isShown (xp s2) c2 \<and> (\<exists>c3. xinsts t e = Some c3 \<and> tt_tip c3 = None) \<and> \<not> in_page (xp t) new
    \<and> getAttribute (xp t) e ''aria-describedby'' = None"
proof -
  let ?s1 = "tip_hide en h v e s"
  let ?c1 = "c\<lparr>tt_click := False, tt_focus := False, tt_hover := False, tt_isHovered := None\<rparr>"
  have s1: "xinsts ?s1 e = Some ?c1" "x_pending ?s1 = x_pending s @ [(old, TipHidden e)]"
    using c free by (simp_all add: tip_hide_def Let_def tip_queue_def tip_isAnimated_def set_tip_def)
  have sh: "tip_shows e new ?c1 ?s1 s2" by (rule show_shows [OF hide_ok [OF ok] s1(1) again(1-3)]) (use c again(4) in simp)
  then have c2: "tip_isShown (xp s2) c2" "\<not> isWithActiveTrigger c2" "tt_isHovered c2 \<noteq> Some True"
    using again(2) by (auto simp: tip_shows_def isWithActiveTrigger_def)
  have "due old (x_pending s2) = [TipHidden e]"
    using sh s1(2) free(1) again(4) by (auto simp: tip_shows_def due_def)
  then have t2: "t = tip_hidden en h e (s2\<lparr>x_pending := not_due old (x_pending s2)\<rparr>)" (is "_ = tip_hidden en h e ?s3")
    by (simp add: t tip_transition_end_def)
  have ok2: "tip_ok P s2" using show_ok [OF hide_ok [OF ok, of en h v e], of json en h v e] again(1) by (metis fst_conv)
  then have ok3: "tip_ok P ?s3" by (rule tip_ok_page) simp_all
  have "eid u \<in> set (preorder (prune A u))" for A u by (cases u) simp
  with ok2 new have root: "new \<noteq> eid (tree (xp s2))" unfolding tip_ok_def by blast
  have i3: "xinsts ?s3 e = Some c2" using again(2) by simp
  note d = dispose_effect [OF ok3 i3, of en]
  have "t = (disposePopper en e ?s3)\<lparr>xp := triggering h e (tip_eventName c2 ''hidden'') (removeAttribute e ''aria-describedby'' (xp (disposePopper en e ?s3)))\<rparr>"
    unfolding t2 tip_hidden_def i3 option.case Let_def using c2 by simp
  then show ?thesis using c2(1) d(2,3) again(3) root
    by (simp add: dom_simps pruned_absent)
qed

subsection \<open>Delays\<close>

text \<open>The pointer came and went: the tooltip is hidden, and the only timers left are those that hide it.\<close>

definition passed_by :: "elem \<Rightarrow> tips \<Rightarrow> bool" where
  "passed_by e s \<longleftrightarrow>
     (\<exists>c. xinsts s e = Some c \<and> tt_tip c = None \<and> tip_listens c ''mouseenter'' \<and> \<not> isWithActiveTrigger c \<and> tt_isHovered c \<noteq> Some True)
     \<and> (\<forall>x \<in> set (x_timers s). snd x = (e, LeaveTimer))"

lemma pass_again:
  assumes "passed_by e s"
  shows "passed_by e (foldl (tip_step json en h v) s [TipIn e e False, TipOut e e False None])
    \<and> xp (foldl (tip_step json en h v) s [TipIn e e False, TipOut e e False None]) = xp s"
proof -
  obtain c where c: "xinsts s e = Some c" "tt_tip c = None" "tip_listens c ''mouseenter''" "tt_isHovered c \<noteq> Some True" "\<not> tt_click c" "\<not> tt_focus c"
    using assms by (auto simp: passed_by_def isWithActiveTrigger_def)
  let ?n = "x_next s"
  let ?c1 = "c\<lparr>tt_hover := True, tt_isHovered := Some True, tt_timeout := Some ?n\<rparr>"
  let ?L = "filter (\<lambda>x. Some (fst x) \<noteq> tt_timeout c) (x_timers s)"
  define s1 where "s1 = tip_step json en h v s (TipIn e e False)"
  have s1: "s1 = (set_tip e ?c1 s)\<lparr>x_timers := ?L @ [(?n, e, EnterTimer)], x_next := Suc ?n\<rparr>"
    using c by (simp add: s1_def tip_in_handler_def initializeOnDelegatedTarget_def with_tip_def tip_enter_def tip_isShown_def tip_setTimeout_def set_tip_def Let_def)
  have out: "tip_listens ?c1 ''mouseleave''" "xinsts s1 e = Some ?c1" using c(3) by (simp_all add: tip_listens_def tip_triggers_def s1 set_tip_def)
  let ?c2 = "?c1\<lparr>tt_hover := False, tt_isHovered := Some False, tt_timeout := Some (Suc ?n)\<rparr>"
  have s2: "tip_step json en h v s1 (TipOut e e False None)
      = (set_tip e ?c2 s1)\<lparr>x_timers := filter (\<lambda>x. fst x \<noteq> ?n) (x_timers s1) @ [(Suc ?n, e, LeaveTimer)], x_next := Suc (x_next s1)\<rparr>"
    using c(5,6) out by (simp add: tip_out_handler_def initializeOnDelegatedTarget_def with_tip_def tip_leave_def tip_setTimeout_def set_tip_def isWithActiveTrigger_def)
      (simp add: s1)
  have "tip_listens ?c2 ''mouseenter''" using c(3) by (simp add: tip_listens_def tip_triggers_def)
  then show ?thesis using assms c unfolding foldl.simps s1_def [symmetric] s2
    by (auto simp: s1 passed_by_def set_tip_def isWithActiveTrigger_def)
qed


subsection \<open>Options that markup cannot set\<close>

lemma assign_distinct: "distinct (map fst acc) \<Longrightarrow> distinct (map fst (assign acc kvs))"
  by (induction acc kvs rule: assign.induct) (simp_all add: distinct_update)

lemma map_of_rev_distinct: "distinct (map fst xs) \<Longrightarrow> map_of (rev xs) = map_of xs"
  by (metis distinct_rev map_of_inject_set rev_map set_rev)

lemma update_if_other: "k' \<noteq> k \<Longrightarrow> js_get (update_if k' f c) k = js_get c k"
  by (simp add: update_if_def js_get_def update_conv')

text \<open>
  C37: Markup cannot switch the sanitizer off.  Whatever attributes the element has, \<open>data-bs-config\<close>
  included, the options \<open>sanitize\<close>, \<open>allowList\<close> and \<open>sanitizeFn\<close> of a tooltip or popover are those of
  the script that made it, or the defaults.
\<close>

theorem sanitizer_options_not_from_markup:
  assumes "tip_getConfig json en h v p kind e config = Inr c" and k: "k = ''sanitize'' \<or> k = ''allowList'' \<or> k = ''sanitizeFn''"
  shows "js_get c k = js_get (assign (assign [] (kind_default kind)) (if typeof_object config then spread_entries config else [])) k"
proof -
  define own where "own = (if typeof_object config then spread_entries config else [])"
  define attrs where "attrs = filter (\<lambda>x. fst x \<notin> set DISALLOWED_ATTRIBUTES) (getDataAttributes json p (Some e))"
  have "distinct (map fst (getDataAttributes json p (Some e)))" by (simp add: getDataAttributes_def assign_distinct)
  then have "distinct (map fst attrs)" unfolding attrs_def by (rule distinct_map_filter)
  then have given: "map_of (rev (assign attrs own)) = map_of attrs ++ map_of (rev own)"
    by (simp only: map_of_rev_distinct [OF assign_distinct] map_of_assign)
  have none: "map_of attrs k = None" using k by (auto simp: attrs_def map_of_eq_None_iff DISALLOWED_ATTRIBUTES_def)
  have merged: "js_get (tip_config json p kind e config) k = js_get (assign (assign [] (kind_default kind)) own) k"
    unfolding tip_config_def Let_def attrs_def [symmetric] own_def [symmetric] mergeConfigObj_def js_get_def
    by (simp add: map_of_assign given) (simp only: map_add_def none option.case)
  have "k \<noteq> ''container''" "k \<noteq> ''delay''" "k \<noteq> ''title''" "k \<noteq> ''content''" using k by auto
  then have after: "js_get (tip_configAfterMerge en x d) k = js_get d k" for x d
    unfolding tip_configAfterMerge_def by (simp add: update_if_other) (simp add: js_get_def update_conv')
  have "\<exists>x. c = tip_configAfterMerge en x (tip_config json p kind e config)"
    using assms(1) by (auto simp: tip_getConfig_def Let_def split: option.splits sum.splits)
  then show ?thesis using after merged unfolding own_def by auto
qed

section \<open>Witnesses\<close>

lemma show_succeeds:
  assumes c: "xinsts s e = Some c" and "getStyle (xp s) e ''display'' \<noteq> ''none''" "tip_isWithContent en (xp s) e c" "tt_isEnabled c"
    and "\<not> prevented_by h e (tip_eventName c ''show'') (xp s)" "te_shadow en e"
    and make: "createTipElement json en h e (case tt_newContent c of Some x \<Rightarrow> x | None \<Rightarrow>
        getContentForTemplate en (xp (disposePopper en e (s\<lparr>xp := triggering h e (tip_eventName c ''show'') (xp s)\<rparr>))) e c)
        (c\<lparr>tt_popper := None, tt_tip := None\<rparr>) (disposePopper en e (s\<lparr>xp := triggering h e (tip_eventName c ''show'') (xp s)\<rparr>)) = (s3, Inr (Some k))"
    and d: "xinsts s3 e = Some d" "tip_attachment en h e d = Some a"
  shows "\<exists>s'. tip_show json en h v e s = (s', None) \<and> tip_shows e (eid k) d s3 s'"
proof -
  have "tip_show json en h v e s = show_tip en h v e k s3" unfolding tip_show_def c option.case Let_def using assms by simp
  with show_tip_shows [OF d] show ?thesis by simp
qed

definition tip_page :: page where
  "tip_page = \<lparr>tree = Elem 0 [Elem 2 [Elem 4 [], Elem 10 []]],
     nodes = (\<lambda>e. \<lparr>tagName = if e = 4 then ''A'' else ''DIV'', classList = (if e = 10 then [''tooltip'', ''fade'', ''show''] else []),
       attributes = (if e = 10 then [(''id'', ''tooltip77'')] else if e = 4 then [(''aria-describedby'', ''tooltip77'')] else []),
       style = (\<lambda>_. []), textContent = []\<rparr>),
     focused = None, ev_log = []\<rparr>"

definition tip_demo_host :: host where
  "tip_demo_host = scroll_host\<lparr>parse_sel := \<lambda>t. Some [[[SelClass (tl t)]]]\<rparr>"

text \<open>A parser that knows the template of tooltips only.\<close>

definition tip_demo_tpl :: tpl_host where
  "tip_demo_tpl = \<lparr>parse_fragment = (\<lambda>_ n. ([Elem n [Elem (n + 2) []]],
       [(n, empty_div\<lparr>classList := [''tooltip'']\<rparr>), (n + 2, empty_div\<lparr>classList := [''tooltip-inner'']\<rparr>)], n + 3)),
     to_text = (\<lambda>_. []), call_fn = (\<lambda>_. JUndef),
     sanitizer = \<lparr>parseFromString = (\<lambda>_. tip_page), html_body = (\<lambda>_. 2), innerHTML = (\<lambda>_ _. ''<div></div>''), call_sanitizer = (\<lambda>_ t. t)\<rparr>\<rparr>"

definition tip_demo_env :: tip_env where
  "tip_demo_env = \<lparr>te_dd = dd_demo_host, te_tpl = tip_demo_tpl, te_call = (\<lambda>_ _. JUndef), te_shadow = (\<lambda>_. True), te_draws = (\<lambda>_. [5])\<rparr>"

definition tip_inst :: "elem option \<Rightarrow> tooltip" where
  "tip_inst t = \<lparr>tt_kind = TooltipKind, tt_isEnabled = True, tt_timeout = None, tt_isHovered = Some False, tt_click = False, tt_focus = False, tt_hover = False,
     tt_popper = None, tt_factory = None, tt_newContent = None, tt_tip = t, tt_cfg = assign tip_default [(''title'', JStr ''Save''), (''sanitize'', JBool False)],
     tt_container = 2, tt_allowList = []\<rparr>"

definition tip_state :: "elem option \<Rightarrow> tips" where
  "tip_state t = \<lparr>xp = tip_page, xinsts = (\<lambda>x. if x = 4 then Some (tip_inst t) else None), x_pending = [], x_timers = [], x_next = 7, x_fresh = 20,
     x_noops = [], x_modals = []\<rparr>"

theorem tips_leave_nothing_witness:
  "set (preorder (prune (tip_elems (foldl (tip_step (\<lambda>_. None) tip_demo_env tip_demo_host scroll_view) (tip_state None) [CallShow 4, TipTransitionEnd 21, CallHide 4]))
      (tree (xp (foldl (tip_step (\<lambda>_. None) tip_demo_env tip_demo_host scroll_view) (tip_state None) [CallShow 4, TipTransitionEnd 21, CallHide 4])))))
    \<subseteq> {0, 2, 4, 10}"
proof -
  define t where "t = foldl (tip_step (\<lambda>_. None) tip_demo_env tip_demo_host scroll_view) (tip_state None) [CallShow 4, TipTransitionEnd 21, CallHide 4]"
  have "tt_tip c = None \<and> tt_popper c = None" if "xinsts (tip_state None) e = Some c" for e c
    using that by (auto simp: tip_state_def tip_inst_def split: if_splits)
  from tips_leave_nothing [OF this t_def] show ?thesis unfolding t_def [symmetric] by (simp add: tip_state_def tip_page_def)
qed


abbreviation tip_hiding :: tips where
  "tip_hiding \<equiv> tip_hide tip_demo_env tip_demo_host scroll_view 4 (tip_state (Some 10))"

definition tip_hiding_inst :: tooltip where
  "tip_hiding_inst = (tip_inst (Some 10))\<lparr>tt_isHovered := None\<rparr>"

lemma hiding_facts:
  shows "xinsts tip_hiding 4 = Some tip_hiding_inst" "getStyle (xp tip_hiding) 4 ''display'' \<noteq> ''none''"
    "tip_isWithContent tip_demo_env (xp tip_hiding) 4 tip_hiding_inst"
    "\<not> prevented_by tip_demo_host 4 (tip_eventName tip_hiding_inst ''show'') (xp tip_hiding)"
proof -
  show "xinsts tip_hiding 4 = Some tip_hiding_inst"
    by (simp add: tip_hide_def tip_state_def tip_isShown_def tip_inst_def tip_page_def has_class_def tip_demo_host_def scroll_host_def Let_def
      tip_queue_def tip_isAnimated_def set_tip_def tip_hiding_inst_def trigger_def tip_default_def js_get_def)
qed code_simp+

theorem late_hide_removes_new_tip_witness:
  "\<exists>s2 c2 new. tip_show (\<lambda>_. None) tip_demo_env tip_demo_host scroll_view 4 tip_hiding = (s2, None) \<and> xinsts s2 4 = Some c2 \<and> tt_tip c2 = Some new
     \<and> tip_isShown (xp s2) c2 \<and> \<not> in_page (xp (tip_step (\<lambda>_. None) tip_demo_env tip_demo_host scroll_view s2 (TipTransitionEnd 10))) new"
proof -
  let ?s1 = "disposePopper tip_demo_env 4 (tip_hiding\<lparr>xp := triggering tip_demo_host 4 (tip_eventName tip_hiding_inst ''show'') (xp tip_hiding)\<rparr>)"
  let ?new = "\<lambda>r. case r of (s3, Inr (Some k)) \<Rightarrow> eid k = 21 \<and>
      (case xinsts s3 4 of Some d \<Rightarrow> tip_attachment tip_demo_env tip_demo_host 4 d \<noteq> None | None \<Rightarrow> False) | _ \<Rightarrow> False"
  have "?new (createTipElement (\<lambda>_. None) tip_demo_env tip_demo_host 4 (getContentForTemplate tip_demo_env (xp ?s1) 4 tip_hiding_inst)
      (tip_hiding_inst\<lparr>tt_popper := None, tt_tip := None\<rparr>) ?s1)" by code_simp
  then obtain s3 k d a where k: "createTipElement (\<lambda>_. None) tip_demo_env tip_demo_host 4 (getContentForTemplate tip_demo_env (xp ?s1) 4 tip_hiding_inst)
      (tip_hiding_inst\<lparr>tt_popper := None, tt_tip := None\<rparr>) ?s1 = (s3, Inr (Some k))" "eid k = 21"
    and d: "xinsts s3 4 = Some d" "tip_attachment tip_demo_env tip_demo_host 4 d = Some a"
    by (fastforce split: prod.splits sum.splits option.splits)
  have "\<exists>s2. tip_show (\<lambda>_. None) tip_demo_env tip_demo_host scroll_view 4 tip_hiding = (s2, None) \<and> tip_shows 4 (eid k) d s3 s2"
    by (rule show_succeeds [OF hiding_facts(1-3) _ hiding_facts(4) _ _ d]) (use k in \<open>simp_all add: tip_hiding_inst_def tip_inst_def tip_demo_env_def\<close>)
  then obtain s2 c2 where s2: "tip_show (\<lambda>_. None) tip_demo_env tip_demo_host scroll_view 4 tip_hiding = (s2, None)" "xinsts s2 4 = Some c2" "tt_tip c2 = Some 21"
    using k(2) by (auto simp: tip_shows_def)
  have c: "xinsts (tip_state (Some 10)) 4 = Some (tip_inst (Some 10))" "tt_tip (tip_inst (Some 10)) = Some 10" "due 10 (x_pending (tip_state (Some 10))) = []"
    by (simp_all add: tip_state_def tip_inst_def due_def)
  have "tip_elems (tip_state (Some 10)) = {10}" by (auto simp: tip_elems_def tip_state_def tip_inst_def split: if_splits)
  then have ok: "tip_ok {0, 2, 4} (tip_state (Some 10))"
    by (auto simp: tip_ok_def tip_fits_def tip_state_def tip_inst_def tip_page_def split: if_splits)
  have "tip_isShown (xp (tip_state (Some 10))) (tip_inst (Some 10))" "js_truthy (js_get (tt_cfg (tip_inst (Some 10))) ''animation'')"
    "\<not> prevented_by tip_demo_host 4 (tip_eventName (tip_inst (Some 10)) ''hide'') (xp (tip_state (Some 10)))" by code_simp+
  from late_hide_removes_new_tip [OF ok c(1,2) this(1,2) c(3) this(3) s2 _ _ refl] s2 show ?thesis by auto
qed

text \<open>An element whose markup asks for no sanitizer.\<close>

definition unsafe_page :: page where
  "unsafe_page = tip_page\<lparr>nodes := \<lambda>e. (nodes tip_page e)\<lparr>attributes := [(''data-bs-sanitize'', ''false''), (''data-bs-title'', ''x'')]\<rparr>\<rparr>"

theorem sanitizer_options_not_from_markup_witness:
  "\<exists>c. tip_getConfig (\<lambda>_. None) tip_demo_env tip_demo_host scroll_view unsafe_page TooltipKind 4 (JObj []) = Inr c
     \<and> js_get c ''title'' = JStr ''x'' \<and> js_get c ''sanitize'' = JBool True"
proof -
  have "case tip_getConfig (\<lambda>_. None) tip_demo_env tip_demo_host scroll_view unsafe_page TooltipKind 4 (JObj []) of
      Inr c \<Rightarrow> js_get c ''title'' = JStr ''x'' | Inl _ \<Rightarrow> False" by code_simp
  then obtain c where c: "tip_getConfig (\<lambda>_. None) tip_demo_env tip_demo_host scroll_view unsafe_page TooltipKind 4 (JObj []) = Inr c" "js_get c ''title'' = JStr ''x''"
    by (auto split: sum.splits)
  have "js_get (assign (assign [] (kind_default TooltipKind)) (if typeof_object (JObj []) then spread_entries (JObj []) else [])) ''sanitize'' = JBool True"
    by code_simp
  then show ?thesis using c sanitizer_options_not_from_markup [OF c(1)] by auto
qed

end
