(* ===== verification/Ticker.thy ===== *)
theory Ticker
  imports Dom
begin

text \<open>
  The live-feed script of the public site, \<open>EliteEvents.Web/wwwroot/js/ticker.js\<close>: it caps the
  number of rows of the ticker and shows whether the event stream is connected.  htmx performs
  the swap before it fires \<open>htmx:sseMessage\<close>; the swap is a parameter of the runs below.
\<close>

section \<open>The script\<close>

definition MAX_ROWS :: nat where
  "MAX_ROWS = 40"

definition getElementById :: "page \<Rightarrow> string \<Rightarrow> elem option" where
  "getElementById p i = first_of (filter (\<lambda>e. getAttribute p e ''id'' = Some i) (preorder (tree p)))"

text \<open>The loop that drops \<open>lastElementChild\<close> while there are too many rows.\<close>

function trim_rows :: "elem \<Rightarrow> page \<Rightarrow> page" where
  "trim_rows t p =
     (if length (children p t) > MAX_ROWS
      then trim_rows t (removeChild t (last (children p t)) p) else p)"
  by pat_completeness auto
termination
proof (relation "measure (\<lambda>(t, p). length (children p t))", goal_cases)
  case 1
  show ?case by simp
next
  case (2 t p)
  then have "children p t \<noteq> []" by (auto simp: MAX_ROWS_def)
  then have "last (children p t) \<in> set (children p t)" by simp
  then show ?case
    by (auto simp: children_removeChild length_filter_less)
qed

declare trim_rows.simps [simp del]

definition trim :: "page \<Rightarrow> page" where
  "trim p =
     (case getElementById p ''ticker'' of
        None \<Rightarrow> p
      | Some t \<Rightarrow>
          let q = trim_rows t p in
          (case getElementById q ''ticker-empty'' of
             None \<Rightarrow> q
           | Some em \<Rightarrow> if length (children q t) > 0 then remove_el em q else q))"

text \<open>Assigning \<open>className\<close> replaces the whole class list.\<close>

definition status :: "bool \<Rightarrow> page \<Rightarrow> page" where
  "status connected p =
     (let q = (case getElementById p ''sse-status'' of
                 None \<Rightarrow> p
               | Some dot \<Rightarrow> upd_node dot (\<lambda>n. n\<lparr>classList := [''dot'', if connected then ''on'' else ''off'']\<rparr>) p)
      in (case getElementById p ''sse-status-text'' of
            None \<Rightarrow> q
          | Some txt \<Rightarrow> upd_node txt (\<lambda>n. n\<lparr>textContent := (if connected then ''connected'' else ''offline'')\<rparr>) q))"

datatype sse_event = SseMessage | SseOpen | SseError

definition on_sse_event :: "sse_event \<Rightarrow> page \<Rightarrow> page" where
  "on_sse_event ev p =
     (case ev of SseMessage \<Rightarrow> trim p | SseOpen \<Rightarrow> status True p | SseError \<Rightarrow> status False p)"

text \<open>A feed: every message is a swap by htmx followed by the listener.\<close>

fun ticker_run :: "(page \<Rightarrow> page) list \<Rightarrow> page \<Rightarrow> page" where
  "ticker_run [] p = p"
| "ticker_run (swap # swaps) p = ticker_run swaps (on_sse_event SseMessage (swap p))"

section \<open>The rows that stay\<close>

text \<open>With distinct row elements, dropping the last child is \<open>butlast\<close>.\<close>

lemma filter_last: "distinct xs \<Longrightarrow> xs \<noteq> [] \<Longrightarrow> filter (\<lambda>x. x \<noteq> last xs) xs = butlast xs"
  by (induction xs rule: rev_induct) (auto intro: filter_True)

lemma children_trim_rows:
  "distinct (children p t) \<Longrightarrow> children (trim_rows t p) t = take MAX_ROWS (children p t)"
proof (induction t p rule: trim_rows.induct)
  case (1 t p)
  show ?case
  proof (cases "length (children p t) > MAX_ROWS")
    case True
    let ?q = "removeChild t (last (children p t)) p"
    from True have "children p t \<noteq> []" by auto
    with 1(2) have q: "children ?q t = butlast (children p t)"
      by (simp add: children_removeChild filter_last)
    with 1 True have "children (trim_rows t ?q) t = take MAX_ROWS (butlast (children p t))"
      by (simp add: distinct_butlast)
    also have "\<dots> = take MAX_ROWS (children p t)" using True by (simp add: take_butlast)
    finally show ?thesis using True by (subst trim_rows.simps) simp
  next
    case False
    then show ?thesis by (subst trim_rows.simps) simp
  qed
qed

lemma length_trim_rows: "length (children (trim_rows t p) t) \<le> MAX_ROWS"
proof (induction t p rule: trim_rows.induct)
  case (1 t p)
  then show ?case by (cases "length (children p t) > MAX_ROWS") (subst trim_rows.simps, simp)+
qed

lemma children_trim_rows_subset: "set (children (trim_rows t p) t) \<subseteq> set (children p t)"
proof (induction t p rule: trim_rows.induct)
  case (1 t p)
  then show ?case
    by (cases "length (children p t) > MAX_ROWS")
      (auto simp: trim_rows.simps [of t p] children_removeChild)
qed

lemma chain_trim_rows: "chain t (tree (trim_rows t p)) = chain t (tree p)"
proof (induction t p rule: trim_rows.induct)
  case (1 t p)
  then show ?case
    by (cases "length (children p t) > MAX_ROWS")
      (subst trim_rows.simps, simp add: removeChild_def chain_upd_kids)+
qed

lemma preorder_trim_rows: "set (preorder (tree (trim_rows t p))) \<subseteq> set (preorder (tree p))"
proof (induction t p rule: trim_rows.induct)
  case (1 t p)
  have "set (preorder (tree (removeChild t c p))) \<subseteq> set (preorder (tree p))" for c
    by (simp add: removeChild_def preorder_upd_kids)
  with 1 show ?case
    by (cases "length (children p t) > MAX_ROWS") (subst trim_rows.simps, force)+
qed

lemma nodes_trim_rows [simp]: "nodes (trim_rows t p) = nodes p"
proof (induction t p rule: trim_rows.induct)
  case (1 t p)
  then show ?case
    by (cases "length (children p t) > MAX_ROWS")
      (subst trim_rows.simps, simp add: removeChild_def)+
qed

text \<open>The placeholder of the page stands beside the ticker, as in \<open>Home.razor\<close>.\<close>

definition placeholder_outside :: "page \<Rightarrow> elem \<Rightarrow> bool" where
  "placeholder_outside p t =
     list_all (\<lambda>em. getAttribute p em ''id'' = Some ''ticker-empty'' \<longrightarrow>
                em \<notin> set (chain t (tree p)) \<and> em \<notin> set (children p t)) (preorder (tree p))"

lemma getElementById_SomeD:
  "getElementById p i = Some e \<Longrightarrow> e \<in> set (preorder (tree p)) \<and> getAttribute p e ''id'' = Some i"
proof -
  assume "getElementById p i = Some e"
  then have "e \<in> set (filter (\<lambda>e. getAttribute p e ''id'' = Some i) (preorder (tree p)))"
    by (auto simp: getElementById_def first_of_def simp del: set_filter split: list.splits)
  then show ?thesis by simp
qed

lemma children_trim:
  assumes t: "getElementById p ''ticker'' = Some t" and out: "placeholder_outside p t"
  shows "children (trim p) t = children (trim_rows t p) t"
proof (cases "getElementById (trim_rows t p) ''ticker-empty''")
  case None
  with t show ?thesis by (simp add: trim_def Let_def)
next
  case (Some em)
  let ?q = "trim_rows t p"
  from getElementById_SomeD [OF Some]
  have "em \<in> set (preorder (tree p))" "getAttribute p em ''id'' = Some ''ticker-empty''"
    using preorder_trim_rows [of t p] by (auto simp: getAttribute_def)
  with out have em: "em \<notin> set (chain t (tree p))" "em \<notin> set (children p t)"
    by (auto simp: placeholder_outside_def list_all_iff)
  from em children_trim_rows_subset [of t p] have "children (remove_el em ?q) t = children ?q t"
    by (subst children_remove_el) (auto simp: chain_trim_rows intro!: filter_True)
  with t Some show ?thesis by (simp add: trim_def Let_def)
qed

text \<open>
  After \<open>trim\<close> the ticker holds exactly its first forty rows in their old order.  New rows
  are swapped in at the front, so the rows kept are the newest ones.
\<close>

theorem trim_keeps_first_rows:
  assumes "getElementById p ''ticker'' = Some t" and "placeholder_outside p t"
    and "distinct (children p t)"
  shows "children (trim p) t = take MAX_ROWS (children p t)"
  using assms by (simp add: children_trim children_trim_rows)

text \<open>A concrete page: the ticker with three rows and the placeholder beside it.\<close>

definition plain_node :: "string \<Rightarrow> node" where
  "plain_node i = \<lparr>tagName = ''DIV'', classList = [], attributes = [(''id'', i)],
     style = (\<lambda>_. ''''), textContent = ''''\<rparr>"

definition demo_page :: page where
  "demo_page = \<lparr>tree = Elem 0 [Elem 5 [Elem 10 [], Elem 11 [], Elem 12 []], Elem 6 []],
     nodes = (\<lambda>e. plain_node (if e = 5 then ''ticker'' else if e = 6 then ''ticker-empty'' else '''')),
     focused = None, ev_log = []\<rparr>"

lemma demo_page_facts:
  "getElementById demo_page ''ticker'' = Some 5" "placeholder_outside demo_page 5"
  "children demo_page 5 = [10, 11, 12]"
  by (simp_all add: demo_page_def getElementById_def first_of_def getAttribute_def plain_node_def
      placeholder_outside_def children_def Let_def)

theorem trim_keeps_first_rows_witness:
  "getElementById demo_page ''ticker'' = Some 5 \<and> placeholder_outside demo_page 5
   \<and> children (trim demo_page) 5 = [10, 11, 12]"
  using trim_keeps_first_rows [of demo_page 5] demo_page_facts by (simp add: MAX_ROWS_def)

text \<open>
  C2: whatever htmx swaps in, after every message of a feed the ticker holds at most forty rows,
  so a page left open does not grow without bound.
\<close>

theorem ticker_run_bounded:
  assumes "\<And>q. q = last_swap (ticker_run swaps p) \<Longrightarrow>
      getElementById q ''ticker'' = Some t \<and> placeholder_outside q t"
  shows "length (children (ticker_run (swaps @ [last_swap]) p) t) \<le> MAX_ROWS"
proof -
  have "ticker_run (swaps @ [last_swap]) p = trim (last_swap (ticker_run swaps p))"
    by (induction swaps arbitrary: p) (simp_all add: on_sse_event_def)
  with assms show ?thesis by (simp add: children_trim length_trim_rows)
qed

theorem ticker_run_bounded_witness:
  "length (children (ticker_run ([] @ [id]) demo_page) 5) \<le> MAX_ROWS"
  by (rule ticker_run_bounded) (simp add: demo_page_facts)

text \<open>A whole stream of events, handled in order.\<close>

definition feed :: "sse_event list \<Rightarrow> page \<Rightarrow> page" where
  "feed evs p = foldl (\<lambda>q e. on_sse_event e q) p evs"

lemma feed_snoc: "feed (evs @ [ev]) p = on_sse_event ev (feed evs p)"
  by (simp add: feed_def)

lemma status_effect:
  assumes dot: "getElementById q ''sse-status'' = Some dot"
    and lbl: "getElementById q ''sse-status-text'' = Some label"
  shows "classList (nodes (status c q) dot) = [''dot'', if c then ''on'' else ''off'']"
    and "textContent (nodes (status c q) label) = (if c then ''connected'' else ''offline'')"
proof -
  have "dot \<noteq> label"
    using getElementById_SomeD [OF dot] getElementById_SomeD [OF lbl] by auto
  with dot lbl show "classList (nodes (status c q) dot) = [''dot'', if c then ''on'' else ''off'']"
    and "textContent (nodes (status c q) label) = (if c then ''connected'' else ''offline'')"
    by (simp_all add: status_def dom_simps Let_def)
qed

text \<open>
  The status line follows the stream.  After any feed of stream events that ends with an open
  or an error event, the dot and its label show the state of that last event.
\<close>

theorem status_shows_last_event:
  assumes "getElementById (feed evs p) ''sse-status'' = Some dot"
    and "getElementById (feed evs p) ''sse-status-text'' = Some label"
    and "ev \<noteq> SseMessage"
  shows "classList (nodes (feed (evs @ [ev]) p) dot) = [''dot'', if ev = SseOpen then ''on'' else ''off'']
     \<and> textContent (nodes (feed (evs @ [ev]) p) label) = (if ev = SseOpen then ''connected'' else ''offline'')"
  using assms by (cases ev) (simp_all add: feed_snoc on_sse_event_def status_effect)

definition demo_status_page :: page where
  "demo_status_page = \<lparr>tree = Elem 0 [Elem 7 [], Elem 8 []],
     nodes = (\<lambda>e. plain_node (if e = 7 then ''sse-status'' else if e = 8 then ''sse-status-text'' else '''')),
     focused = None, ev_log = []\<rparr>"

lemma demo_status_page_facts:
  "getElementById (feed [] demo_status_page) ''sse-status'' = Some 7"
  "getElementById (feed [] demo_status_page) ''sse-status-text'' = Some 8"
  by (simp_all add: demo_status_page_def getElementById_def first_of_def getAttribute_def plain_node_def
      feed_def)

theorem status_shows_last_event_witness:
  "classList (nodes (feed [SseError] demo_status_page) 7) = [''dot'', ''off'']
   \<and> textContent (nodes (feed [SseError] demo_status_page) 8) = ''offline''"
  using status_shows_last_event [OF demo_status_page_facts, of SseError] by simp

end
