(* ===== verification/Sse.thy ===== *)
theory Sse
  imports Prelude
begin

text \<open>
  htmx's server-sent-events extension as the site ships it,
  \<open>EliteEvents.Web/wwwroot/lib/htmx/sse.js\<close>.  It opens one \<open>EventSource\<close> per element with an
  \<open>sse-connect\<close> attribute, attaches listeners for \<open>sse-swap\<close> and \<open>hx-trigger\<close> elements to
  the closest source, and reconnects with a doubling delay.

  The htmx core (attribute lookup, trigger specifications, swapping) is minified and enters as
  the record \<open>sse_api\<close>.  The function-local \<open>retryCount\<close> that the \<open>onerror\<close> and \<open>onopen\<close>
  closures of one source share is a field of the source.
\<close>

section \<open>State\<close>

datatype ready_state = Connecting | Open | Closed

datatype sse_listener =
    SwapListener elem elem string       \<comment> \<open>\<open>elt\<close>, \<open>sourceElement\<close>, \<open>sseEventName\<close>\<close>
  | TriggerListener elem elem string    \<comment> \<open>\<open>elt\<close>, \<open>sourceElement\<close>, \<open>ts.trigger\<close>\<close>
  | CloseListener elem                  \<comment> \<open>the \<open>sse-close\<close> listener of \<open>elt\<close>\<close>

record event_source =
  src_url :: string
  readyState :: ready_state
  src_elt :: elem
  retryCount :: "nat option"            \<comment> \<open>\<open>undefined\<close> before the first retry\<close>
  src_listeners :: "(string \<times> sse_listener) list"

type_synonym source_id = nat

text \<open>What the extension does to the page: events fired on elements and content handed to htmx's swap, in order.\<close>

datatype sse_effect = Fired elem string | Swapped elem string

record sse_state =
  sources :: "event_source list"        \<comment> \<open>every \<open>EventSource\<close> ever created, by id\<close>
  sseEventSource :: "elem \<Rightarrow> source_id option"
  in_body :: "elem \<Rightarrow> bool"
  timers :: "(nat \<times> elem \<times> nat) list"   \<comment> \<open>pending timeouts: delay, \<open>elt\<close>, \<open>retryCount\<close>\<close>
  effects :: "sse_effect list"

definition triggered :: "sse_state \<Rightarrow> (elem \<times> string) list" where
  "triggered s = List.map_filter (\<lambda>x. case x of Fired e n \<Rightarrow> Some (e, n) | Swapped _ _ \<Rightarrow> None) (effects s)"

definition swapped :: "sse_state \<Rightarrow> (elem \<times> string) list" where
  "swapped s = List.map_filter (\<lambda>x. case x of Swapped e c \<Rightarrow> Some (e, c) | Fired _ _ \<Rightarrow> None) (effects s)"

record sse_api =
  getAttributeValue :: "elem \<Rightarrow> string \<Rightarrow> string option"
  ancestry :: "elem \<Rightarrow> elem list"        \<comment> \<open>the element and its ancestors, as \<open>getClosestMatch\<close> walks them\<close>
  getTriggerSpecs :: "elem \<Rightarrow> string list"
  allows_message :: "elem \<Rightarrow> bool"      \<comment> \<open>no \<open>htmx:sseBeforeMessage\<close> listener cancelled it\<close>
  childrenToFix :: "elem \<Rightarrow> elem list"

text \<open>
  \<open>init\<close>: the public constructor of sources is set unless the page has set one; what the sources below
  do is the default's.
\<close>

definition init :: "(string \<Rightarrow> 'src) \<Rightarrow> (string \<Rightarrow> 'src) option \<Rightarrow> (string \<Rightarrow> 'src) option" where
  "init create current = (case current of None \<Rightarrow> Some create | Some f \<Rightarrow> Some f)"

definition getSelectors :: "string list" where
  "getSelectors = [''[sse-connect]'', ''[data-sse-connect]'', ''[sse-swap]'', ''[data-sse-swap]'']"

definition truthy :: "string option \<Rightarrow> bool" where
  "truthy v = (case v of None \<Rightarrow> False | Some s \<Rightarrow> s \<noteq> [])"

definition upd_source :: "source_id \<Rightarrow> (event_source \<Rightarrow> event_source) \<Rightarrow> sse_state \<Rightarrow> sse_state" where
  "upd_source i f s = s\<lparr>sources := (sources s)[i := f (sources s ! i)]\<rparr>"

definition close_source :: "source_id \<Rightarrow> sse_state \<Rightarrow> sse_state" where
  "close_source i = upd_source i (\<lambda>src. src\<lparr>readyState := Closed\<rparr>)"

definition api_trigger :: "elem \<Rightarrow> string \<Rightarrow> sse_state \<Rightarrow> sse_state" where
  "api_trigger e name s = s\<lparr>effects := effects s @ [Fired e name]\<rparr>"

definition addEventListener :: "source_id \<Rightarrow> string \<Rightarrow> sse_listener \<Rightarrow> sse_state \<Rightarrow> sse_state" where
  "addEventListener i name l = upd_source i (\<lambda>src. src\<lparr>src_listeners := src_listeners src @ [(name, l)]\<rparr>)"

definition removeEventListener :: "source_id \<Rightarrow> string \<Rightarrow> sse_listener \<Rightarrow> sse_state \<Rightarrow> sse_state" where
  "removeEventListener i name l =
     upd_source i (\<lambda>src. src\<lparr>src_listeners := filter (\<lambda>x. x \<noteq> (name, l)) (src_listeners src)\<rparr>)"

section \<open>The extension\<close>

definition hasEventSource :: "sse_state \<Rightarrow> elem \<Rightarrow> bool" where
  "hasEventSource s node = (sseEventSource s node \<noteq> None)"

definition closest_source :: "sse_api \<Rightarrow> sse_state \<Rightarrow> elem \<Rightarrow> elem option" where
  "closest_source api s elt = List.find (hasEventSource s) (ancestry api elt)"

text \<open>\<open>maybeCloseSSESource\<close>: close the source of an element that left the document.\<close>

definition maybeCloseSSESource :: "elem \<Rightarrow> sse_state \<Rightarrow> bool \<times> sse_state" where
  "maybeCloseSSESource elt s =
     (if \<not> in_body s elt then
        (case sseEventSource s elt of
           Some i \<Rightarrow> (True, close_source i (api_trigger elt ''htmx:sseClose'' s))
         | None \<Rightarrow> (False, s))
      else (False, s))"

text \<open>\<open>swap\<close>: the content goes through the extensions' \<open>transformResponse\<close> into htmx's swap.\<close>

definition swap :: "elem \<Rightarrow> string \<Rightarrow> sse_state \<Rightarrow> sse_state" where
  "swap elt content s = s\<lparr>effects := effects s @ [Swapped elt content]\<rparr>"

text \<open>\<open>registerSSE\<close>: the \<open>sse-swap\<close> names, then the \<open>sse:\<close> triggers; \<open>return null\<close> for an orphan.\<close>

definition swap_names :: "string \<Rightarrow> string list" where
  "swap_names a = map str_trim (split_on (CHR '','') a)"

fun add_swap_listeners :: "elem \<Rightarrow> elem \<Rightarrow> source_id \<Rightarrow> string list \<Rightarrow> sse_state \<Rightarrow> sse_state" where
  "add_swap_listeners elt se i [] s = s"
| "add_swap_listeners elt se i (n # ns) s =
     add_swap_listeners elt se i ns (addEventListener i n (SwapListener elt se n) s)"

fun add_trigger_listeners :: "elem \<Rightarrow> elem \<Rightarrow> source_id \<Rightarrow> string list \<Rightarrow> sse_state \<Rightarrow> sse_state" where
  "add_trigger_listeners elt se i [] s = s"
| "add_trigger_listeners elt se i (t # ts) s =
     add_trigger_listeners elt se i ts
       (if take 4 t \<noteq> ''sse:'' then s else addEventListener i (drop 4 t) (TriggerListener elt se t) s)"

definition register_triggers :: "sse_api \<Rightarrow> elem \<Rightarrow> sse_state \<Rightarrow> sse_state" where
  "register_triggers api elt s =
     (if truthy (getAttributeValue api elt ''hx-trigger'') then
        (case closest_source api s elt of
           None \<Rightarrow> s
         | Some se \<Rightarrow> add_trigger_listeners elt se (the (sseEventSource s se)) (getTriggerSpecs api elt) s)
      else s)"

definition registerSSE :: "sse_api \<Rightarrow> elem \<Rightarrow> sse_state \<Rightarrow> sse_state" where
  "registerSSE api elt s =
     (case getAttributeValue api elt ''sse-swap'' of
        Some a \<Rightarrow>
          if a \<noteq> [] then
            (case closest_source api s elt of
               None \<Rightarrow> s
             | Some se \<Rightarrow> register_triggers api elt
                 (add_swap_listeners elt se (the (sseEventSource s se)) (swap_names a) s))
          else register_triggers api elt s
      | None \<Rightarrow> register_triggers api elt s)"

text \<open>\<open>ensureEventSource\<close>: a new source with fresh \<open>onerror\<close>/\<open>onopen\<close> closures.\<close>

definition createEventSource :: "string \<Rightarrow> elem \<Rightarrow> nat option \<Rightarrow> event_source" where
  "createEventSource url elt rc =
     \<lparr>src_url = url, readyState = Connecting, src_elt = elt, retryCount = rc, src_listeners = []\<rparr>"

definition ensureEventSource :: "sse_api \<Rightarrow> elem \<Rightarrow> string \<Rightarrow> nat option \<Rightarrow> sse_state \<Rightarrow> sse_state" where
  "ensureEventSource api elt url rc s =
     (let i = length (sources s);
          s1 = s\<lparr>sources := sources s @ [createEventSource url elt rc],
                 sseEventSource := (sseEventSource s)(elt := Some i)\<rparr>
      in (case getAttributeValue api elt ''sse-close'' of
            Some c \<Rightarrow> if c \<noteq> [] then addEventListener i c (CloseListener elt) s1 else s1
          | None \<Rightarrow> s1))"

definition ensureEventSourceOnElement :: "sse_api \<Rightarrow> elem \<Rightarrow> nat option \<Rightarrow> sse_state \<Rightarrow> sse_state" where
  "ensureEventSourceOnElement api elt rc s =
     registerSSE api elt
       (case getAttributeValue api elt ''sse-connect'' of
          Some url \<Rightarrow> if url \<noteq> [] then ensureEventSource api elt url rc s else s
        | None \<Rightarrow> s)"

text \<open>The next \<open>retryCount\<close> and the delay of \<open>onerror\<close>.\<close>

definition next_retry :: "nat option \<Rightarrow> nat" where
  "next_retry rc = max (min ((case rc of None \<Rightarrow> 0 | Some n \<Rightarrow> n) * 2) 128) 1"

definition onerror :: "source_id \<Rightarrow> sse_state \<Rightarrow> sse_state" where
  "onerror i s =
     (let src = sources s ! i; elt = src_elt src;
          s1 = api_trigger elt ''htmx:sseError'' s;
          (closed, s2) = maybeCloseSSESource elt s1
      in if closed then s2
         else if readyState src = Closed then
           (let rc = next_retry (retryCount src)
            in (upd_source i (\<lambda>x. x\<lparr>retryCount := Some rc\<rparr>) s2)\<lparr>timers := timers s2 @ [(rc * 500, elt, rc)]\<rparr>)
         else s2)"

definition onopen :: "sse_api \<Rightarrow> source_id \<Rightarrow> sse_state \<Rightarrow> sse_state" where
  "onopen api i s =
     (let src = sources s ! i; elt = src_elt src;
          s1 = api_trigger elt ''htmx:sseOpen'' s
      in (case retryCount src of
            Some n \<Rightarrow> if n > 0
              then upd_source i (\<lambda>x. x\<lparr>retryCount := Some 0\<rparr>) (foldl (\<lambda>t c. registerSSE api c t) s1 (childrenToFix api elt))
              else s1
          | None \<Rightarrow> s1))"

text \<open>The bodies of the three kinds of listener, for one message of source \<open>i\<close>.\<close>

definition call_listener :: "sse_api \<Rightarrow> source_id \<Rightarrow> string \<Rightarrow> sse_listener \<Rightarrow> sse_state \<Rightarrow> sse_state" where
  "call_listener api i data l s =
     (case l of
        SwapListener elt se n \<Rightarrow>
          (let (closed, s1) = maybeCloseSSESource se s
           in if closed then s1
              else if \<not> in_body s1 elt then removeEventListener i n l s1
              else if \<not> allows_message api elt then api_trigger elt ''htmx:sseBeforeMessage'' s1
              else api_trigger elt ''htmx:sseMessage'' (swap elt data (api_trigger elt ''htmx:sseBeforeMessage'' s1)))
      | TriggerListener elt se t \<Rightarrow>
          (let (closed, s1) = maybeCloseSSESource se s
           in if closed then s1
              else (let s2 = (if \<not> in_body s1 elt then removeEventListener i (drop 4 t) l s1 else s1)
                    in api_trigger elt ''htmx:sseMessage'' (api_trigger elt t s2)))
      | CloseListener elt \<Rightarrow> close_source i (api_trigger elt ''htmx:sseClose'' s))"

text \<open>A message of type \<open>name\<close> on source \<open>i\<close>: its listeners run in the order they were added.\<close>

definition deliver :: "sse_api \<Rightarrow> source_id \<Rightarrow> string \<Rightarrow> string \<Rightarrow> sse_state \<Rightarrow> sse_state" where
  "deliver api i name data s =
     foldl (\<lambda>t l. call_listener api i data l t) s
       (map snd (filter (\<lambda>x. fst x = name) (src_listeners (sources s ! i))))"

text \<open>\<open>onEvent\<close>: cleaning up an element closes its source, processing it opens one.\<close>

definition onEvent :: "sse_api \<Rightarrow> string \<Rightarrow> elem \<Rightarrow> sse_state \<Rightarrow> sse_state" where
  "onEvent api name parent s =
     (if name = ''htmx:beforeCleanupElement'' then
        (case sseEventSource s parent of
           Some i \<Rightarrow> close_source i (api_trigger parent ''htmx:sseClose'' s)
         | None \<Rightarrow> s)
      else if name = ''htmx:afterProcessNode'' then ensureEventSourceOnElement api parent None s
      else s)"

section \<open>What the operations leave alone\<close>

lemma upd_source_frame [simp]:
  "sseEventSource (upd_source i f s) = sseEventSource s" "in_body (upd_source i f s) = in_body s"
  "timers (upd_source i f s) = timers s" "length (sources (upd_source i f s)) = length (sources s)"
  "effects (upd_source i f s) = effects s" "triggered (upd_source i f s) = triggered s" "swapped (upd_source i f s) = swapped s"
  by (simp_all add: upd_source_def triggered_def swapped_def)

lemma sources_upd_source:
  "j < length (sources s) \<Longrightarrow>
   sources (upd_source i f s) ! j = (if j = i then f (sources s ! j) else sources s ! j)"
  by (auto simp: upd_source_def nth_list_update)

lemma api_trigger_frame [simp]:
  "sources (api_trigger e n s) = sources s" "sseEventSource (api_trigger e n s) = sseEventSource s"
  "in_body (api_trigger e n s) = in_body s" "timers (api_trigger e n s) = timers s"
  "effects (api_trigger e n s) = effects s @ [Fired e n]" "swapped (api_trigger e n s) = swapped s"
  "triggered (api_trigger e n s) = triggered s @ [(e, n)]"
  by (simp_all add: api_trigger_def swapped_def triggered_def map_filter_def)

text \<open>
  Registering listeners touches nothing but the listener lists of sources: \<open>same_but_listeners\<close>
  is what the reconnection argument needs of it.
\<close>

definition bare :: "event_source \<Rightarrow> event_source" where
  "bare src = src\<lparr>src_listeners := []\<rparr>"

definition same_but_listeners :: "sse_state \<Rightarrow> sse_state \<Rightarrow> bool" where
  "same_but_listeners s t =
     (sseEventSource t = sseEventSource s \<and> in_body t = in_body s \<and> timers t = timers s
      \<and> effects t = effects s \<and> map bare (sources t) = map bare (sources s))"

lemma same_but_listeners_refl [simp]: "same_but_listeners s s"
  by (simp add: same_but_listeners_def)

lemma same_but_listeners_trans:
  "same_but_listeners s t \<Longrightarrow> same_but_listeners t u \<Longrightarrow> same_but_listeners s u"
  by (simp add: same_but_listeners_def)

lemma map_bare_update:
  assumes "\<And>x. bare (f x) = bare x"
  shows "map bare (xs[i := f (xs ! i)]) = map bare xs"
proof (cases "i < length xs")
  case True
  then have "map bare (xs[i := f (xs ! i)]) = (map bare xs)[i := map bare xs ! i]"
    by (simp add: map_update assms)
  then show ?thesis by (simp only: list_update_id)
next
  case False
  then show ?thesis by (simp add: list_update_beyond)
qed

lemma same_add: "same_but_listeners s t \<Longrightarrow> same_but_listeners s (addEventListener i n l t)"
  by (simp add: same_but_listeners_def addEventListener_def)
    (simp add: upd_source_def map_bare_update bare_def)

lemma same_add_swap: "same_but_listeners s t \<Longrightarrow> same_but_listeners s (add_swap_listeners e se i ns t)"
  by (induction ns arbitrary: t) (auto intro: same_add)

lemma same_add_trigger: "same_but_listeners s t \<Longrightarrow> same_but_listeners s (add_trigger_listeners e se i ts t)"
  by (induction ts arbitrary: t) (auto intro: same_add)

lemma same_register_triggers: "same_but_listeners s t \<Longrightarrow> same_but_listeners s (register_triggers api e t)"
  by (auto simp: register_triggers_def split: option.splits intro: same_add_trigger)

lemma same_registerSSE: "same_but_listeners s t \<Longrightarrow> same_but_listeners s (registerSSE api e t)"
  by (auto simp: registerSSE_def split: option.splits intro!: same_register_triggers intro: same_add_swap)

lemma same_but_listeners_field:
  assumes "same_but_listeners s t"
  shows "length (sources t) = length (sources s)"
    and "i < length (sources s) \<Longrightarrow> retryCount (sources t ! i) = retryCount (sources s ! i)"
    and "i < length (sources s) \<Longrightarrow> src_elt (sources t ! i) = src_elt (sources s ! i)"
    and "i < length (sources s) \<Longrightarrow> readyState (sources t ! i) = readyState (sources s ! i)"
proof -
  have m: "map bare (sources t) = map bare (sources s)"
    using assms by (simp add: same_but_listeners_def)
  show l: "length (sources t) = length (sources s)"
    using arg_cong [OF m, of length] by simp
  have b: "i < length (sources s) \<Longrightarrow> bare (sources t ! i) = bare (sources s ! i)"
    using arg_cong [OF m, of "\<lambda>xs. xs ! i"] l by simp
  show "i < length (sources s) \<Longrightarrow> retryCount (sources t ! i) = retryCount (sources s ! i)"
    and "i < length (sources s) \<Longrightarrow> src_elt (sources t ! i) = src_elt (sources s ! i)"
    and "i < length (sources s) \<Longrightarrow> readyState (sources t ! i) = readyState (sources s ! i)"
    using b by (auto simp: bare_def dest: arg_cong [of _ _ retryCount] arg_cong [of _ _ src_elt]
        arg_cong [of _ _ readyState])
qed

section \<open>Reconnecting with a doubling delay\<close>

text \<open>
  One failed attempt: the network closes the current source of \<open>elt\<close>, \<open>onerror\<close> runs, and the
  timeout it set fires.
\<close>

definition fail_once :: "elem \<Rightarrow> sse_state \<Rightarrow> sse_state" where
  "fail_once elt s = (let i = the (sseEventSource s elt) in onerror i (close_source i s))"

definition fire_last_timer :: "sse_api \<Rightarrow> sse_state \<Rightarrow> sse_state" where
  "fire_last_timer api s =
     (case last (timers s) of (d, elt, rc) \<Rightarrow>
        ensureEventSourceOnElement api elt (Some rc) (s\<lparr>timers := butlast (timers s)\<rparr>))"

fun fail_times :: "sse_api \<Rightarrow> elem \<Rightarrow> nat \<Rightarrow> sse_state \<Rightarrow> sse_state" where
  "fail_times api elt 0 s = s"
| "fail_times api elt (Suc n) s = fire_last_timer api (fail_once elt (fail_times api elt n s))"

text \<open>\<open>elt\<close> is in the document, asks for a stream and has a source of its own.\<close>

definition streaming :: "sse_api \<Rightarrow> elem \<Rightarrow> sse_state \<Rightarrow> bool" where
  "streaming api elt s =
     (truthy (getAttributeValue api elt ''sse-connect'') \<and> in_body s elt \<and>
      (case sseEventSource s elt of None \<Rightarrow> False
       | Some i \<Rightarrow> i < length (sources s) \<and> src_elt (sources s ! i) = elt))"

definition retry_of :: "elem \<Rightarrow> sse_state \<Rightarrow> nat option" where
  "retry_of elt s = retryCount (sources s ! the (sseEventSource s elt))"

lemma fail_once_timer:
  assumes "streaming api elt s"
  shows "timers (fail_once elt s) = timers s @ [(next_retry (retry_of elt s) * 500, elt, next_retry (retry_of elt s))]"
    and "in_body (fail_once elt s) = in_body s"
proof -
  obtain i where i: "sseEventSource s elt = Some i" "i < length (sources s)" "src_elt (sources s ! i) = elt"
    and b: "in_body s elt"
    using assms by (auto simp: streaming_def split: option.splits)
  have src: "sources (close_source i s) ! i = (sources s ! i)\<lparr>readyState := Closed\<rparr>"
    using i(2) by (simp add: close_source_def sources_upd_source)
  have "in_body (api_trigger elt ''htmx:sseError'' (close_source i s)) elt"
    using b by (simp add: close_source_def)
  then have m: "maybeCloseSSESource elt (api_trigger elt ''htmx:sseError'' (close_source i s))
      = (False, api_trigger elt ''htmx:sseError'' (close_source i s))"
    by (simp add: maybeCloseSSESource_def)
  show "timers (fail_once elt s) = timers s @ [(next_retry (retry_of elt s) * 500, elt, next_retry (retry_of elt s))]"
    and "in_body (fail_once elt s) = in_body s"
    using i src m by (simp_all add: fail_once_def onerror_def Let_def retry_of_def close_source_def)
qed

lemma ensureEventSourceOnElement_new:
  assumes "truthy (getAttributeValue api elt ''sse-connect'')" and "in_body s elt"
  shows "streaming api elt (ensureEventSourceOnElement api elt rc s)"
    and "retry_of elt (ensureEventSourceOnElement api elt rc s) = rc"
    and "timers (ensureEventSourceOnElement api elt rc s) = timers s"
proof -
  from assms(1) obtain url where url: "getAttributeValue api elt ''sse-connect'' = Some url" "url \<noteq> []"
    by (auto simp: truthy_def split: option.splits)
  let ?i = "length (sources s)"
  let ?t = "ensureEventSource api elt url rc s"
  have t: "sseEventSource ?t elt = Some ?i" "length (sources ?t) = Suc ?i" "in_body ?t = in_body s"
      "timers ?t = timers s" "retryCount (sources ?t ! ?i) = rc" "src_elt (sources ?t ! ?i) = elt"
    by (auto simp: ensureEventSource_def Let_def addEventListener_def sources_upd_source nth_append
        createEventSource_def split: option.splits)
  let ?u = "registerSSE api elt ?t"
  have same: "same_but_listeners ?t ?u" by (rule same_registerSSE) simp
  have u: "ensureEventSourceOnElement api elt rc s = ?u"
    using url by (simp add: ensureEventSourceOnElement_def)
  have f: "sseEventSource ?u = sseEventSource ?t" "in_body ?u = in_body ?t" "timers ?u = timers ?t"
    using same by (simp_all add: same_but_listeners_def)
  show "streaming api elt (ensureEventSourceOnElement api elt rc s)"
    and "retry_of elt (ensureEventSourceOnElement api elt rc s) = rc"
    and "timers (ensureEventSourceOnElement api elt rc s) = timers s"
    using u f t same_but_listeners_field [OF same] assms by (simp_all add: streaming_def retry_of_def)
qed

lemma fail_times_streaming:
  assumes "streaming api elt s"
  shows "streaming api elt (fail_times api elt n s) \<and>
    retry_of elt (fail_times api elt (Suc n) s) = Some (next_retry (retry_of elt (fail_times api elt n s)))
    \<and> in_body (fail_times api elt n s) elt"
proof (induction n)
  case 0
  have c: "truthy (getAttributeValue api elt ''sse-connect'')" "in_body s elt"
    using assms by (auto simp: streaming_def)
  note f = fail_once_timer [OF assms]
  from ensureEventSourceOnElement_new(2) [OF c(1), of "(fail_once elt s)\<lparr>timers := timers s\<rparr>"] f c assms
  show ?case by (simp add: fire_last_timer_def)
next
  case (Suc n)
  let ?s = "fail_times api elt n s" and ?t = "fail_times api elt (Suc n) s"
  from Suc have s: "streaming api elt ?s" "in_body ?s elt" by auto
  have c: "truthy (getAttributeValue api elt ''sse-connect'')" using assms by (auto simp: streaming_def)
  note f = fail_once_timer [OF s(1)]
  have t: "?t = ensureEventSourceOnElement api elt (Some (next_retry (retry_of elt ?s)))
      ((fail_once elt ?s)\<lparr>timers := timers ?s\<rparr>)"
    using f by (simp add: fire_last_timer_def)
  have st: "streaming api elt ?t"
    using ensureEventSourceOnElement_new(1) [OF c, of "(fail_once elt ?s)\<lparr>timers := timers ?s\<rparr>"] f s t by simp
  then have ib: "in_body ?t elt" by (simp add: streaming_def)
  note g = fail_once_timer [OF st]
  have "retry_of elt (fire_last_timer api (fail_once elt ?t)) = Some (next_retry (retry_of elt ?t))"
    using ensureEventSourceOnElement_new(2) [OF c, of "(fail_once elt ?t)\<lparr>timers := timers ?t\<rparr>"] g ib
    by (simp add: fire_last_timer_def)
  with st ib show ?case by simp
qed

lemma next_retry_pow: "next_retry (Some (min (2 ^ n) 128)) = min (2 ^ Suc n) 128"
proof -
  have "1 \<le> x \<Longrightarrow> max (min (min x 128 * 2) 128) 1 = min (2 * x) 128" for x :: nat
    by (auto simp: min_def max_def)
  from this [of "2 ^ n"] show ?thesis by (simp add: next_retry_def)
qed

lemma retry_after:
  assumes "streaming api elt s" and "retry_of elt s = None \<or> retry_of elt s = Some 0"
  shows "retry_of elt (fail_times api elt (Suc n) s) = Some (min (2 ^ n) 128)"
proof (induction n)
  case 0
  with fail_times_streaming [OF assms(1), of 0] assms(2) show ?case
    by (auto simp: next_retry_def)
next
  case (Suc n)
  with fail_times_streaming [OF assms(1), of "Suc n"] show ?case
    by (simp only: next_retry_pow)
qed

text \<open>
  C3: consecutive failures back off exponentially up to a bound.  From a fresh or an opened stream,
  the delay after the \<open>n\<close>-th failure in a row is \<open>500 * min (2 ^ (n - 1)) 128\<close> milliseconds, so
  it never exceeds 64 seconds, and the element still has exactly one current source afterwards.
\<close>

theorem reconnect_backoff:
  assumes "streaming api elt s" and "retry_of elt s = None \<or> retry_of elt s = Some 0"
  shows "fst (last (timers (fail_once elt (fail_times api elt n s)))) = 500 * min (2 ^ n) 128
     \<and> streaming api elt (fail_times api elt (Suc n) s)"
proof -
  have st: "streaming api elt (fail_times api elt k s)" for k
    using fail_times_streaming [OF assms(1)] by blast
  have "next_retry (retry_of elt (fail_times api elt n s)) = min (2 ^ n) 128"
  proof (cases n)
    case 0
    with assms(2) show ?thesis by (auto simp: next_retry_def)
  next
    case (Suc m)
    have "retry_of elt (fail_times api elt n s) = Some (min (2 ^ m) 128)"
      using retry_after [OF assms] Suc by simp
    then show ?thesis using Suc by (simp only: next_retry_pow)
  qed
  with fail_once_timer(1) [OF st [of n]] have "fst (last (timers (fail_once elt (fail_times api elt n s)))) = 500 * min (2 ^ n) 128"
    by simp
  with st [of "Suc n"] show ?thesis by blast
qed

definition demo_api :: sse_api where
  "demo_api = \<lparr>getAttributeValue = (\<lambda>e a.
       if e = 5 \<and> a = ''sse-connect'' then Some ''/api/stream''
       else if e = 6 \<and> a = ''sse-swap'' then Some ''ticker'' else None),
     ancestry = (\<lambda>e. if e = 6 then [6, 5] else [e]), getTriggerSpecs = (\<lambda>_. []),
     allows_message = (\<lambda>_. True), childrenToFix = (\<lambda>e. if e = 5 then [6] else [])\<rparr>"

definition demo_sse :: sse_state where
  "demo_sse = \<lparr>sources = [createEventSource ''/api/stream'' 5 None],
     sseEventSource = (\<lambda>e. if e = 5 then Some 0 else None), in_body = (\<lambda>_. True),
     timers = [], effects = []\<rparr>"

lemma demo_streaming: "streaming demo_api 5 demo_sse" "retry_of 5 demo_sse = None"
  by (simp_all add: streaming_def retry_of_def demo_api_def demo_sse_def truthy_def createEventSource_def)

theorem reconnect_backoff_witness:
  "fst (last (timers (fail_once 5 (fail_times demo_api 5 3 demo_sse)))) = 4000"
  using reconnect_backoff [OF demo_streaming(1), of 3] demo_streaming(2) by simp

section \<open>Subscribing again after a reconnect\<close>

lemma addEventListener_listeners:
  assumes "i < length (sources s)"
  shows "src_listeners (sources (addEventListener i n l s) ! i) = src_listeners (sources s ! i) @ [(n, l)]"
  using assms by (simp add: addEventListener_def sources_upd_source)

lemma addEventListener_other:
  assumes "j < length (sources s)"
  shows "set (src_listeners (sources s ! j)) \<subseteq> set (src_listeners (sources (addEventListener i n l s) ! j))"
  using assms by (auto simp: addEventListener_def sources_upd_source)

lemma length_addEventListener [simp]: "length (sources (addEventListener i n l s)) = length (sources s)"
  by (simp add: addEventListener_def)

lemma add_swap_listeners_mono:
  "j < length (sources s) \<Longrightarrow>
   set (src_listeners (sources s ! j)) \<subseteq> set (src_listeners (sources (add_swap_listeners e se i ns s) ! j))"
proof (induction ns arbitrary: s)
  case Nil
  then show ?case by simp
next
  case (Cons n ns)
  from addEventListener_other [OF Cons.prems] Cons.IH [of "addEventListener i n (SwapListener e se n) s"] Cons.prems
  show ?case by (simp, blast)
qed

lemma add_trigger_listeners_mono:
  "j < length (sources s) \<Longrightarrow>
   set (src_listeners (sources s ! j)) \<subseteq> set (src_listeners (sources (add_trigger_listeners e se i ts s) ! j))"
proof (induction ts arbitrary: s)
  case Nil
  then show ?case by simp
next
  case (Cons t ts)
  from addEventListener_other [OF Cons.prems] Cons.IH [of "addEventListener i (drop 4 t) (TriggerListener e se t) s"]
    Cons.IH [OF Cons.prems] Cons.prems
  show ?case by (cases "take 4 t = ''sse:''") (simp_all, blast)
qed

lemma length_add_swap_listeners [simp]: "length (sources (add_swap_listeners e se i ns s)) = length (sources s)"
  by (induction ns arbitrary: s) simp_all

lemma add_swap_listeners_adds:
  assumes "i < length (sources s)" and "n \<in> set ns"
  shows "(n, SwapListener e se n) \<in> set (src_listeners (sources (add_swap_listeners e se i ns s) ! i))"
  using assms
proof (induction ns arbitrary: s)
  case Nil
  then show ?case by simp
next
  case (Cons m ns)
  let ?t = "addEventListener i m (SwapListener e se m) s"
  have l: "i < length (sources ?t)" using Cons.prems by (simp add: addEventListener_def)
  show ?case
  proof (cases "n = m")
    case True
    then have "(n, SwapListener e se n) \<in> set (src_listeners (sources ?t ! i))"
      using Cons.prems by (simp add: addEventListener_listeners)
    with add_swap_listeners_mono [OF l, of e se i ns] show ?thesis by auto
  next
    case False
    with Cons l show ?thesis by simp
  qed
qed

lemma sseEventSource_add_swap [simp]:
  "sseEventSource (add_swap_listeners e se i ns s) = sseEventSource s"
  using same_add_swap [of s s] by (simp add: same_but_listeners_def)

lemma register_triggers_mono:
  "j < length (sources s) \<Longrightarrow>
   set (src_listeners (sources s ! j)) \<subseteq> set (src_listeners (sources (register_triggers api e s) ! j))"
  using add_trigger_listeners_mono by (auto simp: register_triggers_def split: option.splits)

lemma registerSSE_mono:
  assumes "j < length (sources s)"
  shows "set (src_listeners (sources s ! j)) \<subseteq> set (src_listeners (sources (registerSSE api e s) ! j))"
proof -
  have "set (src_listeners (sources s ! j)) \<subseteq>
      set (src_listeners (sources (register_triggers api e (add_swap_listeners e se i ns s)) ! j))" for se i ns
    using add_swap_listeners_mono [OF assms, of e se i ns]
      register_triggers_mono [of j "add_swap_listeners e se i ns s" api e] assms by simp
  with register_triggers_mono [OF assms] show ?thesis
    by (auto simp: registerSSE_def split: option.splits)
qed

lemma registerSSE_adds:
  assumes "getAttributeValue api c ''sse-swap'' = Some a" "a \<noteq> []"
    and "closest_source api s c = Some se" and "sseEventSource s se = Some i" and "i < length (sources s)"
    and "n \<in> set (swap_names a)"
  shows "(n, SwapListener c se n) \<in> set (src_listeners (sources (registerSSE api c s) ! i))"
proof -
  let ?t = "add_swap_listeners c se i (swap_names a) s"
  have "(n, SwapListener c se n) \<in> set (src_listeners (sources ?t ! i))"
    using assms(5,6) by (rule add_swap_listeners_adds)
  with register_triggers_mono [of i ?t api c] assms(5)
  have "(n, SwapListener c se n) \<in> set (src_listeners (sources (register_triggers api c ?t) ! i))"
    by auto
  with assms(1-4) show ?thesis by (simp add: registerSSE_def)
qed

lemma foldl_registerSSE:
  "same_but_listeners s (foldl (\<lambda>t c. registerSSE api c t) s cs) \<and>
   (i < length (sources s) \<longrightarrow> set (src_listeners (sources s ! i)) \<subseteq>
      set (src_listeners (sources (foldl (\<lambda>t c. registerSSE api c t) s cs) ! i)))"
proof (induction cs rule: rev_induct)
  case Nil
  then show ?case by simp
next
  case (snoc c cs)
  let ?t = "foldl (\<lambda>t c. registerSSE api c t) s cs"
  from snoc have same: "same_but_listeners s ?t" by simp
  from registerSSE_mono [of i ?t api c] same_but_listeners_field(1) [OF same] snoc same_registerSSE [OF same]
  show ?case by auto
qed

lemma closest_source_cong: "sseEventSource t = sseEventSource s \<Longrightarrow> closest_source api t c = closest_source api s c"
proof -
  assume "sseEventSource t = sseEventSource s"
  then have "hasEventSource t = hasEventSource s" by (auto simp: hasEventSource_def)
  then show ?thesis by (simp add: closest_source_def)
qed

lemma closest_source_same: "same_but_listeners s t \<Longrightarrow> closest_source api t c = closest_source api s c"
  by (rule closest_source_cong) (simp add: same_but_listeners_def)

lemma foldl_registerSSE_adds:
  assumes "c \<in> set cs"
    and "getAttributeValue api c ''sse-swap'' = Some a" "a \<noteq> []"
    and "closest_source api s c = Some se" and "sseEventSource s se = Some i" and "i < length (sources s)"
    and "n \<in> set (swap_names a)"
  shows "(n, SwapListener c se n) \<in> set (src_listeners (sources (foldl (\<lambda>t c. registerSSE api c t) s cs) ! i))"
proof -
  from assms(1) obtain xs ys where cs: "cs = xs @ c # ys" by (auto dest: split_list)
  let ?t = "foldl (\<lambda>t c. registerSSE api c t) s xs"
  have same: "same_but_listeners s ?t" using foldl_registerSSE by blast
  then have t: "closest_source api ?t c = Some se" "sseEventSource ?t se = Some i" "i < length (sources ?t)"
    using assms closest_source_same [OF same] same_but_listeners_field(1) [OF same]
    by (auto simp: same_but_listeners_def)
  have "(n, SwapListener c se n) \<in> set (src_listeners (sources (registerSSE api c ?t) ! i))"
    using registerSSE_adds [OF assms(2,3) t assms(7)] .
  moreover have "i < length (sources (registerSSE api c ?t))"
    using same_but_listeners_field(1) [OF same_registerSSE [OF same_but_listeners_refl]] t(3) by metis
  ultimately show ?thesis
    using foldl_registerSSE [of "registerSSE api c ?t" api ys i] cs by auto
qed

text \<open>
  C4: after a reconnect the page is subscribed again.  When a source opened by a retry comes up, every
  descendant with an \<open>sse-swap\<close> attribute listens on that new source for each of the events it names,
  and the delay counter is back at zero.
\<close>

theorem onopen_resubscribes:
  assumes "i < length (sources s)" and "retryCount (sources s ! i) = Some k" and "k > 0"
    and "sseEventSource s (src_elt (sources s ! i)) = Some i"
    and "c \<in> set (childrenToFix api (src_elt (sources s ! i)))"
    and "getAttributeValue api c ''sse-swap'' = Some a" and "a \<noteq> []"
    and "closest_source api s c = Some (src_elt (sources s ! i))"
    and "n \<in> set (swap_names a)"
  shows "(n, SwapListener c (src_elt (sources s ! i)) n) \<in> set (src_listeners (sources (onopen api i s) ! i))
     \<and> retryCount (sources (onopen api i s) ! i) = Some 0"
proof -
  let ?elt = "src_elt (sources s ! i)"
  let ?s1 = "api_trigger ?elt ''htmx:sseOpen'' s"
  let ?t = "foldl (\<lambda>t c. registerSSE api c t) ?s1 (childrenToFix api ?elt)"
  have c: "closest_source api ?s1 c = Some ?elt"
    using assms(8) closest_source_cong [of ?s1 s] by simp
  have l: "length (sources ?t) = length (sources s)"
    using same_but_listeners_field(1) [of ?s1 ?t] foldl_registerSSE [of ?s1] by simp
  have "(n, SwapListener c ?elt n) \<in> set (src_listeners (sources ?t ! i))"
    using assms c by (intro foldl_registerSSE_adds) simp_all
  with assms(1-3) l show ?thesis
    by (simp add: onopen_def Let_def sources_upd_source)
qed

lemma demo_resubscribe:
  "closest_source demo_api (fail_times demo_api 5 1 demo_sse) 6 = Some 5"
  "sources (fail_times demo_api 5 1 demo_sse) =
     [\<lparr>src_url = ''/api/stream'', readyState = Closed, src_elt = 5, retryCount = Some 1, src_listeners = []\<rparr>,
      \<lparr>src_url = ''/api/stream'', readyState = Connecting, src_elt = 5, retryCount = Some 1, src_listeners = []\<rparr>]"
  "sseEventSource (fail_times demo_api 5 1 demo_sse) 5 = Some 1"
  by code_simp+

theorem onopen_resubscribes_witness:
  "(''ticker'', SwapListener 6 5 ''ticker'') \<in>
     set (src_listeners (sources (onopen demo_api 1 (fail_times demo_api 5 1 demo_sse)) ! 1))"
proof -
  let ?s = "fail_times demo_api 5 1 demo_sse"
  have "''ticker'' \<in> set (swap_names ''ticker'')" by code_simp
  with onopen_resubscribes [of 1 ?s 1 6 demo_api "''ticker''" "''ticker''"] demo_resubscribe
  show ?thesis by (simp add: demo_api_def)
qed

section \<open>Messages for elements that have left the document\<close>

text \<open>
  C5: a message never reaches a page region that is gone.  If the element that owns the stream has
  left the document, delivering a message to a swap listener closes the stream and swaps nothing; if
  only the listening element has left, the listener unsubscribes itself and swaps nothing.
\<close>

theorem swap_listener_detached:
  assumes "\<not> in_body s se \<and> sseEventSource s se \<noteq> None \<or> in_body s se \<and> \<not> in_body s elt"
    and "i < length (sources s)"
  shows "swapped (call_listener api i d (SwapListener elt se n) s) = swapped s
    \<and> (\<not> in_body s se \<longrightarrow> (\<exists>j. sseEventSource s se = Some j \<and>
         (j < length (sources s) \<longrightarrow> readyState (sources (call_listener api i d (SwapListener elt se n) s) ! j) = Closed)))
    \<and> (in_body s se \<longrightarrow> (n, SwapListener elt se n) \<notin>
         set (src_listeners (sources (call_listener api i d (SwapListener elt se n) s) ! i)))"
  using assms
  by (auto simp: call_listener_def maybeCloseSSESource_def close_source_def sources_upd_source
      removeEventListener_def split: option.splits)

definition detached_sse :: sse_state where
  "detached_sse = demo_sse\<lparr>in_body := (\<lambda>e. e \<noteq> 5)\<rparr>"

theorem swap_listener_detached_witness:
  "swapped (call_listener demo_api 0 ''x'' (SwapListener 6 5 ''ticker'') detached_sse) = []
   \<and> readyState (sources (call_listener demo_api 0 ''x'' (SwapListener 6 5 ''ticker'') detached_sse) ! 0) = Closed"
  using swap_listener_detached [of detached_sse 5 6 0 demo_api "''x''" "''ticker''"]
  by (simp add: detached_sse_def demo_sse_def swapped_def map_filter_def)

text \<open>
  The \<open>hx-trigger\<close> listener does not stop there.  When its element has left the document it
  unsubscribes, and still fires the trigger and \<open>htmx:sseMessage\<close> on the detached element: unlike the
  swap listener it does not return after \<open>removeEventListener\<close>.
\<close>

theorem trigger_listener_fires_detached:
  assumes "in_body s se" and "\<not> in_body s elt"
  shows "triggered (call_listener api i d (TriggerListener elt se t) s)
    = triggered s @ [(elt, t), (elt, ''htmx:sseMessage'')]"
  using assms
  by (simp add: call_listener_def maybeCloseSSESource_def removeEventListener_def)

theorem trigger_listener_fires_detached_witness:
  "triggered (call_listener demo_api 0 ''x'' (TriggerListener 6 5 ''sse:tick'') (demo_sse\<lparr>in_body := (\<lambda>e. e = 5)\<rparr>))
    = [(6, ''sse:tick''), (6, ''htmx:sseMessage'')]"
  using trigger_listener_fires_detached [of "demo_sse\<lparr>in_body := (\<lambda>e. e = 5)\<rparr>" 5 6 demo_api 0 "''x''" "''sse:tick''"]
  by (simp add: demo_sse_def triggered_def map_filter_def)

end
