(* ===== verification/Live_Feed.thy ===== *)
theory Live_Feed
  imports Ticker Sse
begin

text \<open>
  The live feed of the start page: the event-stream extension \<open>sse.js\<close> and the script \<open>ticker.js\<close> on one
  page.  The extension swaps the row of a message into the ticker and then fires \<open>htmx:sseMessage\<close>,
  which the listener of the script on the body answers by trimming.  htmx's swap is a parameter; what
  is relied on is stated as \<open>afterbegin\<close>, the value of \<open>hx-swap\<close> in \<open>Home.razor\<close>.
\<close>

section \<open>The two scripts on one page\<close>

record live =
  lv_sse :: sse_state
  lv_page :: page

text \<open>Events bubble from their element to the body \<open>b\<close>, where the listeners of the script are.\<close>

fun see :: "(elem \<Rightarrow> string \<Rightarrow> page \<Rightarrow> page) \<Rightarrow> elem \<Rightarrow> page \<Rightarrow> sse_effect \<Rightarrow> page" where
  "see sw b p (Swapped e c) = sw e c p"
| "see sw b p (Fired e n) =
     (if \<not> contains p b e then p
      else if n = ''htmx:sseMessage'' then on_sse_event SseMessage p
      else if n = ''htmx:sseOpen'' then on_sse_event SseOpen p
      else if n = ''htmx:sseError'' then on_sse_event SseError p
      else p)"

text \<open>One step of the extension, with \<open>bodyContains\<close> read off the page, and what the page makes of it.\<close>

definition live_step :: "(elem \<Rightarrow> string \<Rightarrow> page \<Rightarrow> page) \<Rightarrow> elem \<Rightarrow> (sse_state \<Rightarrow> sse_state) \<Rightarrow> live \<Rightarrow> live" where
  "live_step sw b f lv =
     (let s1 = f ((lv_sse lv)\<lparr>in_body := in_page (lv_page lv), effects := []\<rparr>)
      in \<lparr>lv_sse = s1, lv_page = foldl (see sw b) (lv_page lv) (effects s1)\<rparr>)"

text \<open>
  The events of the stream of \<open>se\<close>, on its current source: the browser sets \<open>readyState\<close> and calls the
  handlers.  After a fatal error the timer of \<open>onerror\<close> makes a new source.
\<close>

definition current :: "elem \<Rightarrow> live \<Rightarrow> source_id" where
  "current se lv = the (sseEventSource (lv_sse lv) se)"

definition live_open :: "sse_api \<Rightarrow> (elem \<Rightarrow> string \<Rightarrow> page \<Rightarrow> page) \<Rightarrow> elem \<Rightarrow> elem \<Rightarrow> live \<Rightarrow> live" where
  "live_open api sw b se lv =
     live_step sw b (\<lambda>s. onopen api (current se lv) (upd_source (current se lv) (\<lambda>x. x\<lparr>readyState := Open\<rparr>) s)) lv"

definition live_error :: "(elem \<Rightarrow> string \<Rightarrow> page \<Rightarrow> page) \<Rightarrow> elem \<Rightarrow> elem \<Rightarrow> live \<Rightarrow> live" where
  "live_error sw b se lv =
     live_step sw b (\<lambda>s. onerror (current se lv) (upd_source (current se lv) (\<lambda>x. x\<lparr>readyState := Connecting\<rparr>) s)) lv"

definition live_fatal :: "sse_api \<Rightarrow> (elem \<Rightarrow> string \<Rightarrow> page \<Rightarrow> page) \<Rightarrow> elem \<Rightarrow> elem \<Rightarrow> live \<Rightarrow> live" where
  "live_fatal api sw b se lv = live_step sw b (fire_last_timer api) (live_step sw b (fail_once se) lv)"

definition live_message :: "sse_api \<Rightarrow> (elem \<Rightarrow> string \<Rightarrow> page \<Rightarrow> page) \<Rightarrow> elem \<Rightarrow> elem \<Rightarrow> string \<Rightarrow> string \<Rightarrow> live \<Rightarrow> live" where
  "live_message api sw b se name data lv =
     foldl (\<lambda>u l. live_step sw b (call_listener api (current se lv) data l) u) lv
       (map snd (filter (\<lambda>x. fst x = name) (src_listeners (sources (lv_sse lv) ! current se lv))))"

section \<open>The rows of the ticker\<close>

definition row_texts :: "page \<Rightarrow> elem \<Rightarrow> string list" where
  "row_texts p t = map (\<lambda>e. textContent (nodes p e)) (children p t)"

text \<open>
  \<open>hx-swap="afterbegin"\<close>: the content becomes a new first child of the target, which shows the text of
  the message; all other elements stay where they are and as they are, and nothing in the
  new row has one of the ids the script looks for.
\<close>

definition feed_ids :: "string option set" where
  "feed_ids = {Some ''ticker'', Some ''ticker-empty'', Some ''sse-status'', Some ''sse-status-text''}"

definition afterbegin :: "(elem \<Rightarrow> string \<Rightarrow> page \<Rightarrow> page) \<Rightarrow> (string \<Rightarrow> string) \<Rightarrow> elem \<Rightarrow> bool" where
  "afterbegin sw text_of t \<longleftrightarrow>
     (\<forall>c p. in_page p t \<longrightarrow>
        (\<exists>r. children (sw t c p) t = r # children p t \<and> \<not> in_page p r \<and> textContent (nodes (sw t c p) r) = text_of c)
        \<and> (\<forall>e. in_page p e \<longrightarrow> chain e (tree (sw t c p)) = chain e (tree p) \<and> nodes (sw t c p) e = nodes p e)
        \<and> (\<forall>e. in_page (sw t c p) e \<and> \<not> in_page p e \<longrightarrow>
             getAttribute (sw t c p) e ''id'' \<notin> feed_ids))"

text \<open>
  The page of the feed: one ticker \<open>t\<close> and the element \<open>se\<close> that owns the stream inside the body \<open>b\<close>, the
  label \<open>l\<close> of the status line, neither of the two below the ticker, and the placeholder, if there is
  one, above none of them.
\<close>

definition feed_page :: "elem \<Rightarrow> elem \<Rightarrow> elem \<Rightarrow> elem \<Rightarrow> page \<Rightarrow> bool" where
  "feed_page b se t l p \<longleftrightarrow>
     b \<in> set (chain t (tree p)) \<and> b \<in> set (chain se (tree p)) \<and> chain l (tree p) \<noteq> []
     \<and> t \<notin> set (chain se (tree p)) \<and> t \<notin> set (chain l (tree p))
     \<and> (\<forall>e. in_page p e \<longrightarrow> (getAttribute p e ''id'' = Some ''ticker'' \<longleftrightarrow> e = t)
          \<and> (getAttribute p e ''id'' = Some ''sse-status-text'' \<longleftrightarrow> e = l)
          \<and> (getAttribute p e ''id'' = Some ''ticker-empty'' \<longrightarrow> e \<notin> set (chain se (tree p)) \<and> e \<notin> set (chain l (tree p))))
     \<and> placeholder_outside p t \<and> distinct (children p t) \<and> (\<forall>e \<in> set (children p t). getAttribute p e ''id'' \<notin> feed_ids)"

lemma feed_in_page:
  assumes "feed_page b se t l p"
  shows "in_page p t \<and> in_page p se \<and> in_page p l"
proof (intro conjI)
  have "b \<in> set (chain t (tree p))" "b \<in> set (chain se (tree p))" "chain l (tree p) \<noteq> []" using assms by (simp_all add: feed_page_def)
  then have "chain t (tree p) \<noteq> []" "chain se (tree p) \<noteq> []" "chain l (tree p) \<noteq> []" by auto
  then show "in_page p t" "in_page p se" "in_page p l" by (simp_all add: chain_Nil_preorder)
qed

lemma only_by_id:
  assumes "in_page p t" "\<And>e. in_page p e \<Longrightarrow> getAttribute p e ''id'' = Some i \<longleftrightarrow> e = t"
  shows "getElementById p i = Some t"
proof -
  let ?l = "filter (\<lambda>e. getAttribute p e ''id'' = Some i) (preorder (tree p))"
  have "t \<in> set ?l" using assms by simp
  then obtain x xs where x: "?l = x # xs" by (cases ?l) auto
  then have "x \<in> set ?l" by (simp only: list.set_intros)
  then have "x = t" using assms(2) by auto
  with x show ?thesis by (simp add: getElementById_def first_of_def)
qed

lemma feed_elements:
  assumes "feed_page b se t l p"
  shows "getElementById p ''ticker'' = Some t" "getElementById p ''sse-status-text'' = Some l"
  using assms feed_in_page [OF assms] by (auto simp: feed_page_def intro!: only_by_id)

lemma children_in_page: "set (children p t) \<subseteq> set (preorder (tree p))"
proof (cases "subtree t (tree p)")
  case (Some u)
  have "eid k \<in> set (preorder k)" for k by (cases k) simp
  then have "set (children p t) \<subseteq> set (descendants p t)" using Some by (cases u) (force simp: children_def descendants_def)
  then show ?thesis using descendants_in_page by blast
qed (simp add: children_def)

text \<open>A page whose elements are old ones, those above the ticker and the label in their places, or new ones without ids of the script.\<close>

lemma feed_page_step:
  assumes ok: "feed_page b se t l p" and ch: "chain t (tree q) = chain t (tree p)" "chain se (tree q) = chain se (tree p)" "chain l (tree q) = chain l (tree p)" "distinct (children q t)"
    and same: "\<And>e. in_page p e \<Longrightarrow> attributes (nodes q e) = attributes (nodes p e)"
    and new: "\<And>e. in_page q e \<Longrightarrow> \<not> in_page p e \<Longrightarrow> getAttribute q e ''id'' \<notin> feed_ids"
    and rows: "\<And>e. e \<in> set (children q t) \<Longrightarrow> in_page p e \<Longrightarrow> e \<in> set (children p t)"
  shows "feed_page b se t l q"
proof -
  have old: "getAttribute q e a = getAttribute p e a" if "in_page p e" for e a using same [OF that] by (simp add: getAttribute_def)
  have p: "in_page p t" "in_page p se" "in_page p l" using feed_in_page [OF ok] by blast+
  have ids: "(getAttribute q e ''id'' = Some ''ticker'' \<longleftrightarrow> e = t) \<and> (getAttribute q e ''id'' = Some ''sse-status-text'' \<longleftrightarrow> e = l)
      \<and> (getAttribute q e ''id'' = Some ''ticker-empty'' \<longrightarrow> e \<notin> set (chain se (tree p)) \<and> e \<notin> set (chain l (tree p)))" if "in_page q e" for e
  proof (cases "in_page p e")
    case True
    with ok old [OF True] show ?thesis by (simp add: feed_page_def)
  next
    case False
    with new [OF that] p show ?thesis by (auto simp: feed_ids_def)
  qed
  have "placeholder_outside q t"
    unfolding placeholder_outside_def list_all_iff
  proof (intro ballI impI)
    fix em assume em: "in_page q em" "getAttribute q em ''id'' = Some ''ticker-empty''"
    then have p: "in_page p em" using new by (auto simp: feed_ids_def)
    with em(2) have "getAttribute p em ''id'' = Some ''ticker-empty''" by (simp add: old)
    with p ok have "em \<notin> set (chain t (tree p)) \<and> em \<notin> set (children p t)" by (auto simp: feed_page_def placeholder_outside_def list_all_iff)
    with rows p ch(1) show "em \<notin> set (chain t (tree q)) \<and> em \<notin> set (children q t)" by auto
  qed
  moreover have "getAttribute q e ''id'' \<notin> feed_ids" if "e \<in> set (children q t)" for e
    using that new rows old [of e "''id''"] ok children_in_page [of q t] by (cases "in_page p e") (auto simp: feed_page_def)
  ultimately show ?thesis using ok ch ids by (simp add: feed_page_def)
qed

section \<open>What the effects do to the page\<close>

lemma trim_frame:
  assumes ok: "feed_page b se t l p"
  shows "feed_page b se t l (trim p)" "row_texts (trim p) t = take MAX_ROWS (row_texts p t)" "nodes (trim p) = nodes p"
proof -
  have out: "placeholder_outside p t" "distinct (children p t)" "t \<notin> set (chain se (tree p))" "t \<notin> set (chain l (tree p))"
    using ok by (simp_all add: feed_page_def)
  note tk = feed_elements(1) [OF ok]
  have rows: "children (trim p) t = take MAX_ROWS (children p t)"
    by (simp add: children_trim [OF tk out(1)] children_trim_rows [OF out(2)])
  let ?q = "trim_rows t p"
  have above: "t \<notin> set (chain e (tree r)) \<Longrightarrow> chain e (tree (trim_rows t r)) = chain e (tree r)" for r e
  proof (induction t r rule: trim_rows.induct)
    case (1 t r)
    have "chain e (tree (removeChild t x r)) = chain e (tree r)" for x
      using chain_upd_kids_other [of "filter (\<lambda>k. eid k \<noteq> x)" t e "tree r"] 1(2) by (auto simp: removeChild_def)
    with 1 show ?case by (cases "length (children r t) > MAX_ROWS") (subst trim_rows.simps, simp)+
  qed
  note q = preorder_trim_rows [of t p] chain_trim_rows [of t p] above [OF out(3)] above [OF out(4)]
  have sub: "set (preorder (tree (trim p))) \<subseteq> set (preorder (tree p)) \<and> nodes (trim p) = nodes p \<and> chain t (tree (trim p)) = chain t (tree p)
      \<and> chain se (tree (trim p)) = chain se (tree p) \<and> chain l (tree (trim p)) = chain l (tree p)"
  proof (cases "getElementById ?q ''ticker-empty''")
    case None
    with tk show ?thesis using q by (simp add: trim_def Let_def)
  next
    case (Some em)
    from getElementById_SomeD [OF Some] have "in_page p em" "getAttribute p em ''id'' = Some ''ticker-empty''"
      using q(1) by (auto simp: getAttribute_def)
    with ok have "em \<notin> set (chain t (tree ?q))" "em \<notin> set (chain se (tree ?q))" "em \<notin> set (chain l (tree ?q))" by (auto simp: feed_page_def placeholder_outside_def list_all_iff q)
    with Some tk show ?thesis using q preorder_remove_subset [of em "tree ?q"]
      by (auto simp: trim_def Let_def remove_el_def chain_tree_remove)
  qed
  show "feed_page b se t l (trim p)"
    by (rule feed_page_step [OF ok]) (use sub rows out(2) in \<open>auto dest: in_set_takeD\<close>)
  show "row_texts (trim p) t = take MAX_ROWS (row_texts p t)" "nodes (trim p) = nodes p" using sub by (simp_all add: row_texts_def rows take_map)
qed

lemma swap_frame:
  assumes sw: "afterbegin sw text_of t" and ok: "feed_page b se t l p"
  shows "feed_page b se t l (sw t c p)" "row_texts (sw t c p) t = text_of c # row_texts p t" "nodes (sw t c p) l = nodes p l"
proof -
  have p: "in_page p t" "in_page p se" "in_page p l" using feed_in_page [OF ok] by blast+
  with sw obtain r where r: "children (sw t c p) t = r # children p t" "\<not> in_page p r" "textContent (nodes (sw t c p) r) = text_of c"
    and old: "\<And>e. in_page p e \<Longrightarrow> chain e (tree (sw t c p)) = chain e (tree p) \<and> nodes (sw t c p) e = nodes p e"
    and new: "\<And>e. in_page (sw t c p) e \<Longrightarrow> \<not> in_page p e \<Longrightarrow> getAttribute (sw t c p) e ''id'' \<notin> feed_ids"
    unfolding afterbegin_def by metis
  have d: "distinct (children (sw t c p) t)" using ok r(1,2) children_in_page [of p t] by (auto simp: feed_page_def)
  show "feed_page b se t l (sw t c p)" by (rule feed_page_step [OF ok _ _ _ d _ new]) (use r old p in auto)
  show "row_texts (sw t c p) t = text_of c # row_texts p t"
    using r(1,3) children_in_page [of p t] old by (auto simp: row_texts_def)
  show "nodes (sw t c p) l = nodes p l" using old p by blast
qed

definition status_text :: "bool \<Rightarrow> string" where
  "status_text connected = (if connected then ''connected'' else ''offline'')"

lemma status_frame:
  assumes ok: "feed_page b se t l p"
  shows "feed_page b se t l (status c p)" "row_texts (status c p) t = row_texts p t" "textContent (nodes (status c p) l) = status_text c"
proof -
  have l: "getElementById p ''sse-status-text'' = Some l" by (rule feed_elements(2) [OF ok])
  have tr: "tree (status c p) = tree p" "attributes (nodes (status c p) e) = attributes (nodes p e)" for e
    by (auto simp: status_def Let_def upd_node_def split: option.splits)
  then have ch: "children (status c p) = children p" by (simp add: children_def fun_eq_iff)
  show "feed_page b se t l (status c p)" by (rule feed_page_step [OF ok]) (use ok tr ch in \<open>auto simp: feed_page_def\<close>)
  have "l \<notin> set (children p t)" using ok feed_in_page [OF ok] by (auto simp: feed_page_def feed_ids_def)
  moreover have "textContent (nodes (status c p) e) = textContent (nodes p e)" if "e \<noteq> l" for e
    using that l by (auto simp: status_def Let_def upd_node_def split: option.splits)
  ultimately show "row_texts (status c p) t = row_texts p t" by (simp add: row_texts_def ch) metis
  show "textContent (nodes (status c p) l) = status_text c"
    using l by (auto simp: status_def status_text_def Let_def upd_node_def split: option.splits)
qed

section \<open>The feed\<close>

text \<open>
  What the browser reports of the stream: that it is open, messages while it is, errors after which it
  reconnects by itself, and fatal errors.
\<close>

datatype feed_event = FeedMessage string | FeedOpen | FeedError | FeedFatal

fun feed_step :: "sse_api \<Rightarrow> (elem \<Rightarrow> string \<Rightarrow> page \<Rightarrow> page) \<Rightarrow> elem \<Rightarrow> elem \<Rightarrow> live \<Rightarrow> feed_event \<Rightarrow> live" where
  "feed_step api sw b se lv (FeedMessage c) = live_message api sw b se ''ticker'' c lv"
| "feed_step api sw b se lv FeedOpen = live_open api sw b se lv"
| "feed_step api sw b se lv FeedError = live_error sw b se lv"
| "feed_step api sw b se lv FeedFatal = live_fatal api sw b se lv"

definition feed_possible :: "elem \<Rightarrow> live \<Rightarrow> feed_event \<Rightarrow> bool" where
  "feed_possible se lv ev =
     (let r = readyState (sources (lv_sse lv) ! current se lv)
      in case ev of FeedMessage _ \<Rightarrow> r = Open | FeedOpen \<Rightarrow> r = Connecting | _ \<Rightarrow> r \<noteq> Closed)"

text \<open>
  The markup of \<open>Home.razor\<close>: the card \<open>se\<close> has \<open>sse-connect\<close> only, the ticker \<open>t\<close> inside it is the one element
  with \<open>sse-swap\<close>, and no element between them has a stream of its own.
\<close>

definition feed_markup :: "sse_api \<Rightarrow> elem \<Rightarrow> elem \<Rightarrow> sse_state \<Rightarrow> bool" where
  "feed_markup api se t s \<longleftrightarrow>
     truthy (getAttributeValue api se ''sse-connect'') \<and> \<not> truthy (getAttributeValue api se ''sse-swap'')
     \<and> \<not> truthy (getAttributeValue api se ''hx-trigger'') \<and> \<not> truthy (getAttributeValue api se ''sse-close'')
     \<and> childrenToFix api se = [t] \<and> getAttributeValue api t ''sse-swap'' = Some ''ticker'' \<and> \<not> truthy (getAttributeValue api t ''hx-trigger'')
     \<and> allows_message api t \<and> closest_source api s t = Some se"

text \<open>
  The current source of the card is not closed; the ticker listens on it, once, except while a source
  made after a fatal error has not opened yet.
\<close>

definition retrying :: "event_source \<Rightarrow> bool" where
  "retrying src = (case retryCount src of Some n \<Rightarrow> 0 < n | None \<Rightarrow> False)"

definition ticker_listeners :: "event_source \<Rightarrow> sse_listener list" where
  "ticker_listeners src = map snd (filter (\<lambda>x. fst x = ''ticker'') (src_listeners src))"

definition source_ok :: "elem \<Rightarrow> elem \<Rightarrow> event_source \<Rightarrow> bool" where
  "source_ok se t src \<longleftrightarrow> src_elt src = se \<and> readyState src \<noteq> Closed
     \<and> (if retrying src then readyState src = Connecting \<and> ticker_listeners src = [] else ticker_listeners src = [SwapListener t se ''ticker''])"

definition stream_ok :: "sse_api \<Rightarrow> elem \<Rightarrow> elem \<Rightarrow> sse_state \<Rightarrow> bool" where
  "stream_ok api se t s \<longleftrightarrow> feed_markup api se t s
     \<and> (\<exists>i. sseEventSource s se = Some i \<and> i < length (sources s) \<and> source_ok se t (sources s ! i))"

definition feed_inv :: "sse_api \<Rightarrow> (elem \<Rightarrow> string \<Rightarrow> page \<Rightarrow> page) \<Rightarrow> (string \<Rightarrow> string) \<Rightarrow> elem \<Rightarrow> elem \<Rightarrow> elem \<Rightarrow> elem \<Rightarrow> live \<Rightarrow> bool" where
  "feed_inv api sw text_of b se t l lv \<longleftrightarrow>
     afterbegin sw text_of t \<and> feed_page b se t l (lv_page lv) \<and> stream_ok api se t (lv_sse lv)"

lemma stream_okE:
  assumes "stream_ok api se t (lv_sse lv)"
  obtains "sseEventSource (lv_sse lv) se = Some (current se lv)" "current se lv < length (sources (lv_sse lv))"
    "source_ok se t (sources (lv_sse lv) ! current se lv)" "feed_markup api se t (lv_sse lv)"
  using assms by (auto simp: stream_ok_def current_def)

subsection \<open>The stream, event by event\<close>

text \<open>Each lemma gives the page after the event and keeps the stream in order.\<close>

lemma sync_ok: "stream_ok api se t s \<Longrightarrow> stream_ok api se t (s\<lparr>in_body := g, effects := es\<rparr>)"
  using closest_source_cong [of "s\<lparr>in_body := g, effects := es\<rparr>" s api t] by (simp add: stream_ok_def feed_markup_def)

lemma upd_ok:
  assumes "stream_ok api se t s" "sseEventSource s se = Some i" "source_ok se t (f (sources s ! i))"
  shows "stream_ok api se t (upd_source i f s)"
proof -
  have "i < length (sources s)" "feed_markup api se t s" using assms(1,2) by (auto simp: stream_ok_def)
  then show ?thesis using assms(2,3) closest_source_cong [of "upd_source i f s" s api t] by (simp add: stream_ok_def feed_markup_def sources_upd_source)
qed

lemma message_step:
  assumes inv: "feed_inv api sw text_of b se t l lv" and pos: "feed_possible se lv (FeedMessage c)"
  shows "lv_page (feed_step api sw b se lv (FeedMessage c)) = trim (sw t c (lv_page lv))"
    and "stream_ok api se t (lv_sse (feed_step api sw b se lv (FeedMessage c)))"
proof -
  let ?p = "lv_page lv" and ?s0 = "(lv_sse lv)\<lparr>in_body := in_page (lv_page lv), effects := []\<rparr>"
  let ?l = "SwapListener t se ''ticker''"
  have ok: "feed_page b se t l ?p" and sw: "afterbegin sw text_of t" and st: "stream_ok api se t (lv_sse lv)" using inv by (simp_all add: feed_inv_def)
  obtain "source_ok se t (sources (lv_sse lv) ! current se lv)" "feed_markup api se t (lv_sse lv)" using st by (rule stream_okE)
  then have one: "ticker_listeners (sources (lv_sse lv) ! current se lv) = [?l]" and allow: "allows_message api t"
    using pos by (auto simp: source_ok_def feed_possible_def feed_markup_def split: if_splits)
  have "in_page ?p t" "in_page ?p se" using feed_in_page [OF ok] by blast+
  then have s1: "call_listener api (current se lv) c ?l ?s0
      = (lv_sse lv)\<lparr>in_body := in_page ?p, effects := [Fired t ''htmx:sseBeforeMessage'', Swapped t c, Fired t ''htmx:sseMessage'']\<rparr>"
    using allow by (simp add: call_listener_def maybeCloseSSESource_def swap_def api_trigger_def)
  have "contains (sw t c ?p) b t" using swap_frame(1) [OF sw ok, of c] by (simp add: feed_page_def contains_def)
  then have "feed_step api sw b se lv (FeedMessage c) = \<lparr>lv_sse = (lv_sse lv)\<lparr>in_body := in_page ?p,
      effects := [Fired t ''htmx:sseBeforeMessage'', Swapped t c, Fired t ''htmx:sseMessage'']\<rparr>, lv_page = trim (sw t c ?p)\<rparr>"
    using one by (simp add: live_message_def ticker_listeners_def live_step_def s1 on_sse_event_def)
  then show "lv_page (feed_step api sw b se lv (FeedMessage c)) = trim (sw t c (lv_page lv))"
    and "stream_ok api se t (lv_sse (feed_step api sw b se lv (FeedMessage c)))" using sync_ok [OF st] by simp_all
qed

lemma fire_ok: "stream_ok api se t s \<Longrightarrow> stream_ok api se t (api_trigger e n s)"
  using closest_source_cong [of "api_trigger e n s" s api t] by (simp add: stream_ok_def feed_markup_def)

lemma error_step:
  assumes inv: "feed_inv api sw text_of b se t l lv" and pos: "feed_possible se lv FeedError"
  shows "lv_page (feed_step api sw b se lv FeedError) = status False (lv_page lv)"
    and "stream_ok api se t (lv_sse (feed_step api sw b se lv FeedError))"
proof -
  let ?p = "lv_page lv" and ?i = "current se lv" and ?s0 = "(lv_sse lv)\<lparr>in_body := in_page (lv_page lv), effects := []\<rparr>"
  let ?s1 = "upd_source ?i (\<lambda>x. x\<lparr>readyState := Connecting\<rparr>) ?s0"
  have ok: "feed_page b se t l ?p" and st: "stream_ok api se t (lv_sse lv)" using inv by (simp_all add: feed_inv_def)
  obtain i: "sseEventSource (lv_sse lv) se = Some ?i" "?i < length (sources (lv_sse lv))" and src: "source_ok se t (sources (lv_sse lv) ! ?i)"
    using st by (rule stream_okE)
  have s1: "stream_ok api se t ?s1"
    by (rule upd_ok [OF sync_ok [OF st]]) (use i src in \<open>auto simp: source_ok_def retrying_def ticker_listeners_def\<close>)
  have x: "sources ?s1 ! ?i = (sources (lv_sse lv) ! ?i)\<lparr>readyState := Connecting\<rparr>" using i(2) by (simp add: sources_upd_source)
  have "in_page ?p se" "contains ?p b se" using feed_in_page [OF ok] ok by (simp_all add: feed_page_def contains_def)
  then have "onerror ?i ?s1 = api_trigger se ''htmx:sseError'' ?s1"
    unfolding onerror_def x using src by (simp add: Let_def source_ok_def maybeCloseSSESource_def)
  then show "lv_page (feed_step api sw b se lv FeedError) = status False (lv_page lv)"
    and "stream_ok api se t (lv_sse (feed_step api sw b se lv FeedError))"
    using \<open>contains ?p b se\<close> fire_ok [OF s1] by (simp_all add: live_error_def live_step_def on_sse_event_def)
qed

lemma register_ticker:
  assumes "feed_markup api se t s" "sseEventSource s se = Some i"
  shows "registerSSE api t s = addEventListener i ''ticker'' (SwapListener t se ''ticker'') s"
proof -
  have "swap_names ''ticker'' = [''ticker'']" by code_simp
  then show ?thesis using assms by (simp add: registerSSE_def feed_markup_def register_triggers_def)
qed

lemma open_step:
  assumes inv: "feed_inv api sw text_of b se t l lv" and pos: "feed_possible se lv FeedOpen"
  shows "lv_page (feed_step api sw b se lv FeedOpen) = status True (lv_page lv)"
    and "stream_ok api se t (lv_sse (feed_step api sw b se lv FeedOpen))"
proof -
  let ?p = "lv_page lv" and ?i = "current se lv" and ?s0 = "(lv_sse lv)\<lparr>in_body := in_page (lv_page lv), effects := []\<rparr>"
  let ?src = "sources (lv_sse lv) ! ?i" and ?s1 = "upd_source ?i (\<lambda>x. x\<lparr>readyState := Open\<rparr>) ?s0"
  define s2 where "s2 = api_trigger se ''htmx:sseOpen'' ?s1"
  have ok: "feed_page b se t l ?p" and st: "stream_ok api se t (lv_sse lv)" using inv by (simp_all add: feed_inv_def)
  obtain i: "sseEventSource (lv_sse lv) se = Some ?i" "?i < length (sources (lv_sse lv))" and src: "source_ok se t ?src" and mk: "feed_markup api se t (lv_sse lv)"
    using st by (rule stream_okE)
  have x: "sources ?s1 ! ?i = ?src\<lparr>readyState := Open\<rparr>" using i(2) by (simp add: sources_upd_source)
  have s2: "sseEventSource s2 se = Some ?i" "sources s2 ! ?i = ?src\<lparr>readyState := Open\<rparr>" "effects s2 = [Fired se ''htmx:sseOpen'']"
    "feed_markup api se t s2" "?i < length (sources s2)"
    using i x mk closest_source_cong [of s2 "lv_sse lv" api t] by (simp_all add: s2_def feed_markup_def)
  have c: "contains ?p b se" using ok by (simp add: feed_page_def contains_def)
  define s3 where "s3 = onopen api ?i ?s1"
  have "effects s3 = [Fired se ''htmx:sseOpen''] \<and> stream_ok api se t s3"
  proof (cases "retrying ?src")
    case True
    let ?f = "\<lambda>x. x\<lparr>src_listeners := src_listeners x @ [(''ticker'', SwapListener t se ''ticker'')]\<rparr>"
    have s3: "s3 = upd_source ?i (\<lambda>x. x\<lparr>retryCount := Some 0\<rparr>) (upd_source ?i ?f s2)"
      unfolding s3_def onopen_def x using True src mk register_ticker [OF s2(4,1)]
      by (auto simp: Let_def retrying_def source_ok_def feed_markup_def s2_def addEventListener_def split: option.splits)
    have "sources s3 ! ?i = ?src\<lparr>readyState := Open, src_listeners := src_listeners ?src @ [(''ticker'', SwapListener t se ''ticker'')], retryCount := Some 0\<rparr>"
      using s2(2,5) by (simp add: s3 sources_upd_source)
    then have "source_ok se t (sources s3 ! ?i)" using True src by (simp add: source_ok_def retrying_def ticker_listeners_def)
    moreover have "feed_markup api se t s3" using s2(4) closest_source_cong [of s3 s2 api t] by (simp add: s3 feed_markup_def)
    ultimately show ?thesis using s2(1,3,5) by (simp add: s3 stream_ok_def)
  next
    case False
    then have s3: "s3 = s2" unfolding s3_def onopen_def x using src by (auto simp: Let_def retrying_def source_ok_def s2_def split: option.splits)
    have "source_ok se t (?src\<lparr>readyState := Open\<rparr>)" using False src by (simp add: source_ok_def retrying_def ticker_listeners_def)
    then show ?thesis using s2 by (simp add: s3 stream_ok_def)
  qed
  then show "lv_page (feed_step api sw b se lv FeedOpen) = status True (lv_page lv)"
    and "stream_ok api se t (lv_sse (feed_step api sw b se lv FeedOpen))"
    using c by (simp_all add: live_open_def live_step_def s3_def [symmetric] on_sse_event_def Let_def)
qed

lemma fatal_step:
  assumes inv: "feed_inv api sw text_of b se t l lv"
  shows "lv_page (feed_step api sw b se lv FeedFatal) = status False (lv_page lv)"
    and "stream_ok api se t (lv_sse (feed_step api sw b se lv FeedFatal))"
proof -
  let ?p = "lv_page lv" and ?i = "current se lv" and ?s0 = "(lv_sse lv)\<lparr>in_body := in_page (lv_page lv), effects := []\<rparr>"
  have ok: "feed_page b se t l ?p" and st: "stream_ok api se t (lv_sse lv)" using inv by (simp_all add: feed_inv_def)
  obtain i: "sseEventSource (lv_sse lv) se = Some ?i" "?i < length (sources (lv_sse lv))" and src: "source_ok se t (sources (lv_sse lv) ! ?i)"
    and mk: "feed_markup api se t (lv_sse lv)" using st by (rule stream_okE)
  have c: "contains ?p b se" "in_page ?p se" using ok feed_in_page [OF ok] by (simp_all add: feed_page_def contains_def)
  define rc where "rc = next_retry (retryCount (sources (lv_sse lv) ! ?i))"
  have rc: "0 < rc" by (simp add: rc_def next_retry_def)
  define s1 where "s1 = fail_once se ?s0"
  have x: "sources (close_source ?i ?s0) ! ?i = (sources (lv_sse lv) ! ?i)\<lparr>readyState := Closed\<rparr>" using i(2) by (simp add: close_source_def sources_upd_source)
  have s1: "timers s1 = timers (lv_sse lv) @ [(rc * 500, se, rc)]" "effects s1 = [Fired se ''htmx:sseError'']" "sseEventSource s1 = sseEventSource (lv_sse lv)"
    unfolding s1_def fail_once_def using i(1) src c(2) x
    by (simp_all add: onerror_def Let_def source_ok_def maybeCloseSSESource_def close_source_def rc_def)
  obtain url where url: "getAttributeValue api se ''sse-connect'' = Some url" "url \<noteq> []" using mk by (auto simp: feed_markup_def truthy_def split: option.splits)
  let ?lv1 = "\<lparr>lv_sse = s1, lv_page = status False ?p\<rparr>"
  let ?u = "s1\<lparr>in_body := in_page (status False ?p), effects := [], timers := timers (lv_sse lv)\<rparr>"
  define s2 where "s2 = ?u\<lparr>sources := sources s1 @ [createEventSource url se (Some rc)], sseEventSource := (sseEventSource s1)(se := Some (length (sources s1)))\<rparr>"
  have "ensureEventSource api se url (Some rc) ?u = s2"
    unfolding ensureEventSource_def Let_def using mk by (cases "getAttributeValue api se ''sse-close''") (auto simp: feed_markup_def truthy_def s2_def)
  moreover have "registerSSE api se s2 = s2"
    unfolding registerSSE_def register_triggers_def using mk by (cases "getAttributeValue api se ''sse-swap''") (auto simp: feed_markup_def truthy_def)
  ultimately have fire: "fire_last_timer api (s1\<lparr>in_body := in_page (status False ?p), effects := []\<rparr>) = s2"
    by (simp add: fire_last_timer_def s1(1) ensureEventSourceOnElement_def url)
  have lv: "feed_step api sw b se lv FeedFatal = \<lparr>lv_sse = s2, lv_page = status False ?p\<rparr>"
    using c(1) fire s1(2) by (simp add: live_fatal_def live_step_def s1_def [symmetric] on_sse_event_def s2_def Let_def)
  have "sources s2 ! length (sources s1) = createEventSource url se (Some rc)" by (simp add: s2_def)
  then have "source_ok se t (sources s2 ! length (sources s1))"
    using rc by (simp add: source_ok_def createEventSource_def retrying_def ticker_listeners_def)
  moreover have "feed_markup api se t s2"
  proof -
    have "hasEventSource s2 = hasEventSource (lv_sse lv)" using i(1) s1(3) by (auto simp: hasEventSource_def fun_eq_iff s2_def)
    with mk show ?thesis by (simp add: feed_markup_def closest_source_def)
  qed
  ultimately have "stream_ok api se t s2" by (auto simp: stream_ok_def s2_def)
  then show "lv_page (feed_step api sw b se lv FeedFatal) = status False (lv_page lv)" "stream_ok api se t (lv_sse (feed_step api sw b se lv FeedFatal))"
    unfolding lv by simp_all
qed

subsection \<open>Specification and refinement\<close>

text \<open>What the user sees, and what it should be.\<close>

record feed_view =
  fv_rows :: "string list"
  fv_status :: string

definition view_of :: "elem \<Rightarrow> elem \<Rightarrow> page \<Rightarrow> feed_view" where
  "view_of t l p = \<lparr>fv_rows = row_texts p t, fv_status = textContent (nodes p l)\<rparr>"

fun spec_step :: "(string \<Rightarrow> string) \<Rightarrow> feed_view \<Rightarrow> feed_event \<Rightarrow> feed_view" where
  "spec_step text_of v (FeedMessage c) = v\<lparr>fv_rows := take MAX_ROWS (text_of c # fv_rows v)\<rparr>"
| "spec_step text_of v FeedOpen = v\<lparr>fv_status := ''connected''\<rparr>"
| "spec_step text_of v FeedError = v\<lparr>fv_status := ''offline''\<rparr>"
| "spec_step text_of v FeedFatal = v\<lparr>fv_status := ''offline''\<rparr>"

text \<open>The two scripts keep the invariant and simulate the specification, event by event.\<close>

lemma feed_simulates:
  assumes inv: "feed_inv api sw text_of b se t l lv" and pos: "feed_possible se lv ev"
  shows "feed_inv api sw text_of b se t l (feed_step api sw b se lv ev)"
    and "view_of t l (lv_page (feed_step api sw b se lv ev)) = spec_step text_of (view_of t l (lv_page lv)) ev"
proof -
  have sw: "afterbegin sw text_of t" and ok: "feed_page b se t l (lv_page lv)" using inv by (simp_all add: feed_inv_def)
  note q = swap_frame [OF sw ok] and st = status_frame [OF ok]
  have "feed_inv api sw text_of b se t l (feed_step api sw b se lv ev)
      \<and> view_of t l (lv_page (feed_step api sw b se lv ev)) = spec_step text_of (view_of t l (lv_page lv)) ev"
  proof (cases ev)
    case (FeedMessage c)
    then show ?thesis using message_step [OF inv, of c] pos sw q [of c] trim_frame [OF q(1) [of c]]
      by (simp add: feed_inv_def view_of_def del: feed_step.simps)
  next
    case FeedOpen
    then show ?thesis using open_step [OF inv] pos sw st [of True] by (simp add: feed_inv_def view_of_def status_text_def del: feed_step.simps)
  next
    case FeedError
    then show ?thesis using error_step [OF inv] pos sw st [of False] by (simp add: feed_inv_def view_of_def status_text_def del: feed_step.simps)
  next
    case FeedFatal
    then show ?thesis using fatal_step [OF inv] sw st [of False] by (simp add: feed_inv_def view_of_def status_text_def del: feed_step.simps)
  qed
  then show "feed_inv api sw text_of b se t l (feed_step api sw b se lv ev)"
    and "view_of t l (lv_page (feed_step api sw b se lv ev)) = spec_step text_of (view_of t l (lv_page lv)) ev" by blast+
qed

interpretation feed: event_machine "feed_step api sw b se" "feed_possible se" "feed_inv api sw text_of b se t l" for api sw text_of b se t l
  by unfold_locales (rule feed_simulates)

lemma feed_run:
  assumes "feed_inv api sw text_of b se t l lv" "allowed_run (feed_possible se) (feed_step api sw b se) lv evs"
  shows "view_of t l (lv_page (foldl (feed_step api sw b se) lv evs)) = foldl (spec_step text_of) (view_of t l (lv_page lv)) evs"
  using assms
proof (induction evs arbitrary: lv)
  case (Cons ev evs)
  then show ?case using feed_simulates [of api sw text_of b se t l lv ev] by (simp del: feed_step.simps spec_step.simps)
qed simp

text \<open>A run of the specification: the rows of the messages, newest first, then the rows the page came with, forty at most.\<close>

definition messages :: "feed_event list \<Rightarrow> string list" where
  "messages evs = List.map_filter (\<lambda>ev. case ev of FeedMessage c \<Rightarrow> Some c | _ \<Rightarrow> None) evs"

definition feed_spec :: "string list \<Rightarrow> string list \<Rightarrow> string list" where
  "feed_spec news old = take MAX_ROWS (rev news @ old)"

fun last_status :: "string \<Rightarrow> feed_event list \<Rightarrow> string" where
  "last_status u [] = u"
| "last_status u (FeedMessage c # evs) = last_status u evs"
| "last_status u (FeedOpen # evs) = last_status ''connected'' evs"
| "last_status u (_ # evs) = last_status ''offline'' evs"

lemma spec_run:
  "length (fv_rows v) \<le> MAX_ROWS \<Longrightarrow>
   foldl (spec_step text_of) v evs = \<lparr>fv_rows = feed_spec (map text_of (messages evs)) (fv_rows v), fv_status = last_status (fv_status v) evs\<rparr>"
proof (induction evs arbitrary: v)
  case (Cons ev evs)
  have cut: "take n (xs @ take n ys) = take n (xs @ ys)" for n and xs ys :: "string list" by (simp add: min_def)
  show ?case
  proof (cases ev)
    case (FeedMessage c)
    have "feed_spec news (take MAX_ROWS (x # old)) = feed_spec (x # news) old" for news x old
      unfolding feed_spec_def cut by simp
    with FeedMessage Cons.IH [of "v\<lparr>fv_rows := take MAX_ROWS (text_of c # fv_rows v)\<rparr>"] show ?thesis
      by (simp add: messages_def map_filter_simps)
  qed (use Cons in \<open>simp_all add: messages_def map_filter_simps\<close>)
qed (simp add: messages_def feed_spec_def map_filter_simps)

text \<open>
  C1: The live feed shows the forty newest events and the state of the stream.  On a page as the site
  delivers it, after any sequence of openings, messages, passing and fatal errors that the browser can
  report, the ticker consists of exactly the rows of the newest messages, each once and the latest on
  top, followed by the rows the page came with as far as there is room, and the status line names the
  last opening or error: the extension, with its reconnects, and the script together implement the
  specification.
\<close>

theorem feed_shows_newest:
  assumes "afterbegin sw text_of t" "feed_page b se t l (lv_page lv)" "stream_ok api se t (lv_sse lv)"
    and "length (children (lv_page lv) t) \<le> MAX_ROWS" and "allowed_run (feed_possible se) (feed_step api sw b se) lv evs"
    and "p = lv_page (foldl (feed_step api sw b se) lv evs)"
  shows "row_texts p t = feed_spec (map text_of (messages evs)) (row_texts (lv_page lv) t)
    \<and> textContent (nodes p l) = last_status (textContent (nodes (lv_page lv) l)) evs"
proof -
  have inv: "feed_inv api sw text_of b se t l lv" using assms by (simp add: feed_inv_def)
  have "length (fv_rows (view_of t l (lv_page lv))) \<le> MAX_ROWS" using assms(4) by (simp add: view_of_def row_texts_def)
  from feed_run [OF inv assms(5)] spec_run [OF this, of text_of evs] show ?thesis by (simp add: view_of_def assms(6))
qed

section \<open>Witness\<close>

text \<open>A swap that makes one row out of every message.\<close>

definition new_elem :: "page \<Rightarrow> elem" where
  "new_elem p = Suc (fold max (preorder (tree p)) 0)"

definition demo_swap :: "elem \<Rightarrow> string \<Rightarrow> page \<Rightarrow> page" where
  "demo_swap e c p = p\<lparr>tree := upd_kids e (\<lambda>ks. Elem (new_elem p) [] # ks) (tree p),
     nodes := (nodes p)(new_elem p := \<lparr>tagName = ''LI'', classList = [], attributes = [], style = (\<lambda>_. []), textContent = c\<rparr>)\<rparr>"

lemma fold_max_ge: "x \<in> set xs \<Longrightarrow> x \<le> fold max xs (n :: nat)"
proof -
  have ge: "n \<le> fold max xs n" for n and xs :: "nat list"
  proof (induction xs arbitrary: n)
    case (Cons y ys)
    then show ?case using order_trans [OF max.cobounded2 [of n y] Cons.IH [of "max y n"]] by simp
  qed simp
  show "x \<in> set xs \<Longrightarrow> x \<le> fold max xs n"
  proof (induction xs arbitrary: n)
    case (Cons y ys)
    then show ?case using order_trans [OF max.cobounded1 [of y n] ge [of "max y n" ys]] by auto
  qed simp
qed

lemma new_elem_fresh: "\<not> in_page p (new_elem p)"
  using fold_max_ge [of "new_elem p" "preorder (tree p)" 0] by (auto simp: new_elem_def)

lemma preorder_prepend: "set (preorder (upd_kids e (\<lambda>ks. Elem n [] # ks) t)) \<subseteq> insert n (set (preorder t))"
  by (induction t) auto

lemma demo_afterbegin: "afterbegin demo_swap id t"
  unfolding afterbegin_def
proof (intro allI impI conjI)
  fix c p assume t: "in_page p t"
  then have "chain t (tree p) \<noteq> []" by (simp add: chain_Nil_preorder)
  then obtain u where u: "subtree t (tree p) = Some u" by (auto simp: chain_Nil_iff)
  have "children (demo_swap t c p) t = new_elem p # children p t" using u by (simp add: children_def demo_swap_def subtree_upd_kids)
  then show "\<exists>r. children (demo_swap t c p) t = r # children p t \<and> \<not> in_page p r \<and> textContent (nodes (demo_swap t c p) r) = id c"
    using new_elem_fresh by (auto simp: demo_swap_def)
  show "chain e (tree (demo_swap t c p)) = chain e (tree p)" "nodes (demo_swap t c p) e = nodes p e" if "in_page p e" for e
    using that new_elem_fresh [of p] chain_prepend [of e "new_elem p" t "tree p"] by (auto simp: demo_swap_def)
  show "getAttribute (demo_swap t c p) e ''id'' \<notin> feed_ids" if "in_page (demo_swap t c p) e \<and> \<not> in_page p e" for e
  proof -
    have "e = new_elem p" using that preorder_prepend [of t "new_elem p" "tree p"] by (auto simp: demo_swap_def)
    then show ?thesis by (simp add: demo_swap_def getAttribute_def feed_ids_def)
  qed
qed

text \<open>The card 3 owns the stream; the ticker 5 has one row, 8 is the label of the status line.\<close>

definition demo_feed_page :: page where
  "demo_feed_page = \<lparr>tree = Elem 0 [Elem 3 [Elem 8 [], Elem 5 [Elem 10 []], Elem 6 []]],
     nodes = (\<lambda>e. plain_node (if e = 5 then ''ticker'' else if e = 6 then ''ticker-empty'' else if e = 8 then ''sse-status-text'' else '''')),
     focused = None, ev_log = []\<rparr>"

definition demo_feed_api :: sse_api where
  "demo_feed_api = \<lparr>getAttributeValue = (\<lambda>e a.
       if e = 3 \<and> a = ''sse-connect'' then Some ''/api/stream'' else if e = 5 \<and> a = ''sse-swap'' then Some ''ticker'' else None),
     ancestry = (\<lambda>e. if e = 5 then [5, 3, 0] else [e]), getTriggerSpecs = (\<lambda>_. []),
     allows_message = (\<lambda>_. True), childrenToFix = (\<lambda>e. if e = 3 then [5] else [])\<rparr>"

definition demo_live :: live where
  "demo_live = \<lparr>lv_sse = \<lparr>sources = [\<lparr>src_url = ''/api/stream'', readyState = Connecting, src_elt = 3, retryCount = None,
       src_listeners = [(''ticker'', SwapListener 5 3 ''ticker'')]\<rparr>], sseEventSource = (\<lambda>e. if e = 3 then Some 0 else None), in_body = (\<lambda>_. True),
     timers = [], effects = []\<rparr>, lv_page = demo_feed_page\<rparr>"

lemma demo_feed: "feed_page 0 3 5 8 (lv_page demo_live)" "stream_ok demo_feed_api 3 5 (lv_sse demo_live)" "row_texts (lv_page demo_live) 5 = ['''']"
proof -
  show "feed_page 0 3 5 8 (lv_page demo_live)" "row_texts (lv_page demo_live) 5 = ['''']"
    by (auto simp: feed_page_def demo_live_def demo_feed_page_def plain_node_def getAttribute_def placeholder_outside_def children_def feed_ids_def
        row_texts_def Let_def split: if_splits)
  show "stream_ok demo_feed_api 3 5 (lv_sse demo_live)"
    by (simp add: stream_ok_def feed_markup_def demo_feed_api_def demo_live_def truthy_def closest_source_def hasEventSource_def source_ok_def
        retrying_def ticker_listeners_def)
qed

theorem feed_shows_newest_witness:
  "\<exists>p. p = lv_page (foldl (feed_step demo_feed_api demo_swap 0 3) demo_live [FeedOpen, FeedMessage ''a'', FeedFatal, FeedOpen, FeedMessage ''b''])
     \<and> row_texts p 5 = [''b'', ''a'', ''''] \<and> textContent (nodes p 8) = ''connected''"
proof -
  let ?evs = "[FeedOpen, FeedMessage ''a'', FeedFatal, FeedOpen, FeedMessage ''b'']"
  have "length (children (lv_page demo_live) 5) \<le> MAX_ROWS" by (simp add: demo_live_def demo_feed_page_def children_def MAX_ROWS_def)
  moreover have "allowed_run (feed_possible 3) (feed_step demo_feed_api demo_swap 0 3) demo_live ?evs" by code_simp
  ultimately show ?thesis
    using feed_shows_newest [OF demo_afterbegin demo_feed(1,2), of ?evs] demo_feed(3)
    by (simp add: feed_spec_def messages_def map_filter_simps MAX_ROWS_def del: feed_step.simps)
qed

end
