(* ===== verification/Reconnect.thy ===== *)
theory Reconnect
  imports Prelude
begin

text \<open>
  The reconnect dialog of the journal app,
  \<open>EliteEvents.JournalWeb/Components/Layout/ReconnectModal.razor.js\<close>.  Blazor's
  \<open>reconnect\<close> and \<open>resumeCircuit\<close> are asynchronous and not under \<open>src/\<close>: what they
  answer is an \<open>outcome\<close> that arrives as a later step, in any order and interleaved with the
  user's clicks.  \<open>await\<close> splits a function at the call, so each continuation is a value of
  \<open>continuation\<close> waiting in the state.
\<close>

section \<open>The dialog's state and its handlers\<close>

datatype outcome = Answered bool | Threw

datatype continuation =
    RetryAfterReconnect   \<comment> \<open>in \<open>retry\<close>, waiting for \<open>Blazor.reconnect()\<close>\<close>
  | RetryAfterResume      \<comment> \<open>in \<open>retry\<close>, waiting for \<open>Blazor.resumeCircuit()\<close>\<close>
  | ResumeAfterResume     \<comment> \<open>in \<open>resume\<close>, waiting for \<open>Blazor.resumeCircuit()\<close>\<close>

record dialog =
  modal_open :: bool
  armed :: bool            \<comment> \<open>\<open>retryWhenDocumentBecomesVisible\<close> listens to \<open>visibilitychange\<close>\<close>
  waiting :: "continuation list"
  reloads :: nat
  reconnected :: nat       \<comment> \<open>reconnect attempts that ended with \<open>successful\<close>\<close>

definition init_dialog :: dialog where
  "init_dialog = \<lparr>modal_open = False, armed = False, waiting = [], reloads = 0, reconnected = 0\<rparr>"

definition handleReconnectStateChanged :: "string \<Rightarrow> dialog \<Rightarrow> dialog" where
  "handleReconnectStateChanged st d =
     (if st = ''show'' then d\<lparr>modal_open := True\<rparr>
      else if st = ''hide'' then d\<lparr>modal_open := False\<rparr>
      else if st = ''failed'' then d\<lparr>armed := True\<rparr>
      else if st = ''rejected'' then d\<lparr>reloads := Suc (reloads d)\<rparr>
      else d)"

text \<open>\<open>retry\<close> up to its first \<open>await\<close>, and the two continuations.\<close>

definition retry :: "dialog \<Rightarrow> dialog" where
  "retry d = d\<lparr>armed := False, waiting := waiting d @ [RetryAfterReconnect]\<rparr>"

definition retry_reconnected :: "outcome \<Rightarrow> dialog \<Rightarrow> dialog" where
  "retry_reconnected r d =
     (case r of
        Answered successful \<Rightarrow>
          if \<not> successful then d\<lparr>waiting := waiting d @ [RetryAfterResume]\<rparr>
          else d\<lparr>reconnected := Suc (reconnected d)\<rparr>
      | Threw \<Rightarrow> d\<lparr>armed := True\<rparr>)"

definition retry_resumed :: "outcome \<Rightarrow> dialog \<Rightarrow> dialog" where
  "retry_resumed r d =
     (case r of
        Answered resumeSuccessful \<Rightarrow>
          if \<not> resumeSuccessful then d\<lparr>reloads := Suc (reloads d)\<rparr> else d\<lparr>modal_open := False\<rparr>
      | Threw \<Rightarrow> d\<lparr>armed := True\<rparr>)"

definition resume :: "dialog \<Rightarrow> dialog" where
  "resume d = d\<lparr>waiting := waiting d @ [ResumeAfterResume]\<rparr>"

definition resume_resumed :: "outcome \<Rightarrow> dialog \<Rightarrow> dialog" where
  "resume_resumed r d =
     (case r of
        Answered successful \<Rightarrow> if \<not> successful then d\<lparr>reloads := Suc (reloads d)\<rparr> else d
      | Threw \<Rightarrow> d\<lparr>reloads := Suc (reloads d)\<rparr>)"

definition retryWhenDocumentBecomesVisible :: "bool \<Rightarrow> dialog \<Rightarrow> dialog" where
  "retryWhenDocumentBecomesVisible visible d = (if visible then retry d else d)"

definition continue_with :: "continuation \<Rightarrow> outcome \<Rightarrow> dialog \<Rightarrow> dialog" where
  "continue_with k r d =
     (case k of
        RetryAfterReconnect \<Rightarrow> retry_reconnected r d
      | RetryAfterResume \<Rightarrow> retry_resumed r d
      | ResumeAfterResume \<Rightarrow> resume_resumed r d)"

section \<open>Runs\<close>

text \<open>
  Labels of the steps: a state change reported by Blazor, a click on one of the two buttons, a
  visibility change of the document, or the answer of a pending call, in any order.
\<close>

datatype dialog_event =
    StateChanged string
  | ClickRetry
  | ClickResume
  | VisibilityChange bool
  | CallReturns nat outcome

inductive dialog_step :: "dialog \<Rightarrow> dialog_event \<Rightarrow> dialog \<Rightarrow> bool" where
  state_changed: "dialog_step d (StateChanged st) (handleReconnectStateChanged st d)"
| click_retry: "dialog_step d ClickRetry (retry d)"
| click_resume: "dialog_step d ClickResume (resume d)"
| visibility: "armed d \<Longrightarrow> dialog_step d (VisibilityChange v) (retryWhenDocumentBecomesVisible v d)"
| visibility_unheard: "\<not> armed d \<Longrightarrow> dialog_step d (VisibilityChange v) d"
| call_returns: "i < length (waiting d) \<Longrightarrow>
    dialog_step d (CallReturns i r)
      (continue_with (waiting d ! i) r (d\<lparr>waiting := take i (waiting d) @ drop (Suc i) (waiting d)\<rparr>))"

inductive_cases call_returnsE: "dialog_step d (CallReturns i r) d'"

inductive dialog_run :: "dialog \<Rightarrow> dialog_event list \<Rightarrow> dialog \<Rightarrow> bool" where
  run_nil: "dialog_run d [] d"
| run_snoc: "dialog_run d es d' \<Longrightarrow> dialog_step d' e d'' \<Longrightarrow> dialog_run d (es @ [e]) d''"

lemmas dialog_defs = handleReconnectStateChanged_def retry_def retry_reconnected_def retry_resumed_def
  resume_def resume_resumed_def retryWhenDocumentBecomesVisible_def continue_with_def

text \<open>An attempt of \<open>retry\<close> is still in flight.\<close>

definition retrying :: "dialog \<Rightarrow> bool" where
  "retrying d = (RetryAfterReconnect \<in> set (waiting d) \<or> RetryAfterResume \<in> set (waiting d))"

text \<open>What settles a failed connection: a reconnect, a reload, or a resumed circuit.\<close>

definition settles :: "dialog_event \<Rightarrow> dialog \<Rightarrow> bool" where
  "settles e d = (case e of
      CallReturns i r \<Rightarrow> i < length (waiting d) \<and> waiting d ! i \<noteq> ResumeAfterResume \<and>
        (r = Answered True \<or> r = Answered False \<and> waiting d ! i = RetryAfterResume)
    | _ \<Rightarrow> False)"

lemma set_without_nth: "i < length xs \<Longrightarrow> set xs \<subseteq> insert (xs ! i) (set (take i xs @ drop (Suc i) xs))"
  by (metis Cons_nth_drop_Suc append_take_drop_id list.simps(15) set_append Un_insert_right order_refl)

lemma pursued_step:
  assumes "dialog_step d e d'" and "armed d \<or> retrying d" and "\<not> settles e d"
  shows "armed d' \<or> retrying d'"
  using assms
proof cases
  case (call_returns i r)
  let ?rest = "take i (waiting d) @ drop (Suc i) (waiting d)"
  have sub: "set (waiting d) \<subseteq> insert (waiting d ! i) (set ?rest)"
    using call_returns(3) by (rule set_without_nth)
  show ?thesis
  proof (cases "waiting d ! i")
    case RetryAfterReconnect
    with call_returns assms(3) show ?thesis
      by (cases r) (auto simp: dialog_defs settles_def retrying_def)
  next
    case RetryAfterResume
    with call_returns assms(3) show ?thesis
      by (cases r) (auto simp: dialog_defs settles_def)
  next
    case ResumeAfterResume
    with sub assms(2) have "armed d \<or> RetryAfterReconnect \<in> set ?rest \<or> RetryAfterResume \<in> set ?rest"
      by (auto simp: retrying_def)
    with call_returns ResumeAfterResume show ?thesis
      by (cases r) (auto simp: dialog_defs retrying_def)
  qed
qed (auto simp: dialog_defs retrying_def)

text \<open>The steps of a run together with the states they start from.\<close>

inductive unsettled_run :: "dialog \<Rightarrow> dialog_event list \<Rightarrow> dialog \<Rightarrow> bool" where
  unsettled_nil: "unsettled_run d [] d"
| unsettled_snoc: "unsettled_run d es d' \<Longrightarrow> dialog_step d' e d'' \<Longrightarrow> \<not> settles e d' \<Longrightarrow>
    unsettled_run d (es @ [e]) d''"

text \<open>
  C6: a failed connection is never abandoned.  Once Blazor has reported \<open>failed\<close>, after any
  sequence of clicks, visibility changes and answers in any order, and until an attempt succeeds
  or reloads the page, either a retry is in flight or the dialog retries when the document next
  becomes visible.
\<close>

theorem failed_is_pursued:
  assumes "unsettled_run (handleReconnectStateChanged ''failed'' d) es d'"
  shows "armed d' \<or> retrying d'"
  using assms
proof (induction "handleReconnectStateChanged ''failed'' d" es d' rule: unsettled_run.induct)
  case unsettled_nil
  then show ?case by (simp add: dialog_defs)
next
  case (unsettled_snoc es d' e d'')
  from unsettled_snoc(3,2,4) show ?case by (rule pursued_step)
qed

theorem failed_is_pursued_witness:
  "\<exists>d'. unsettled_run (handleReconnectStateChanged ''failed'' init_dialog) ([] @ [VisibilityChange True]) d'
     \<and> retrying d' \<and> (armed d' \<or> retrying d')"
proof -
  let ?d = "handleReconnectStateChanged ''failed'' init_dialog"
  let ?d' = "retryWhenDocumentBecomesVisible True ?d"
  have run: "unsettled_run ?d ([] @ [VisibilityChange True]) ?d'"
    by (rule unsettled_run.unsettled_snoc [OF unsettled_run.unsettled_nil])
      (rule dialog_step.visibility, simp_all add: handleReconnectStateChanged_def settles_def)
  from failed_is_pursued [OF run] run show ?thesis
    by (auto simp: dialog_defs init_dialog_def retrying_def)
qed

text \<open>How many attempts are in flight, and how a run counts them.\<close>

definition attempts :: "dialog \<Rightarrow> nat" where
  "attempts d = length (filter (\<lambda>k. k \<noteq> ResumeAfterResume) (waiting d))"

lemma attempts_remove:
  "i < length (waiting d) \<Longrightarrow> waiting d ! i \<noteq> ResumeAfterResume \<Longrightarrow>
   length (filter (\<lambda>k. k \<noteq> ResumeAfterResume) (take i (waiting d) @ drop (Suc i) (waiting d)))
     = attempts d - 1"
proof -
  assume i: "i < length (waiting d)" and k: "waiting d ! i \<noteq> ResumeAfterResume"
  have "waiting d = take i (waiting d) @ waiting d ! i # drop (Suc i) (waiting d)"
    using i by (simp add: Cons_nth_drop_Suc)
  then have "attempts d = length (filter (\<lambda>k. k \<noteq> ResumeAfterResume)
      (take i (waiting d) @ waiting d ! i # drop (Suc i) (waiting d)))"
    by (simp add: attempts_def)
  with k show ?thesis by simp
qed

text \<open>
  An attempt that reached the server but was refused ends by reloading the page or by closing
  the dialog, and one that could not reach it re-arms the retry; in every case the attempt is
  over, or has moved to its second call, when the answer has been handled.
\<close>

theorem retry_answer_handled:
  assumes "dialog_step d (CallReturns i r) d'" and "waiting d ! i = RetryAfterResume"
  shows "attempts d' = attempts d - 1 \<and>
    (r = Answered False \<longrightarrow> reloads d' = Suc (reloads d)) \<and>
    (r = Answered True \<longrightarrow> \<not> modal_open d') \<and>
    (r = Threw \<longrightarrow> armed d')"
proof -
  from assms(1) have i: "i < length (waiting d)"
    and d': "d' = retry_resumed r (d\<lparr>waiting := take i (waiting d) @ drop (Suc i) (waiting d)\<rparr>)"
    by (auto elim: call_returnsE simp: continue_with_def assms(2))
  have "attempts d' = attempts d - 1"
    using attempts_remove [OF i] assms(2) d'
    by (cases r) (simp_all add: attempts_def dialog_defs)
  with d' show ?thesis by (cases r) (auto simp: dialog_defs)
qed

definition refused_dialog :: dialog where
  "refused_dialog = init_dialog\<lparr>waiting := [RetryAfterResume]\<rparr>"

theorem retry_answer_handled_witness:
  "\<exists>d'. dialog_step refused_dialog (CallReturns 0 (Answered False)) d' \<and> reloads d' = 1 \<and> attempts d' = 0"
proof -
  have s: "dialog_step refused_dialog (CallReturns 0 (Answered False))
      (continue_with (waiting refused_dialog ! 0) (Answered False)
        (refused_dialog\<lparr>waiting := take 0 (waiting refused_dialog) @ drop (Suc 0) (waiting refused_dialog)\<rparr>))"
    by (rule dialog_step.call_returns) (simp add: refused_dialog_def)
  from retry_answer_handled [OF s] s show ?thesis
    by (auto simp: refused_dialog_def init_dialog_def attempts_def)
qed

end
